(* ===== verification/Prelude.thy ===== *)
theory Prelude
  imports Main "HOL-Library.Word"
begin

text \<open>
  Shared vocabulary of the development: the fixed-width integer types of
  \<^verbatim>\<open>inc/types.h\<close>, the error numbers of \<^verbatim>\<open>inc/error.h\<close>, the result type of
  kernel functions (a C function returns, panics, or leaves the kernel for good),
  its sequencing operator and weakest preconditions, and the rounding macros with the
  word lemmas that every component uses.
\<close>

unbundle bit_operations_syntax

type_synonym u8 = "8 word"
type_synonym u16 = "16 word"
type_synonym u32 = "32 word"

named_theorems kres_simps \<open>sequencing and weakest preconditions of kernel results\<close>
named_theorems layout_defs \<open>the numeric constants of the memory layout\<close>
named_theorems addr_simps \<open>decomposition of linear addresses\<close>

section \<open>Error numbers\<close>

text \<open>The anonymous enumeration of \<^verbatim>\<open>inc/error.h\<close>; C code returns their negations.\<close>

definition E_UNSPECIFIED :: int where [simp]: "E_UNSPECIFIED = 1"
definition E_BAD_ENV :: int where [simp]: "E_BAD_ENV = 2"
definition E_INVAL :: int where [simp]: "E_INVAL = 3"
definition E_NO_MEM :: int where [simp]: "E_NO_MEM = 4"
definition E_NO_FREE_ENV :: int where [simp]: "E_NO_FREE_ENV = 5"
definition E_FAULT :: int where [simp]: "E_FAULT = 6"
definition E_IPC_NOT_RECV :: int where [simp]: "E_IPC_NOT_RECV = 7"
definition E_EOF :: int where [simp]: "E_EOF = 8"
definition E_NO_DISK :: int where [simp]: "E_NO_DISK = 9"
definition E_MAX_OPEN :: int where [simp]: "E_MAX_OPEN = 10"
definition E_NOT_FOUND :: int where [simp]: "E_NOT_FOUND = 11"
definition E_BAD_PATH :: int where [simp]: "E_BAD_PATH = 12"
definition E_FILE_EXISTS :: int where [simp]: "E_FILE_EXISTS = 13"
definition E_NOT_EXEC :: int where [simp]: "E_NOT_EXEC = 14"
definition E_NOT_SUPP :: int where [simp]: "E_NOT_SUPP = 15"
definition E_TX_BUFF_FULL :: int where [simp]: "E_TX_BUFF_FULL = 16"
definition E_RX_BUFF_FULL :: int where [simp]: "E_RX_BUFF_FULL = 17"
definition E_NETWORK_GEN :: int where [simp]: "E_NETWORK_GEN = 18"

section \<open>Results of kernel functions\<close>

text \<open>
  A kernel function either returns a value in a new state, stops the machine with
  \<^verbatim>\<open>panic\<close>, or gives the CPU away and never returns to its caller: it resumes an
  environment (by its index in \<^verbatim>\<open>envs\<close>), halts the CPU until the next interrupt,
  stays in the kernel monitor, or spins forever.
\<close>

datatype control = RunEnv nat | HaltCpu | MonitorLoop | SpinForever

datatype ('a, 's) kres = Ret 'a 's | Panic string | Leave control 's

fun bindK :: "('a, 's) kres \<Rightarrow> ('a \<Rightarrow> 's \<Rightarrow> ('b, 's) kres) \<Rightarrow> ('b, 's) kres" where
  "bindK (Ret a s) f = f a s"
| "bindK (Panic m) f = Panic m"
| "bindK (Leave c s) f = Leave c s"

text \<open>The \<^verbatim>\<open>assert\<close> macro of \<^verbatim>\<open>inc/assert.h\<close>.\<close>

definition assertK :: "bool \<Rightarrow> string \<Rightarrow> 's \<Rightarrow> (unit, 's) kres" where
  "assertK b m s = (if b then Ret () s else Panic m)"

text \<open>
  Partial-correctness predicate transformer: \<open>wpK Q R m\<close> holds when a returning \<open>m\<close>
  satisfies \<open>Q\<close> and a leaving one satisfies \<open>R\<close>. A panic satisfies everything; the
  theorems that exclude panics say so explicitly.
\<close>

definition wpK :: "('a \<Rightarrow> 's \<Rightarrow> bool) \<Rightarrow> (control \<Rightarrow> 's \<Rightarrow> bool) \<Rightarrow> ('a, 's) kres \<Rightarrow> bool" where
  "wpK Q R m = (case m of Ret a s \<Rightarrow> Q a s | Leave c s \<Rightarrow> R c s | Panic _ \<Rightarrow> True)"

lemma wpK_simps [simp, kres_simps]:
  "wpK Q R (Ret a s) = Q a s" "wpK Q R (Panic m) = True" "wpK Q R (Leave c s) = R c s"
  by (simp_all add: wpK_def)

lemma wpK_bind [kres_simps]: "wpK Q R (bindK m f) = wpK (\<lambda>a s. wpK Q R (f a s)) R m"
  by (cases m) simp_all

lemma wpK_weaken:
  assumes "wpK Q R m" and "\<And>a s. Q a s \<Longrightarrow> Q' a s" and "\<And>c s. R c s \<Longrightarrow> R' c s"
  shows "wpK Q' R' m"
  using assms by (cases m) auto

lemma wpK_if [kres_simps]: "wpK Q R (if b then m else n) = (if b then wpK Q R m else wpK Q R n)"
  by simp

lemma bindK_assoc [simp]: "bindK (bindK m f) g = bindK m (\<lambda>a s. bindK (f a s) g)"
  by (cases m) simp_all

lemma bindK_eq_Ret:
  "bindK m f = Ret b t \<longleftrightarrow> (\<exists>a s. m = Ret a s \<and> f a s = Ret b t)"
  by (cases m) auto

lemma assertK_simps [simp]:
  "assertK True m s = Ret () s" "assertK False m s = Panic m"
  by (simp_all add: assertK_def)

lemma assertK_eq_Ret [simp]: "assertK b m s = Ret u t \<longleftrightarrow> b \<and> s = t"
  by (auto simp: assertK_def)

text \<open>
  A \<^verbatim>\<open>for\<close> loop whose body may panic or leave: the body at each element in turn.
\<close>

fun foldK :: "('x \<Rightarrow> 's \<Rightarrow> (unit, 's) kres) \<Rightarrow> 'x list \<Rightarrow> 's \<Rightarrow> (unit, 's) kres" where
  "foldK f [] s = Ret () s"
| "foldK f (x # xs) s = bindK (f x s) (\<lambda>_. foldK f xs)"

lemma foldK_append: "foldK f (xs @ ys) s = bindK (foldK f xs s) (\<lambda>_. foldK f ys)"
proof (induction xs arbitrary: s)
  case (Cons x xs)
  then show ?case by (cases "f x s") simp_all
qed simp

lemma wpK_foldK:
  assumes "I s"
    and "\<And>x s. x \<in> set xs \<Longrightarrow> I s \<Longrightarrow> wpK (\<lambda>_. I) R (f x s)"
  shows "wpK (\<lambda>_. I) R (foldK f xs s)"
  using assms
proof (induction xs arbitrary: s)
  case Nil
  then show ?case by simp
next
  case (Cons x xs)
  from Cons.prems have "wpK (\<lambda>_. I) R (f x s)" by simp
  then show ?case
    by (simp add: wpK_bind) (erule wpK_weaken, use Cons in auto)
qed

text \<open>A counting loop that always returns, by an invariant on the counter.\<close>

lemma foldK_upt:
  assumes "P 0 s" "\<And>k s. k < n \<Longrightarrow> P k s \<Longrightarrow> \<exists>t. f k s = Ret () t \<and> P (Suc k) t"
  shows "\<exists>t. foldK f [0..<n] s = Ret () t \<and> P n t"
  using assms(2)
proof (induction n)
  case 0
  then show ?case using assms(1) by simp
next
  case (Suc n)
  then obtain t where t: "foldK f [0..<n] s = Ret () t" "P n t" by force
  moreover obtain u where "f n t = Ret () u" "P (Suc n) u" using Suc.prems t(2) by blast
  ultimately show ?case by (simp add: foldK_append)
qed

section \<open>Rounding\<close>

text \<open>\<^verbatim>\<open>ROUNDDOWN\<close>, \<^verbatim>\<open>ROUNDUP\<close>, \<^verbatim>\<open>MIN\<close> and \<^verbatim>\<open>MAX\<close> of \<^verbatim>\<open>inc/types.h\<close> on 32-bit values.\<close>

definition ROUNDDOWN :: "u32 \<Rightarrow> u32 \<Rightarrow> u32" where
  "ROUNDDOWN a n = a - a mod n"

definition ROUNDUP :: "u32 \<Rightarrow> u32 \<Rightarrow> u32" where
  "ROUNDUP a n = ROUNDDOWN (a + n - 1) n"

definition MAX_u32 :: "u32 \<Rightarrow> u32 \<Rightarrow> u32" where
  "MAX_u32 a b = (if a \<ge> b then a else b)"

definition MIN_u32 :: "u32 \<Rightarrow> u32 \<Rightarrow> u32" where
  "MIN_u32 a b = (if a \<le> b then a else b)"

lemma unat_ROUNDDOWN: "unat (ROUNDDOWN a n) = unat a - unat a mod unat n"
proof -
  have "a mod n \<le> a" by (simp add: word_le_nat_alt unat_mod)
  then show ?thesis by (simp add: ROUNDDOWN_def unat_sub unat_mod)
qed

lemma ROUNDDOWN_le: "ROUNDDOWN a n \<le> a"
  by (simp add: word_le_nat_alt unat_ROUNDDOWN)

lemma unat_ROUNDDOWN_mult: "unat (ROUNDDOWN a n) = unat n * (unat a div unat n)"
  by (simp add: unat_ROUNDDOWN minus_mod_eq_mult_div)

lemma ROUNDDOWN_aligned: "ROUNDDOWN a n mod n = 0"
  by (simp add: word_arith_nat_defs(7) unat_ROUNDDOWN_mult)

lemma unat_ROUNDUP:
  assumes "0 < n" and "unat a + unat n \<le> 2 ^ 32"
  shows "unat (ROUNDUP a n) = unat n * ((unat a + unat n - 1) div unat n)"
proof -
  have n: "0 < unat n" using assms(1) by (simp add: word_less_nat_alt)
  have "unat (a + (n - 1)) = unat a + (unat n - 1)"
  proof -
    have "unat (n - 1) = unat n - 1" using assms(1) by (simp add: unat_minus_one word_gt_0)
    moreover have "unat a + (unat n - 1) < 2 ^ 32" using assms(2) n by linarith
    ultimately show ?thesis by (simp add: unat_word_ariths)
  qed
  then show ?thesis using n by (simp add: ROUNDUP_def unat_ROUNDDOWN_mult add_diff_eq [symmetric])
qed

section \<open>Words and natural numbers\<close>

lemma unat_u32_less: "unat (x :: u32) < 2 ^ 32"
  by (rule order.strict_trans2 [OF unsigned_less]) simp

lemma unat_of_nat_u32: "n < 2 ^ 32 \<Longrightarrow> unat (of_nat n :: u32) = n"
  by (simp add: unat_of_nat)

lemma of_nat_u32_less: "n < 2 ^ 32 \<Longrightarrow> k < n \<Longrightarrow> (of_nat k :: u32) < of_nat n"
  by (simp add: word_less_nat_alt unat_of_nat_u32)

lemma of_nat_u32_inject: "n < 2 ^ 32 \<Longrightarrow> k < 2 ^ 32 \<Longrightarrow> (of_nat k :: u32) = of_nat n \<longleftrightarrow> k = n"
  by (metis unat_of_nat_u32)

lemma word_of_nat_less_u32: "k < unat (w :: u32) \<Longrightarrow> of_nat k < w"
  using unat_u32_less [of w] by (simp add: word_less_nat_alt unat_of_nat_u32)

end
