(* ===== verification/Mmu.thy ===== *)
theory Mmu
  imports Prelude
begin

text \<open>
  The paging macros and constants of \<^verbatim>\<open>inc/mmu.h\<close> and the address-space layout of
  \<^verbatim>\<open>inc/memlayout.h\<close>, with the algebra of linear addresses the page-table code relies
  on: decomposition into directory index, table index and offset, composition of page
  table entries from a frame address and permission bits, and the addresses of the
  entries of a table page.
\<close>

section \<open>Linear addresses\<close>

definition PGNUM :: "u32 \<Rightarrow> u32" where "PGNUM la = drop_bit 12 la"
definition PDX :: "u32 \<Rightarrow> u32" where "PDX la = drop_bit 22 la AND 0x3FF"
definition PTX :: "u32 \<Rightarrow> u32" where "PTX la = drop_bit 12 la AND 0x3FF"
definition PGOFF :: "u32 \<Rightarrow> u32" where "PGOFF la = la AND 0xFFF"
definition PGADDR :: "u32 \<Rightarrow> u32 \<Rightarrow> u32 \<Rightarrow> u32" where
  "PGADDR d t ofs = push_bit 22 d OR push_bit 12 t OR ofs"
definition PTE_ADDR :: "u32 \<Rightarrow> u32" where "PTE_ADDR pte = pte AND NOT 0xFFF"

definition PGSIZE :: u32 where [layout_defs]: "PGSIZE = 4096"
definition NPTENTRIES :: u32 where [layout_defs]: "NPTENTRIES = 1024"
definition PTSIZE :: u32 where [layout_defs]: "PTSIZE = PGSIZE * NPTENTRIES"

definition PTE_P :: u32 where [layout_defs]: "PTE_P = 0x001"
definition PTE_W :: u32 where [layout_defs]: "PTE_W = 0x002"
definition PTE_U :: u32 where [layout_defs]: "PTE_U = 0x004"
definition PTE_PWT :: u32 where [layout_defs]: "PTE_PWT = 0x008"
definition PTE_PCD :: u32 where [layout_defs]: "PTE_PCD = 0x010"
definition PTE_D :: u32 where [layout_defs]: "PTE_D = 0x040"
definition PTE_AVAIL :: u32 where [layout_defs]: "PTE_AVAIL = 0xE00"
definition PTE_SYSCALL :: u32 where [layout_defs]: "PTE_SYSCALL = PTE_AVAIL OR PTE_P OR PTE_W OR PTE_U"

definition FL_IF :: u32 where [layout_defs]: "FL_IF = 0x00000200"
definition FL_IOPL_0 :: u32 where [layout_defs]: "FL_IOPL_0 = 0x00000000"
definition FL_IOPL_3 :: u32 where [layout_defs]: "FL_IOPL_3 = 0x00003000"

section \<open>Memory layout\<close>

definition GD_KT :: u16 where [layout_defs]: "GD_KT = 0x08"
definition GD_KD :: u16 where [layout_defs]: "GD_KD = 0x10"
definition GD_UT :: u16 where [layout_defs]: "GD_UT = 0x18"
definition GD_UD :: u16 where [layout_defs]: "GD_UD = 0x20"
definition GD_TSS0 :: u16 where [layout_defs]: "GD_TSS0 = 0x28"

definition KERNBASE :: u32 where [layout_defs]: "KERNBASE = 0xF0000000"
definition IOPHYSMEM :: u32 where [layout_defs]: "IOPHYSMEM = 0x0A0000"
definition EXTPHYSMEM :: u32 where [layout_defs]: "EXTPHYSMEM = 0x100000"
definition KSTACKTOP :: u32 where [layout_defs]: "KSTACKTOP = KERNBASE"
definition KSTKSIZE :: u32 where [layout_defs]: "KSTKSIZE = 8 * PGSIZE"
definition KSTKGAP :: u32 where [layout_defs]: "KSTKGAP = 8 * PGSIZE"
definition MMIOLIM :: u32 where [layout_defs]: "MMIOLIM = KSTACKTOP - PTSIZE"
definition MMIOBASE :: u32 where [layout_defs]: "MMIOBASE = MMIOLIM - PTSIZE"
definition ULIM :: u32 where [layout_defs]: "ULIM = MMIOBASE"
definition UVPT :: u32 where [layout_defs]: "UVPT = ULIM - PTSIZE"
definition UPAGES :: u32 where [layout_defs]: "UPAGES = UVPT - PTSIZE"
definition UENVS :: u32 where [layout_defs]: "UENVS = UPAGES - PTSIZE"
definition UTOP :: u32 where [layout_defs]: "UTOP = UENVS"
definition UXSTACKTOP :: u32 where [layout_defs]: "UXSTACKTOP = UTOP"
definition USTACKTOP :: u32 where [layout_defs]: "USTACKTOP = UTOP - 2 * PGSIZE"
definition UTEXT :: u32 where [layout_defs]: "UTEXT = 2 * PTSIZE"
definition MPENTRY_PADDR :: u32 where [layout_defs]: "MPENTRY_PADDR = 0x7000"

text \<open>The values the diagram at the top of \<^verbatim>\<open>inc/memlayout.h\<close> draws.\<close>

lemma layout_values:
  "PTSIZE = 0x400000" "MMIOLIM = 0xefc00000" "ULIM = 0xef800000" "UVPT = 0xef400000"
  "UPAGES = 0xef000000" "UTOP = 0xeec00000" "UXSTACKTOP = 0xeec00000" "USTACKTOP = 0xeebfe000"
  "PTE_SYSCALL = 0xE07"
  by (simp_all add: layout_defs)

section \<open>Algebra of linear addresses\<close>

lemma mask_numerals: "(0x3FF :: u32) = mask 10" "(0xFFF :: u32) = mask 12" "(3 :: u32) = mask 2"
  by (simp_all add: mask_eq_exp_minus_1)

lemma bit_u32_high: "32 \<le> n \<Longrightarrow> \<not> bit (x :: u32) n"
  using bit_imp_le_length [of x n] by auto

lemma bit_PGNUM: "bit (PGNUM la) n \<longleftrightarrow> bit la (12 + n)"
  by (simp add: PGNUM_def bit_simps)

lemma bit_PDX: "bit (PDX la) n \<longleftrightarrow> n < 10 \<and> bit la (22 + n)"
  by (auto simp: PDX_def mask_numerals bit_simps)

lemma bit_PTX: "bit (PTX la) n \<longleftrightarrow> n < 10 \<and> bit la (12 + n)"
  by (auto simp: PTX_def mask_numerals bit_simps)

lemma bit_PGOFF: "bit (PGOFF la) n \<longleftrightarrow> n < 12 \<and> bit la n"
  by (auto simp: PGOFF_def mask_numerals bit_simps)

lemma bit_PTE_ADDR: "bit (PTE_ADDR la) n \<longleftrightarrow> 12 \<le> n \<and> bit la n"
  using bit_imp_le_length [of la n] by (auto simp: PTE_ADDR_def mask_numerals bit_simps)

lemma bit_PGADDR:
  "bit (PGADDR d t ofs) n \<longleftrightarrow>
     n < 32 \<and> (22 \<le> n \<and> bit d (n - 22) \<or> 12 \<le> n \<and> bit t (n - 12) \<or> bit ofs n)"
  using bit_imp_le_length [of ofs n] by (auto simp: PGADDR_def bit_simps)

lemmas bit_addr = bit_PGNUM bit_PDX bit_PTX bit_PGOFF bit_PTE_ADDR bit_PGADDR

lemma less_exp_take: "x < 2 ^ k \<Longrightarrow> k < 32 \<Longrightarrow> take_bit k (x :: u32) = x"
  by (simp add: less_mask_eq take_bit_eq_mask)

lemma less_exp_bit: "x < 2 ^ k \<Longrightarrow> k < 32 \<Longrightarrow> k \<le> n \<Longrightarrow> \<not> bit (x :: u32) n"
  using bit_take_bit_iff [of k x n] less_exp_take [of x k] by auto

lemma less_1024_bit: "x < 1024 \<Longrightarrow> 10 \<le> n \<Longrightarrow> \<not> bit (x :: u32) n"
  using less_exp_bit [of x 10 n] by simp

lemma less_4096_bit: "x < 4096 \<Longrightarrow> 12 \<le> n \<Longrightarrow> \<not> bit (x :: u32) n"
  using less_exp_bit [of x 12 n] by simp

lemma less_ppn_bit: "x < 0x100000 \<Longrightarrow> 20 \<le> n \<Longrightarrow> \<not> bit (x :: u32) n"
  using less_exp_bit [of x 20 n] by simp

lemmas small_bit = less_1024_bit less_4096_bit less_ppn_bit

lemma small_bitD:
  "bit (x :: u32) n \<Longrightarrow> x < 1024 \<Longrightarrow> n < 10"
  "bit (x :: u32) n \<Longrightarrow> x < 4096 \<Longrightarrow> n < 12"
  "bit (x :: u32) n \<Longrightarrow> x < 0x100000 \<Longrightarrow> n < 20"
  using small_bit by (meson not_less)+

lemma PDX_less: "PDX la < 1024"
proof -
  have "PDX la \<le> 0x3FF" unfolding PDX_def by (rule word_and_le1)
  then show ?thesis by (rule order.strict_trans1) simp
qed

lemma PTX_less: "PTX la < 1024"
proof -
  have "PTX la \<le> 0x3FF" unfolding PTX_def by (rule word_and_le1)
  then show ?thesis by (rule order.strict_trans1) simp
qed

lemma PGOFF_less: "PGOFF la < 4096"
proof -
  have "PGOFF la \<le> 0xFFF" unfolding PGOFF_def by (rule word_and_le1)
  then show ?thesis by (rule order.strict_trans1) simp
qed

lemma PGNUM_less: "PGNUM la < 0x100000"
proof -
  have "unat (PGNUM la) = unat la div 2 ^ 12" unfolding PGNUM_def unat_drop_bit_eq by (rule drop_bit_eq_div)
  moreover have "unat la < 2 ^ 32" using unsigned_less [of la] by simp
  ultimately show ?thesis by (simp add: word_less_nat_alt)
qed

lemma PGADDR_decompose: "PGADDR (PDX la) (PTX la) (PGOFF la) = la"
proof (rule bit_word_eqI)
  fix n assume "n < LENGTH(32)"
  then have n: "n < 32" by simp
  show "bit (PGADDR (PDX la) (PTX la) (PGOFF la)) n = bit la n"
  proof (cases "22 \<le> n")
    case True then show ?thesis using n by (auto simp: bit_addr)
  next
    case False then show ?thesis using n by (cases "12 \<le> n") (auto simp: bit_addr)
  qed
qed

lemma PDX_PGADDR: "d < 1024 \<Longrightarrow> t < 1024 \<Longrightarrow> ofs < 4096 \<Longrightarrow> PDX (PGADDR d t ofs) = d"
  by (rule bit_word_eqI) (auto simp: bit_addr small_bit dest: small_bitD)

lemma PTX_PGADDR: "d < 1024 \<Longrightarrow> t < 1024 \<Longrightarrow> ofs < 4096 \<Longrightarrow> PTX (PGADDR d t ofs) = t"
  by (rule bit_word_eqI) (auto simp: bit_addr small_bit dest: small_bitD)

lemma PGOFF_PGADDR: "ofs < 4096 \<Longrightarrow> PGOFF (PGADDR d t ofs) = ofs"
  by (rule bit_word_eqI) (auto simp: bit_addr small_bit dest: small_bitD)

text \<open>The frame address of a page number and the address of its \<open>i\<close>-th 32-bit entry.\<close>

lemma bit_frame: "bit (push_bit 12 (p :: u32)) n \<longleftrightarrow> 12 \<le> n \<and> n < 32 \<and> bit p (n - 12)"
  by (auto simp: bit_simps)

lemma PGNUM_frame: "p < 0x100000 \<Longrightarrow> PGNUM (push_bit 12 p) = p"
  by (rule bit_word_eqI) (auto simp: bit_PGNUM bit_frame small_bit dest: small_bitD)

lemma PTE_ADDR_frame: "PTE_ADDR (push_bit 12 p) = push_bit 12 p"
  by (rule bit_word_eqI) (auto simp: bit_PTE_ADDR bit_frame)

lemma PGNUM_PTE_ADDR: "PGNUM (PTE_ADDR e) = PGNUM e"
  by (rule bit_word_eqI) (auto simp: bit_addr)

lemma PGNUM_or_small: "ofs < 4096 \<Longrightarrow> PGNUM (e OR ofs) = PGNUM e"
  by (rule bit_word_eqI) (auto simp: bit_PGNUM bit_or_iff small_bit)

lemma PTE_ADDR_or_small: "ofs < 4096 \<Longrightarrow> PTE_ADDR (e OR ofs) = PTE_ADDR e"
  by (rule bit_word_eqI) (auto simp: bit_PTE_ADDR bit_or_iff small_bit)

lemma frame_PGNUM: "push_bit 12 (PGNUM e) = PTE_ADDR e"
  by (rule bit_word_eqI) (auto simp: bit_addr bit_frame)
lemma frame_inject: "(p :: u32) < 0x100000 \<Longrightarrow> q < 0x100000 \<Longrightarrow> push_bit 12 p = push_bit 12 q \<longleftrightarrow> p = q"
  by (metis PGNUM_frame)

definition entry_pa :: "u32 \<Rightarrow> u32 \<Rightarrow> u32" where
  "entry_pa p i = push_bit 12 p + 4 * i"

lemma entry_pa_or: "i < 1024 \<Longrightarrow> entry_pa p i = push_bit 12 p OR push_bit 2 i"
proof -
  assume i: "i < 1024"
  have "4 * i = push_bit 2 i" by (simp add: push_bit_eq_mult)
  moreover have "push_bit 12 p + push_bit 2 i = push_bit 12 p OR push_bit 2 i"
    by (rule disjunctive_add) (use i in \<open>auto simp: bit_simps dest: small_bitD\<close>)
  ultimately show ?thesis by (simp add: entry_pa_def)
qed

lemma PGNUM_entry_pa: "i < 1024 \<Longrightarrow> p < 0x100000 \<Longrightarrow> PGNUM (entry_pa p i) = p"
  by (rule bit_word_eqI) (auto simp: entry_pa_or bit_PGNUM bit_simps dest: small_bitD)

lemma PGOFF_entry_pa: "i < 1024 \<Longrightarrow> PGOFF (entry_pa p i) = push_bit 2 i"
  by (rule bit_word_eqI) (auto simp: entry_pa_or bit_PGOFF bit_simps dest: small_bitD)

lemma entry_pa_aligned: "i < 1024 \<Longrightarrow> entry_pa p i AND 3 = 0"
  by (rule bit_word_eqI) (auto simp: entry_pa_or mask_numerals bit_simps)

lemma drop_push_2: "(i :: u32) < 1024 \<Longrightarrow> drop_bit 2 (push_bit 2 i) = i"
  by (rule bit_word_eqI) (auto simp: bit_simps dest: small_bitD)

lemma entry_pa_inject:
  assumes "i < 1024" "j < 1024" "p < 0x100000" "q < 0x100000"
  shows "entry_pa p i = entry_pa q j \<longleftrightarrow> p = q \<and> i = j"
proof
  assume eq: "entry_pa p i = entry_pa q j"
  then have "p = q" using assms PGNUM_entry_pa by metis
  moreover have "push_bit 2 i = push_bit 2 j" using eq assms PGOFF_entry_pa by metis
  then have "i = j" using assms drop_push_2 by metis
  ultimately show "p = q \<and> i = j" by simp
qed simp

end
