(* ===== verification/Memory.thy ===== *)
theory Memory
  imports Mmu
begin

text \<open>
  Byte-addressed memory with the little-endian 32-bit accesses of the x86, and the bulk
  operations \<^verbatim>\<open>memset\<close> and \<^verbatim>\<open>memcpy\<close>/\<^verbatim>\<open>memmove\<close> of \<^verbatim>\<open>lib/string.c\<close>. The same model
  carries the physical memory of the kernel and the block cache of the file server.
\<close>

type_synonym mem = "u32 \<Rightarrow> u8"

definition ld32 :: "mem \<Rightarrow> u32 \<Rightarrow> u32" where
  "ld32 m a = ucast (m a) OR push_bit 8 (ucast (m (a + 1)))
     OR push_bit 16 (ucast (m (a + 2))) OR push_bit 24 (ucast (m (a + 3)))"

definition st32 :: "mem \<Rightarrow> u32 \<Rightarrow> u32 \<Rightarrow> mem" where
  "st32 m a v = m(a := ucast v, a + 1 := ucast (drop_bit 8 v),
     a + 2 := ucast (drop_bit 16 v), a + 3 := ucast (drop_bit 24 v))"

definition mem_set :: "mem \<Rightarrow> u32 \<Rightarrow> u8 \<Rightarrow> u32 \<Rightarrow> mem" where
  "mem_set m a v n = (\<lambda>x. if x - a < n then v else m x)"

definition mem_copy :: "mem \<Rightarrow> u32 \<Rightarrow> u32 \<Rightarrow> u32 \<Rightarrow> mem" where
  "mem_copy m dst src n = (\<lambda>x. if x - dst < n then m (src + (x - dst)) else m x)"

definition aligned4 :: "u32 \<Rightarrow> bool" where
  "aligned4 a \<longleftrightarrow> a AND 3 = 0"

lemma aligned4_bit: "aligned4 a \<Longrightarrow> \<not> bit a 0 \<and> \<not> bit a 1"
proof -
  assume "aligned4 a"
  then have "\<not> bit (a AND mask 2) 0" "\<not> bit (a AND mask 2) 1"
    by (simp_all add: aligned4_def mask_numerals)
  then show ?thesis by (simp add: bit_simps)
qed

lemma less_4_bit: "k < 4 \<Longrightarrow> bit (k :: u32) n \<Longrightarrow> n < 2"
  using less_exp_bit [of k 2 n] by fastforce

lemma aligned4_drop:
  assumes "aligned4 a" "k < 4"
  shows "drop_bit 2 (a + k) = drop_bit 2 a"
proof -
  have "a + k = a OR k"
  proof (rule disjunctive_add)
    fix n show "\<not> bit a n \<or> \<not> bit k n"
      using less_4_bit [OF assms(2), of n] aligned4_bit [OF assms(1)]
      by (auto simp: less_2_cases_iff)
  qed
  then show ?thesis
    by (intro bit_word_eqI) (auto simp: bit_simps dest: less_4_bit [OF assms(2)])
qed

lemma aligned4_drop_inject:
  assumes "aligned4 a" "aligned4 b" "drop_bit 2 a = drop_bit 2 b"
  shows "a = b"
proof (rule bit_word_eqI)
  fix n
  show "bit a n = bit b n"
  proof (cases "n < 2")
    case True
    then show ?thesis using aligned4_bit assms(1,2) by (auto simp: less_2_cases_iff)
  next
    case False
    then have "bit (drop_bit 2 a) (n - 2) = bit (drop_bit 2 b) (n - 2)" using assms(3) by simp
    moreover have "Suc (Suc (n - 2)) = n" using False by simp
    ultimately show ?thesis by (simp add: bit_simps)
  qed
qed

lemma aligned4_disjoint:
  assumes "aligned4 a" "aligned4 b" "a \<noteq> b" "i < 4" "j < 4"
  shows "a + i \<noteq> b + j"
  using assms aligned4_drop aligned4_drop_inject by metis

lemma st32_other_byte: "(\<And>i. i < 4 \<Longrightarrow> x \<noteq> a + i) \<Longrightarrow> st32 m a v x = m x"
proof -
  assume *: "\<And>i. i < 4 \<Longrightarrow> x \<noteq> a + i"
  have "x \<noteq> a" "x \<noteq> a + 1" "x \<noteq> a + 2" "x \<noteq> a + 3"
    using * [of 0] * [of 1] * [of 2] * [of 3] by simp_all
  then show ?thesis by (simp add: st32_def)
qed

lemma ld32_cong: "(\<And>i. i < 4 \<Longrightarrow> m (a + i) = m' (a + i)) \<Longrightarrow> ld32 m a = ld32 m' a"
proof -
  assume *: "\<And>i. i < 4 \<Longrightarrow> m (a + i) = m' (a + i)"
  have "m a = m' a" "m (a + 1) = m' (a + 1)" "m (a + 2) = m' (a + 2)" "m (a + 3) = m' (a + 3)"
    using * [of 0] * [of 1] * [of 2] * [of 3] by simp_all
  then show ?thesis by (simp add: ld32_def)
qed

lemma bit_bytes_u32:
  "n < 32 \<Longrightarrow> bit (ucast (b0 :: u8) OR push_bit 8 (ucast (b1 :: u8)) OR push_bit 16 (ucast (b2 :: u8))
       OR push_bit 24 (ucast (b3 :: u8)) :: u32) n \<longleftrightarrow>
     (if n < 8 then bit b0 n else if n < 16 then bit b1 (n - 8)
      else if n < 24 then bit b2 (n - 16) else bit b3 (n - 24))"
  using bit_imp_le_length [of b0 n] bit_imp_le_length [of b1 "n - 8"] bit_imp_le_length [of b2 "n - 16"]
  by (auto simp: bit_simps)

lemma ld32_st32_same: "ld32 (st32 m a v) a = v"
proof (rule bit_word_eqI)
  fix n assume "n < LENGTH(32)"
  then show "bit (ld32 (st32 m a v) a) n = bit v n"
    by (simp add: ld32_def st32_def bit_bytes_u32) (auto simp: bit_simps)
qed

lemma ld32_st32_other:
  assumes "aligned4 a" "aligned4 b" "a \<noteq> b"
  shows "ld32 (st32 m a v) b = ld32 m b"
  using aligned4_disjoint [OF assms(2,1)] assms(3)
  by (auto intro!: ld32_cong st32_other_byte)

lemma st32_same_twice: "st32 (st32 m a v) a w = st32 m a w"
  by (rule ext) (simp add: st32_def)

lemma unat_frame: "p < 0x100000 \<Longrightarrow> unat (push_bit 12 (p :: u32)) = 4096 * unat p"
proof -
  assume "p < 0x100000"
  then have "unat p < 0x100000" by (simp add: word_less_nat_alt)
  then show ?thesis by (simp add: push_bit_eq_mult unat_word_ariths)
qed

lemma unat_PGNUM: "unat (PGNUM la) = unat la div 4096"
proof -
  have "unat (PGNUM la) = unat la div 2 ^ 12" unfolding PGNUM_def unat_drop_bit_eq by (rule drop_bit_eq_div)
  then show ?thesis by simp
qed

lemma page_region_iff:
  assumes p: "p < 0x100000"
  shows "x - push_bit 12 p < 4096 \<longleftrightarrow> PGNUM x = p"
proof -
  let ?P = "4096 * unat p"
  have P: "?P + 4096 \<le> 2 ^ 32" using p by (simp add: word_less_nat_alt)
  have X: "unat x < 2 ^ 32" using unsigned_less [of x] by simp
  have sub: "unat (x - push_bit 12 p) = (if ?P \<le> unat x then unat x - ?P else unat x + 2 ^ 32 - ?P)"
    using unat_sub_if_size [of x "push_bit 12 p"] by (simp add: unat_frame [OF p] word_size)
  have "x - push_bit 12 p < 4096 \<longleftrightarrow> ?P \<le> unat x \<and> unat x < ?P + 4096"
    using sub P X by (auto simp: word_less_nat_alt)
  also have "\<dots> \<longleftrightarrow> unat x div 4096 = unat p" by auto
  also have "\<dots> \<longleftrightarrow> PGNUM x = p" by (simp add: unat_PGNUM [symmetric] word_unat_eq_iff)
  finally show ?thesis .
qed

lemma PGNUM_aligned_add:
  assumes "aligned4 a" "k < 4"
  shows "PGNUM (a + k) = PGNUM a"
proof -
  have "PGNUM x = drop_bit 10 (drop_bit 2 x)" for x by (simp add: PGNUM_def)
  then show ?thesis using aligned4_drop [OF assms] by metis
qed

lemma ld32_mem_set_page:
  assumes "aligned4 a" "p < 0x100000"
  shows "ld32 (mem_set m (push_bit 12 p) 0 4096) a = (if PGNUM a = p then 0 else ld32 m a)"
proof (cases "PGNUM a = p")
  case True
  have "ld32 (mem_set m (push_bit 12 p) 0 4096) a = ld32 (\<lambda>_. 0) a"
    by (rule ld32_cong) (simp add: mem_set_def page_region_iff assms PGNUM_aligned_add True)
  then show ?thesis using True by (simp add: ld32_def)
next
  case False
  have "ld32 (mem_set m (push_bit 12 p) 0 4096) a = ld32 m a"
    by (rule ld32_cong) (simp add: mem_set_def page_region_iff assms PGNUM_aligned_add False)
  then show ?thesis using False by simp
qed

lemma ld32_mem_copy_page:
  assumes "aligned4 a" "p < 0x100000"
  shows "ld32 (mem_copy m (push_bit 12 p) (push_bit 12 q) 4096) a =
    (if PGNUM a = p then ld32 m (push_bit 12 q + (a - push_bit 12 p)) else ld32 m a)"
proof (cases "PGNUM a = p")
  case True
  have "ld32 (mem_copy m (push_bit 12 p) (push_bit 12 q) 4096) a
      = ld32 (\<lambda>x. m (push_bit 12 q + (x - push_bit 12 p))) a"
    by (rule ld32_cong) (simp add: mem_copy_def page_region_iff assms PGNUM_aligned_add True)
  then show ?thesis using True by (simp add: ld32_def algebra_simps)
next
  case False
  have "ld32 (mem_copy m (push_bit 12 p) (push_bit 12 q) 4096) a = ld32 m a"
    by (rule ld32_cong) (simp add: mem_copy_def page_region_iff assms PGNUM_aligned_add False)
  then show ?thesis using False by simp
qed

lemma aligned4_entry_pa: "i < 1024 \<Longrightarrow> aligned4 (entry_pa p i)"
  by (simp add: aligned4_def entry_pa_aligned)
end
