(* ===== verification/Spinlock.thy ===== *)
theory Spinlock
  imports Prelude
begin

text \<open>
  Spin locks (\<^verbatim>\<open>kern/spinlock.c\<close>, \<^verbatim>\<open>kern/spinlock.h\<close>). The first part is the lock as one
  CPU sees it, the functions the kernel model calls. The second part is the interleaving
  of several CPUs, one step for each access to the shared lock, with mutual exclusion as an
  invariant of all reachable states. The call stack recorded for debugging is left out.
\<close>

section \<open>The lock operations\<close>

record spinlock =
  locked :: u32
  lk_name :: string
  lk_cpu :: "nat option"

definition holding :: "nat \<Rightarrow> spinlock \<Rightarrow> bool" where
  "holding thiscpu lk \<longleftrightarrow> locked lk \<noteq> 0 \<and> lk_cpu lk = Some thiscpu"

definition spin_initlock :: "string \<Rightarrow> spinlock \<Rightarrow> spinlock" where
  "spin_initlock nm lk = lk\<lparr>locked := 0, lk_name := nm, lk_cpu := None\<rparr>"

text \<open>
  Acquiring the lock. With the lock held by another CPU the loop around \<^verbatim>\<open>xchg\<close> waits for
  that CPU: no result of this CPU alone, which is the value \<open>SpinForever\<close>.
\<close>

definition spin_lock :: "nat \<Rightarrow> spinlock \<Rightarrow> (unit, spinlock) kres" where
  "spin_lock thiscpu lk =
     (if holding thiscpu lk then Panic ''cannot acquire: already holding''
      else if locked lk \<noteq> 0 then Leave SpinForever (lk\<lparr>locked := 1\<rparr>)
      else Ret () (lk\<lparr>locked := 1, lk_cpu := Some thiscpu\<rparr>))"

definition spin_unlock :: "nat \<Rightarrow> spinlock \<Rightarrow> (unit, spinlock) kres" where
  "spin_unlock thiscpu lk =
     (if \<not> holding thiscpu lk then Panic ''spin_unlock''
      else Ret () (lk\<lparr>lk_cpu := None, locked := 0\<rparr>))"

lemma unlock_after_lock:
  assumes "spin_lock c lk = Ret () lk'"
  shows "holding c lk'" "spin_unlock c lk' = Ret () (lk\<lparr>locked := 0, lk_cpu := None\<rparr>)"
  using assms by (auto simp: spin_lock_def spin_unlock_def holding_def split: if_splits)

section \<open>Interleaved CPUs\<close>

text \<open>
  Where a CPU is in \<^verbatim>\<open>spin_lock\<close> or \<^verbatim>\<open>spin_unlock\<close>. Each constructor but \<open>LockPanic\<close> is a
  point before one access to the shared lock; \<open>Critical\<close> is the region between the two
  calls, and the point before \<^verbatim>\<open>holding\<close> reads \<^verbatim>\<open>locked\<close> in \<^verbatim>\<open>spin_unlock\<close>.
\<close>

datatype lock_pc =
    Outside       \<comment> \<open>before \<^verbatim>\<open>holding\<close> reads \<^verbatim>\<open>locked\<close> in \<^verbatim>\<open>spin_lock\<close>\<close>
  | LockReadCpu   \<comment> \<open>before it reads \<^verbatim>\<open>cpu\<close>\<close>
  | LockXchg      \<comment> \<open>before \<^verbatim>\<open>xchg(&lk->locked, 1)\<close>\<close>
  | LockSetCpu    \<comment> \<open>before \<^verbatim>\<open>lk->cpu = thiscpu\<close>\<close>
  | Critical
  | UnlockReadCpu \<comment> \<open>before \<^verbatim>\<open>holding\<close> reads \<^verbatim>\<open>cpu\<close> in \<^verbatim>\<open>spin_unlock\<close>\<close>
  | UnlockClrCpu  \<comment> \<open>before \<^verbatim>\<open>lk->cpu = 0\<close>\<close>
  | UnlockXchg    \<comment> \<open>before \<^verbatim>\<open>xchg(&lk->locked, 0)\<close>\<close>
  | LockPanic

fun lock_step :: "nat \<Rightarrow> lock_pc \<Rightarrow> spinlock \<Rightarrow> lock_pc \<times> spinlock" where
  "lock_step c Outside lk = (if locked lk \<noteq> 0 then LockReadCpu else LockXchg, lk)"
| "lock_step c LockReadCpu lk = (if lk_cpu lk = Some c then LockPanic else LockXchg, lk)"
| "lock_step c LockXchg lk = (if locked lk \<noteq> 0 then LockXchg else LockSetCpu, lk\<lparr>locked := 1\<rparr>)"
| "lock_step c LockSetCpu lk = (Critical, lk\<lparr>lk_cpu := Some c\<rparr>)"
| "lock_step c Critical lk = (if locked lk \<noteq> 0 then UnlockReadCpu else LockPanic, lk)"
| "lock_step c UnlockReadCpu lk = (if lk_cpu lk = Some c then UnlockClrCpu else LockPanic, lk)"
| "lock_step c UnlockClrCpu lk = (UnlockXchg, lk\<lparr>lk_cpu := None\<rparr>)"
| "lock_step c UnlockXchg lk = (Outside, lk\<lparr>locked := 0\<rparr>)"
| "lock_step c LockPanic lk = (LockPanic, lk)"

text \<open>Any CPU may take the next step.\<close>

inductive smp_step :: "(nat \<Rightarrow> lock_pc) \<times> spinlock \<Rightarrow> (nat \<Rightarrow> lock_pc) \<times> spinlock \<Rightarrow> bool" where
  "lock_step c (pcs c) lk = (pc', lk') \<Longrightarrow> smp_step (pcs, lk) (pcs(c := pc'), lk')"

inductive_cases smp_stepE: "smp_step (pcs, lk) x"

definition smp_init :: "string \<Rightarrow> (nat \<Rightarrow> lock_pc) \<times> spinlock" where
  "smp_init nm = ((\<lambda>_. Outside), \<lparr>locked = 0, lk_name = nm, lk_cpu = None\<rparr>)"

inductive smp_reach :: "string \<Rightarrow> (nat \<Rightarrow> lock_pc) \<times> spinlock \<Rightarrow> bool" for nm where
  init: "smp_reach nm (smp_init nm)"
| step: "smp_reach nm x \<Longrightarrow> smp_step x y \<Longrightarrow> smp_reach nm y"

text \<open>The CPUs that own the lock: past a successful \<^verbatim>\<open>xchg\<close> and before the releasing one.\<close>

fun owns :: "lock_pc \<Rightarrow> bool" where
  "owns LockSetCpu = True"
| "owns Critical = True"
| "owns UnlockReadCpu = True"
| "owns UnlockClrCpu = True"
| "owns UnlockXchg = True"
| "owns _ = False"

text \<open>The owner's name is in the lock exactly from its \<open>Critical\<close> point on.\<close>

fun named :: "lock_pc \<Rightarrow> bool" where
  "named Critical = True"
| "named UnlockReadCpu = True"
| "named UnlockClrCpu = True"
| "named _ = False"

definition lock_inv :: "(nat \<Rightarrow> lock_pc) \<times> spinlock \<Rightarrow> bool" where
  "lock_inv x \<longleftrightarrow>
     (\<forall>c d. owns (fst x c) \<and> owns (fst x d) \<longrightarrow> c = d) \<and>
     (locked (snd x) \<noteq> 0 \<longleftrightarrow> (\<exists>c. owns (fst x c))) \<and>
     (\<forall>c. lk_cpu (snd x) = Some c \<longleftrightarrow> named (fst x c)) \<and>
     (\<forall>c. fst x c \<noteq> LockPanic)"

lemma named_owns: "named p \<Longrightarrow> owns p"
  by (cases p) auto

text \<open>A CPU that moves on without touching the lock or becoming its owner.\<close>

lemma lock_inv_same:
  assumes "lock_inv (pcs, lk)" "owns pc' = owns (pcs c)" "named pc' = named (pcs c)" "pc' \<noteq> LockPanic"
  shows "lock_inv (pcs(c := pc'), lk)"
proof -
  have "owns ((pcs(c := pc')) d) = owns (pcs d)" "named ((pcs(c := pc')) d) = named (pcs d)" for d
    using assms by auto
  then show ?thesis using assms(1,4) by (auto simp only: lock_inv_def fst_conv snd_conv fun_upd_apply split: if_splits)
qed

lemma lock_inv_step:
  assumes "lock_inv (pcs, lk)" "lock_step c (pcs c) lk = (pc', lk')"
  shows "lock_inv (pcs(c := pc'), lk')"
proof -
  have one: "\<And>d. owns (pcs c) \<Longrightarrow> owns (pcs d) \<Longrightarrow> d = c"
    and lck: "locked lk \<noteq> 0 \<longleftrightarrow> (\<exists>c. owns (pcs c))"
    and cpu: "\<And>d. lk_cpu lk = Some d \<longleftrightarrow> named (pcs d)"
    and np: "\<And>d. pcs d \<noteq> LockPanic"
    and uniq: "\<And>d e. owns (pcs d) \<Longrightarrow> owns (pcs e) \<Longrightarrow> d = e"
    using assms(1) by (auto simp: lock_inv_def)
  show ?thesis
  proof (cases "pcs c")
    case LockXchg
    show ?thesis
    proof (cases "locked lk = 0")
      case True
      then have "\<not> owns (pcs d)" "\<not> named (pcs d)" for d using lck named_owns by auto
      then show ?thesis using LockXchg True assms(2) cpu np by (auto simp: lock_inv_def)
    next
      case False
      then have "pc' = LockXchg" "lk' = lk\<lparr>locked := 1\<rparr>" using LockXchg assms(2) by auto
      moreover have "pcs(c := LockXchg) = pcs" using LockXchg by (simp add: fun_upd_idem)
      ultimately show ?thesis using False assms(1) by (auto simp: lock_inv_def)
    qed
  next
    case LockSetCpu
    then have "\<not> named (pcs d)" for d using one [of d] named_owns [of "pcs d"] by (cases "d = c") auto
    moreover have "owns (pcs c)" using LockSetCpu by simp
    then have "locked lk \<noteq> 0" using lck by blast
    ultimately show ?thesis using LockSetCpu assms(2) lck np uniq one by (auto simp: lock_inv_def)
  next
    case UnlockClrCpu
    then have "\<not> named (pcs d)" if "d \<noteq> c" for d using one [of d] named_owns [of "pcs d"] that by auto
    moreover have "owns (pcs c)" using UnlockClrCpu by simp
    then have "locked lk \<noteq> 0" using lck by blast
    ultimately show ?thesis using UnlockClrCpu assms(2) lck np uniq one by (auto simp: lock_inv_def)
  next
    case UnlockXchg
    then have "\<not> owns (pcs d)" if "d \<noteq> c" for d using one [of d] that by auto
    moreover have "\<not> named (pcs d)" for d
      using calculation [of d] named_owns [of "pcs d"] UnlockXchg by (cases "d = c") auto
    ultimately show ?thesis using UnlockXchg assms(2) np cpu by (auto simp: lock_inv_def)
  next
    case Critical
    then have "owns (pcs c)" by simp
    then have "locked lk \<noteq> 0" using lck by blast
    then show ?thesis using lock_inv_same [OF assms(1), of UnlockReadCpu c] Critical assms(2) by simp
  next
    case UnlockReadCpu
    then have "lk_cpu lk = Some c" using cpu by simp
    then show ?thesis using lock_inv_same [OF assms(1), of UnlockClrCpu c] UnlockReadCpu assms(2) by simp
  next
    case Outside
    then show ?thesis using lock_inv_same [OF assms(1), of _ c] assms(2) by (auto split: if_splits)
  next
    case LockReadCpu
    then have "lk_cpu lk \<noteq> Some c" using cpu by simp
    then show ?thesis using lock_inv_same [OF assms(1), of LockXchg c] LockReadCpu assms(2) by simp
  next
    case LockPanic
    then show ?thesis using np by simp
  qed
qed

lemma lock_inv_reach: "smp_reach nm x \<Longrightarrow> lock_inv x"
proof (induction rule: smp_reach.induct)
  case init
  then show ?case by (simp add: smp_init_def lock_inv_def)
next
  case (step x y)
  then show ?case using lock_inv_step by (cases x) (auto elim!: smp_stepE)
qed

end
