(* ===== verification/Console.thy ===== *)
theory Console
  imports Prelude
begin

text \<open>
  The console (\<^verbatim>\<open>kern/console.c\<close>): keyboard and serial input into a circular buffer, and
  output to the serial port, the parallel port and the text display. The devices are the
  bytes they have waiting and the bytes sent to them; the delays of the output routines and
  the programming of the display's cursor are left out.
\<close>

section \<open>State\<close>

record console =
  cons_buf :: "nat \<Rightarrow> u8"
  cons_rpos :: u32
  cons_wpos :: u32
  kbd_shift :: u32
  kbd_rx :: "(bool \<times> u8) list"   \<comment> \<open>scan codes waiting, each with the \<^verbatim>\<open>KBS_TERR\<close> flag\<close>
  serial_exists :: bool
  serial_rx :: "u8 list"
  serial_tx :: "u8 list"          \<comment> \<open>bytes sent, the latest first\<close>
  lpt_tx :: "u8 list"
  crt_buf :: "nat \<Rightarrow> u16"
  crt_pos :: u16
  reboot_req :: bool

definition CONSBUFSIZE :: u32 where "CONSBUFSIZE = 512"
definition CRT_COLS :: u16 where "CRT_COLS = 80"
definition CRT_SIZE :: u16 where "CRT_SIZE = 25 * CRT_COLS"

section \<open>Keyboard\<close>

definition SHIFT :: u32 where "SHIFT = 1"
definition CTL :: u32 where "CTL = 2"
definition ALT :: u32 where "ALT = 4"
definition CAPSLOCK :: u32 where "CAPSLOCK = 8"
definition NUMLOCK :: u32 where "NUMLOCK = 16"
definition SCROLLLOCK :: u32 where "SCROLLLOCK = 32"
definition E0ESC :: u32 where "E0ESC = 64"
definition KEY_DEL :: int where "KEY_DEL = 0xE9"

definition shiftcode :: "u8 \<Rightarrow> u32" where
  "shiftcode d = (if d = 0x1D then CTL else if d = 0x2A then SHIFT else if d = 0x36 then SHIFT
     else if d = 0x38 then ALT else if d = 0x9D then CTL else if d = 0xB8 then ALT else 0)"

definition togglecode :: "u8 \<Rightarrow> u32" where
  "togglecode d = (if d = 0x3A then CAPSLOCK else if d = 0x45 then NUMLOCK
     else if d = 0x46 then SCROLLLOCK else 0)"

text \<open>A C array initialiser: leading elements, then designated ones, everything else 0.\<close>

definition key_table :: "u8 list \<Rightarrow> (u8 \<times> u8) list \<Rightarrow> u8 \<Rightarrow> u8" where
  "key_table leading designated data =
     (case map_of designated data of
        Some c \<Rightarrow> c
      | None \<Rightarrow> if unat data < length leading then leading ! unat data else 0)"

definition normalmap :: "u8 \<Rightarrow> u8" where
  "normalmap data = key_table
     [0, 27, 49, 50, 51, 52, 53, 54, 55, 56, 57, 48, 45, 61, 8, 9,
      113, 119, 101, 114, 116, 121, 117, 105, 111, 112, 91, 93, 10, 0, 97, 115,
      100, 102, 103, 104, 106, 107, 108, 59, 39, 96, 0, 92, 122, 120, 99, 118,
      98, 110, 109, 44, 46, 47, 0, 42, 0, 32, 0, 0, 0, 0, 0, 0,
      0, 0, 0, 0, 0, 0, 0, 55, 56, 57, 45, 52, 53, 54, 43, 49,
      50, 51, 48, 46, 0, 0, 0, 0]
     [(199, 224), (156, 10), (181, 47), (200, 226), (201, 230), (203, 228), (205, 229), (207, 225), (208, 227), (209, 231), (210, 232), (211, 233)] data"

definition shiftmap :: "u8 \<Rightarrow> u8" where
  "shiftmap data = key_table
     [0, 27, 33, 64, 35, 36, 37, 94, 38, 42, 40, 41, 95, 43, 8, 9,
      81, 87, 69, 82, 84, 89, 85, 73, 79, 80, 123, 125, 10, 0, 65, 83,
      68, 70, 71, 72, 74, 75, 76, 58, 34, 126, 0, 124, 90, 88, 67, 86,
      66, 78, 77, 60, 62, 63, 0, 42, 0, 32, 0, 0, 0, 0, 0, 0,
      0, 0, 0, 0, 0, 0, 0, 55, 56, 57, 45, 52, 53, 54, 43, 49,
      50, 51, 48, 46, 0, 0, 0, 0]
     [(199, 224), (156, 10), (181, 47), (200, 226), (201, 230), (203, 228), (205, 229), (207, 225), (208, 227), (209, 231), (210, 232), (211, 233)] data"

definition ctlmap :: "u8 \<Rightarrow> u8" where
  "ctlmap data = key_table
     [0, 0, 0, 0, 0, 0, 0, 0, 0, 0, 0, 0, 0, 0, 0, 0,
      17, 23, 5, 18, 20, 25, 21, 9, 15, 16, 0, 0, 13, 0, 1, 19,
      4, 6, 7, 8, 10, 11, 12, 0, 0, 0, 0, 28, 26, 24, 3, 22,
      2, 14, 13, 0, 0, 239, 0, 0]
     [(151, 224), (181, 239), (200, 226), (201, 230), (203, 228), (205, 229), (207, 225), (208, 227), (209, 231), (210, 232), (211, 233)] data"

definition charcode :: "u32 \<Rightarrow> u8 \<Rightarrow> u8" where
  "charcode i = (if i = 0 then normalmap else if i = 1 then shiftmap else ctlmap)"

definition kbd_proc_data :: "console \<Rightarrow> int \<times> console" where
  "kbd_proc_data s =
     (case kbd_rx s of
        [] \<Rightarrow> (- 1, s)
      | (terr, data) # rest \<Rightarrow>
          if terr then (- 1, s)
          else
            let s = s\<lparr>kbd_rx := rest\<rparr>; shift = kbd_shift s in
            if data = 0xE0 then (0, s\<lparr>kbd_shift := shift OR E0ESC\<rparr>)
            else if data AND 0x80 \<noteq> 0 then
              let data = (if shift AND E0ESC \<noteq> 0 then data else data AND 0x7F) in
              (0, s\<lparr>kbd_shift := shift AND NOT (shiftcode data OR E0ESC)\<rparr>)
            else
              let (data, shift) = (if shift AND E0ESC \<noteq> 0
                    then (data OR 0x80, shift AND NOT E0ESC) else (data, shift));
                  shift = shift OR shiftcode data;
                  shift = shift XOR togglecode data;
                  c = uint (charcode (shift AND (CTL OR SHIFT)) data);
                  c = (if shift AND CAPSLOCK \<noteq> 0
                       then if 97 \<le> c \<and> c \<le> 122 then c - 32
                            else if 65 \<le> c \<and> c \<le> 90 then c + 32 else c
                       else c);
                  s = s\<lparr>kbd_shift := shift\<rparr>
              in (c, if NOT shift AND (CTL OR ALT) = 0 \<and> c = KEY_DEL then s\<lparr>reboot_req := True\<rparr> else s))"

definition serial_proc_data :: "console \<Rightarrow> int \<times> console" where
  "serial_proc_data s = (case serial_rx s of
       [] \<Rightarrow> (- 1, s)
     | b # rest \<Rightarrow> (uint b, s\<lparr>serial_rx := rest\<rparr>))"

section \<open>The input buffer\<close>

definition cons_store :: "int \<Rightarrow> console \<Rightarrow> console" where
  "cons_store c s =
     (let s = s\<lparr>cons_buf := (cons_buf s)(unat (cons_wpos s) := word_of_int c), cons_wpos := cons_wpos s + 1\<rparr> in
      if cons_wpos s = CONSBUFSIZE then s\<lparr>cons_wpos := 0\<rparr> else s)"

text \<open>The loop over a device; \<open>None\<close> would be a device that never runs out of data.\<close>

partial_function (option) cons_intr :: "(console \<Rightarrow> int \<times> console) \<Rightarrow> console \<Rightarrow> console option" where
  "cons_intr dev s =
     (let (c, s) = dev s in
      if c = - 1 then Some s
      else if c = 0 then cons_intr dev s
      else cons_intr dev (cons_store c s))"

definition serial_intr :: "console \<Rightarrow> console option" where
  "serial_intr s = (if serial_exists s then cons_intr serial_proc_data s else Some s)"

definition kbd_intr :: "console \<Rightarrow> console option" where
  "kbd_intr s = cons_intr kbd_proc_data s"

definition cons_take :: "console \<Rightarrow> int \<times> console" where
  "cons_take s =
     (if cons_rpos s \<noteq> cons_wpos s then
        let c = uint (cons_buf s (unat (cons_rpos s)));
            s = s\<lparr>cons_rpos := cons_rpos s + 1\<rparr>;
            s = (if cons_rpos s = CONSBUFSIZE then s\<lparr>cons_rpos := 0\<rparr> else s)
        in (c, s)
      else (0, s))"

definition cons_getc :: "console \<Rightarrow> (int \<times> console) option" where
  "cons_getc s =
     (case serial_intr s of None \<Rightarrow> None | Some s \<Rightarrow>
      case kbd_intr s of None \<Rightarrow> None | Some s \<Rightarrow> Some (cons_take s))"

section \<open>Output\<close>

definition serial_putc :: "int \<Rightarrow> console \<Rightarrow> console" where
  "serial_putc c s = s\<lparr>serial_tx := word_of_int c # serial_tx s\<rparr>"

definition lpt_putc :: "int \<Rightarrow> console \<Rightarrow> console" where
  "lpt_putc c s = s\<lparr>lpt_tx := word_of_int c # lpt_tx s\<rparr>"

definition cga_scroll :: "console \<Rightarrow> console" where
  "cga_scroll s =
     (if crt_pos s \<ge> CRT_SIZE then
        s\<lparr>crt_buf := (\<lambda>i. if i < unat (CRT_SIZE - CRT_COLS) then crt_buf s (i + unat CRT_COLS)
                          else if i < unat CRT_SIZE then 0x0700 OR 32 else crt_buf s i),
          crt_pos := crt_pos s - CRT_COLS\<rparr>
      else s)"

text \<open>A tab prints five spaces on every device, through \<^verbatim>\<open>cons_putc\<close>; the argument \<open>space\<close> is
  that call.\<close>

definition cga_putc_with :: "(console \<Rightarrow> console) \<Rightarrow> int \<Rightarrow> console \<Rightarrow> console" where
  "cga_putc_with space c s =
     (let w = (word_of_int c :: u32);
          w = (if w AND NOT 0xFF = 0 then w OR 0x0700 else w);
          ch = w AND 0xFF;
          s = (if ch = 8 then
                 if crt_pos s > 0 then
                   s\<lparr>crt_pos := crt_pos s - 1,
                     crt_buf := (crt_buf s)(unat (crt_pos s - 1) := ucast (w AND NOT 0xFF) OR 32)\<rparr>
                 else s
               else if ch = 10 then
                 let p = crt_pos s + CRT_COLS in s\<lparr>crt_pos := p - p mod CRT_COLS\<rparr>
               else if ch = 13 then s\<lparr>crt_pos := crt_pos s - crt_pos s mod CRT_COLS\<rparr>
               else if ch = 9 then (space ^^ 5) s
               else s\<lparr>crt_buf := (crt_buf s)(unat (crt_pos s) := ucast w), crt_pos := crt_pos s + 1\<rparr>)
      in cga_scroll s)"

definition put_space :: "console \<Rightarrow> console" where
  "put_space s = cga_putc_with id 32 (lpt_putc 32 (serial_putc 32 s))"

definition cga_putc :: "int \<Rightarrow> console \<Rightarrow> console" where
  "cga_putc = cga_putc_with put_space"

definition cons_putc :: "int \<Rightarrow> console \<Rightarrow> console" where
  "cons_putc c s = cga_putc c (lpt_putc c (serial_putc c s))"

definition cputchar :: "int \<Rightarrow> console \<Rightarrow> console" where
  "cputchar c s = cons_putc c s"

section \<open>Input never blocks\<close>

lemma serial_proc_data_cases:
  "serial_proc_data s = (- 1, s) \<and> serial_rx s = [] \<or>
   (\<exists>c rest. serial_proc_data s = (c, s\<lparr>serial_rx := rest\<rparr>) \<and> 0 \<le> c \<and> length rest < length (serial_rx s))"
  by (auto simp: serial_proc_data_def split: list.split)

lemma kbd_proc_data_less:
  "kbd_proc_data s = (c, t) \<Longrightarrow> c \<noteq> - 1 \<Longrightarrow> length (kbd_rx t) < length (kbd_rx s)"
  by (auto simp: kbd_proc_data_def Let_def split: list.splits if_splits)

lemma cons_store_fields [simp]:
  "kbd_rx (cons_store c s) = kbd_rx s" "serial_rx (cons_store c s) = serial_rx s"
  "cons_rpos (cons_store c s) = cons_rpos s" "kbd_shift (cons_store c s) = kbd_shift s"
  by (simp_all add: cons_store_def Let_def)

lemma cons_intr_total:
  assumes "\<And>s c t. dev s = (c, t) \<Longrightarrow> c \<noteq> - 1 \<Longrightarrow> m t < (m s :: nat)" "\<And>c s. m (cons_store c s) = m s"
  shows "\<exists>t. cons_intr dev s = Some t"
proof (induction "m s" arbitrary: s rule: less_induct)
  case less
  obtain c t where d: "dev s = (c, t)" by (cases "dev s")
  show ?case
  proof (cases "c = - 1")
    case True
    then show ?thesis by (simp add: cons_intr.simps [of dev s] d)
  next
    case False
    then have "m t < m s" using assms(1) d by blast
    then show ?thesis using less [of t] less [of "cons_store c t"] assms(2) False
      by (simp add: cons_intr.simps [of dev s] d)
  qed
qed

lemma serial_intr_total: "\<exists>t. serial_intr s = Some t"
proof -
  have "length (serial_rx t) < length (serial_rx s)" if "serial_proc_data s = (c, t)" "c \<noteq> - 1" for s c t
    using that by (auto simp: serial_proc_data_def split: list.splits)
  from cons_intr_total [of serial_proc_data "\<lambda>s. length (serial_rx s)", OF this]
  show ?thesis by (simp add: serial_intr_def)
qed

lemma kbd_intr_total: "\<exists>t. kbd_intr s = Some t"
  using cons_intr_total [of kbd_proc_data "\<lambda>s. length (kbd_rx s)"] kbd_proc_data_less
  by (simp add: kbd_intr_def)

lemma cons_getc_total: "\<exists>r. cons_getc s = Some r"
proof -
  obtain t where "serial_intr s = Some t" using serial_intr_total by blast
  moreover obtain u where "kbd_intr t = Some u" using kbd_intr_total by blast
  ultimately show ?thesis by (simp add: cons_getc_def)
qed

section \<open>Bounded queues\<close>

text \<open>What a client may expect of a bounded first-in first-out buffer.\<close>

locale fifo =
  fixes ok :: "'s \<Rightarrow> bool"
    and contents :: "'s \<Rightarrow> 'a list"
    and put :: "'a \<Rightarrow> 's \<Rightarrow> 's"
    and get :: "'s \<Rightarrow> 'a \<times> 's"
    and cap :: nat
  assumes put_ok: "ok s \<Longrightarrow> length (contents s) < cap \<Longrightarrow> ok (put x s)"
    and put_contents: "ok s \<Longrightarrow> length (contents s) < cap \<Longrightarrow> contents (put x s) = contents s @ [x]"
    and get_ok: "ok s \<Longrightarrow> contents s \<noteq> [] \<Longrightarrow> ok (snd (get s))"
    and get_fst: "ok s \<Longrightarrow> contents s \<noteq> [] \<Longrightarrow> fst (get s) = hd (contents s)"
    and get_contents: "ok s \<Longrightarrow> contents s \<noteq> [] \<Longrightarrow> contents (snd (get s)) = tl (contents s)"
begin

lemma puts_contents:
  assumes "ok s" "length (contents s) + length xs \<le> cap"
  shows "ok (fold put xs s) \<and> contents (fold put xs s) = contents s @ xs"
  using assms
proof (induction xs arbitrary: s)
  case (Cons x xs)
  then show ?case using put_ok [of s x] put_contents [of s x] by simp
qed simp

primrec gets :: "nat \<Rightarrow> 's \<Rightarrow> 'a list" where
  "gets 0 s = []"
| "gets (Suc n) s = fst (get s) # gets n (snd (get s))"

lemma gets_contents: "ok s \<Longrightarrow> n \<le> length (contents s) \<Longrightarrow> gets n s = take n (contents s)"
proof (induction n arbitrary: s)
  case (Suc n)
  then have ne: "contents s \<noteq> []" by auto
  then have "gets n (snd (get s)) = take n (tl (contents s))"
    using Suc get_ok [of s] get_contents [of s] by simp
  then show ?case using get_fst [OF Suc.prems(1) ne] ne by (cases "contents s") auto
qed simp

lemma fifo_order: "ok s \<Longrightarrow> contents s = [] \<Longrightarrow> length xs \<le> cap \<Longrightarrow> gets (length xs) (fold put xs s) = xs"
  using puts_contents [of s xs] gets_contents [of "fold put xs s" "length xs"] by simp

end

section \<open>The console buffer is one\<close>

definition cons_ok :: "console \<Rightarrow> bool" where
  "cons_ok s \<longleftrightarrow> cons_rpos s < CONSBUFSIZE \<and> cons_wpos s < CONSBUFSIZE"

definition cons_queue :: "console \<Rightarrow> u8 list" where
  "cons_queue s = map (\<lambda>k. cons_buf s ((unat (cons_rpos s) + k) mod 512))
     [0..<(unat (cons_wpos s) + 512 - unat (cons_rpos s)) mod 512]"

lemma unat_next_pos:
  "w < CONSBUFSIZE \<Longrightarrow> unat (if w + 1 = CONSBUFSIZE then 0 else w + 1 :: u32) = (unat w + 1) mod 512"
proof -
  assume "w < CONSBUFSIZE"
  then have u: "unat w < 512" by (simp add: CONSBUFSIZE_def word_less_nat_alt)
  then have "unat (w + 1) = unat w + 1" by (simp add: unat_word_ariths)
  then show ?thesis using u by (auto simp: CONSBUFSIZE_def word_unat_eq_iff)
qed

lemma cons_pos: "cons_ok s \<Longrightarrow> unat (cons_rpos s) < 512 \<and> unat (cons_wpos s) < 512"
  by (simp add: cons_ok_def CONSBUFSIZE_def word_less_nat_alt)

lemma cons_store_eq:
  "cons_store c s = s\<lparr>cons_buf := (cons_buf s)(unat (cons_wpos s) := word_of_int c),
     cons_wpos := (if cons_wpos s + 1 = CONSBUFSIZE then 0 else cons_wpos s + 1)\<rparr>"
  by (simp add: cons_store_def Let_def)

lemma cons_ok_store: "cons_ok s \<Longrightarrow> cons_ok (cons_store c s)"
proof -
  assume ok: "cons_ok s"
  then have "unat (cons_wpos (cons_store c s)) < 512"
    using unat_next_pos by (simp add: cons_store_eq cons_ok_def)
  then show ?thesis using ok by (simp add: cons_ok_def CONSBUFSIZE_def word_less_nat_alt)
qed

lemma length_cons_queue: "length (cons_queue s) = (unat (cons_wpos s) + 512 - unat (cons_rpos s)) mod 512"
  by (simp add: cons_queue_def)

lemma ring_grow:
  fixes r w :: nat
  assumes "r < 512" "(w + 512 - r) mod 512 < 511"
  shows "((w + 1) mod 512 + 512 - r) mod 512 = Suc ((w + 512 - r) mod 512)"
proof -
  have "((w + 1) mod 512 + 512 - r) mod 512 = ((w + 1) mod 512 + (512 - r)) mod 512" using assms(1) by simp
  also have "\<dots> = (w + 1 + (512 - r)) mod 512" by (rule mod_add_left_eq)
  also have "\<dots> = Suc (w + 512 - r) mod 512" using assms(1) by simp
  finally show ?thesis using assms(2) by (simp add: mod_Suc)
qed

lemma ring_shrink:
  fixes r w :: nat
  assumes "r < 512" "w < 512" "0 < (w + 512 - r) mod 512"
  shows "(w + 512 - (r + 1) mod 512) mod 512 = (w + 512 - r) mod 512 - 1"
proof (cases "r = 511")
  case True
  then show ?thesis using assms by (cases "w = 511") auto
next
  case False
  then have r: "(r + 1) mod 512 = r + 1" "w + 512 - r = Suc (w + 512 - (r + 1))" using assms(1) by simp_all
  then show ?thesis using assms(3) by (simp only: r mod_Suc split: if_splits) simp
qed

lemma ring_inject:
  fixes r k n :: nat
  assumes "k < n" "n < 512"
  shows "(r + k) mod 512 \<noteq> (r + n) mod 512"
proof
  assume "(r + k) mod 512 = (r + n) mod 512"
  then have "512 dvd n - k" using mod_eq_dvd_iff_nat [of "r + k" "r + n" 512] assms(1) by simp
  then show False using assms dvd_imp_le [of 512 "n - k"] by simp
qed

lemma ring_end: "r < 512 \<Longrightarrow> w < 512 \<Longrightarrow> (r + (w + 512 - r) mod 512) mod 512 = w" for r w :: nat
  by (simp add: mod_add_right_eq)

lemma cons_queue_store:
  assumes ok: "cons_ok s" and room: "length (cons_queue s) < 511"
  shows "cons_queue (cons_store c s) = cons_queue s @ [word_of_int c]"
proof -
  let ?r = "unat (cons_rpos s)" and ?w = "unat (cons_wpos s)"
  define n where "n = (?w + 512 - ?r) mod 512"
  have p: "?r < 512" "?w < 512" using cons_pos [OF ok] by auto
  have n: "n < 511" using room by (simp add: length_cons_queue n_def)
  have w: "(?r + n) mod 512 = ?w" using ring_end [OF p] by (simp add: n_def)
  have "unat (cons_wpos (cons_store c s)) = (?w + 1) mod 512"
    using unat_next_pos ok by (simp add: cons_store_eq cons_ok_def)
  then have "(unat (cons_wpos (cons_store c s)) + 512 - ?r) mod 512 = Suc n"
    using ring_grow [OF p(1), of ?w] n by (simp add: n_def)
  moreover have "cons_buf (cons_store c s) ((?r + k) mod 512) = cons_buf s ((?r + k) mod 512)" if "k < n" for k
  proof -
    have "(?r + k) mod 512 \<noteq> ?w" using ring_inject [OF that, of ?r] n w by simp
    then show ?thesis by (simp add: cons_store_eq)
  qed
  ultimately show ?thesis using w by (simp add: cons_queue_def n_def [symmetric] cons_store_eq)
qed

lemma cons_take_queue:
  assumes ok: "cons_ok s" and ne: "cons_queue s \<noteq> []"
  shows "fst (cons_take s) = uint (hd (cons_queue s))" "cons_queue (snd (cons_take s)) = tl (cons_queue s)"
    "cons_ok (snd (cons_take s))"
proof -
  let ?r = "unat (cons_rpos s)" and ?w = "unat (cons_wpos s)"
  define n where "n = (?w + 512 - ?r) mod 512"
  have p: "?r < 512" "?w < 512" using cons_pos [OF ok] by auto
  have n: "0 < n" using ne by (auto simp: cons_queue_def n_def)
  then have "cons_rpos s \<noteq> cons_wpos s" by (auto simp: n_def)
  then have t: "cons_take s = (uint (cons_buf s ?r),
      s\<lparr>cons_rpos := (if cons_rpos s + 1 = CONSBUFSIZE then 0 else cons_rpos s + 1)\<rparr>)"
    by (simp add: cons_take_def Let_def)
  have r: "unat (cons_rpos (snd (cons_take s))) = (?r + 1) mod 512"
    using unat_next_pos ok by (simp add: t cons_ok_def)
  have q: "cons_queue s = map (\<lambda>k. cons_buf s ((?r + k) mod 512)) (0 # map Suc [0..<n - 1])"
    using n by (simp add: cons_queue_def n_def [symmetric] map_Suc_upt upt_conv_Cons)
  then show "fst (cons_take s) = uint (hd (cons_queue s))" using p by (simp add: t)
  have "(?w + 512 - (?r + 1) mod 512) mod 512 = n - 1"
    using ring_shrink [OF p] n by (simp add: n_def)
  then show "cons_queue (snd (cons_take s)) = tl (cons_queue s)"
    unfolding q by (simp add: cons_queue_def r) (simp add: t mod_simps add.commute add.left_commute)
  show "cons_ok (snd (cons_take s))" using ok r by (simp add: cons_ok_def CONSBUFSIZE_def word_less_nat_alt t)
qed

interpretation consq: fifo cons_ok cons_queue "\<lambda>b. cons_store (uint b)"
  "\<lambda>s. (word_of_int (fst (cons_take s)), snd (cons_take s))" 511
  by unfold_locales (use cons_ok_store cons_queue_store cons_take_queue in auto)

text \<open>The character after the 511th unread one makes the buffer look empty.\<close>

lemma cons_queue_overrun:
  assumes ok: "cons_ok s" and full: "length (cons_queue s) = 511"
  shows "cons_queue (cons_store c s) = []"
proof -
  let ?r = "unat (cons_rpos s)" and ?w = "unat (cons_wpos s)"
  have p: "?r < 512" "?w < 512" using cons_pos [OF ok] by auto
  have "unat (cons_wpos (cons_store c s)) = (?w + 1) mod 512"
    using unat_next_pos ok by (simp add: cons_store_eq cons_ok_def)
  moreover have "(?w + 1) mod 512 = ?r"
  proof -
    have "?w = (?r + 511) mod 512" using ring_end [OF p] full by (simp add: length_cons_queue)
    then have "(?w + 1) mod 512 = ((?r + 511) mod 512 + 1) mod 512" by (rule arg_cong)
    also have "\<dots> = (?r + 511 + 1) mod 512" by (rule mod_add_left_eq)
    finally show ?thesis using p(1) by simp
  qed
  ultimately show ?thesis by (simp add: cons_queue_def)
qed

lemma serial_intr_queue:
  assumes "cons_ok s" "length (cons_queue s) + length (filter (\<lambda>b. b \<noteq> 0) (serial_rx s)) \<le> 511"
  shows "\<exists>t. cons_intr serial_proc_data s = Some t \<and> cons_ok t \<and> serial_rx t = [] \<and> kbd_rx t = kbd_rx s \<and>
    cons_queue t = cons_queue s @ filter (\<lambda>b. b \<noteq> 0) (serial_rx s)"
  using assms
proof (induction "serial_rx s" arbitrary: s)
  case Nil
  then show ?case by (simp add: cons_intr.simps [of _ s] serial_proc_data_def)
next
  case (Cons b bs)
  let ?s = "s\<lparr>serial_rx := bs\<rparr>"
  have q: "cons_queue ?s = cons_queue s" "cons_ok ?s = cons_ok s" by (simp_all add: cons_queue_def cons_ok_def)
  have d: "serial_proc_data s = (uint b, ?s)" using Cons.hyps(2) [symmetric] by (simp add: serial_proc_data_def)
  have nn: "uint b \<noteq> - 1" using uint_ge_0 [of b] by linarith
  show ?case
  proof (cases "b = 0")
    case True
    then show ?thesis using Cons.hyps(1) [of ?s] Cons.prems q d nn
      by (simp add: cons_intr.simps [of _ s] flip: Cons.hyps(2))
  next
    case False
    let ?u = "cons_store (uint b) ?s"
    have "length (cons_queue s) < 511" using Cons.prems(2) False by (simp flip: Cons.hyps(2))
    then have u: "cons_queue ?u = cons_queue s @ [b]" "cons_ok ?u"
      using cons_queue_store [of ?s "uint b"] cons_ok_store [of ?s] Cons.prems(1) q by simp_all
    have "uint b \<noteq> 0" using False by (simp add: unsigned_eq_0_iff)
    then show ?thesis using Cons.hyps(1) [of ?u] Cons.prems u d nn False
      by (simp add: cons_intr.simps [of _ s] flip: Cons.hyps(2))
  qed
qed

section \<open>The display position stays on the screen\<close>

lemma unat_crt: "unat CRT_SIZE = 2000" "unat CRT_COLS = 80"
  by (simp_all add: CRT_SIZE_def CRT_COLS_def)

lemma cga_scroll_pos:
  assumes "unat (crt_pos s) < 2080"
  shows "unat (crt_pos (cga_scroll s)) < 2000"
proof (cases "crt_pos s \<ge> CRT_SIZE")
  case True
  then have "unat (crt_pos s - CRT_COLS) = unat (crt_pos s) - 80"
    by (simp add: unat_sub word_le_nat_alt unat_crt)
  then show ?thesis using True assms by (simp add: cga_scroll_def)
next
  case False
  then show ?thesis by (simp add: cga_scroll_def word_le_nat_alt unat_crt)
qed

lemma cga_putc_with_pos:
  assumes pos: "unat (crt_pos s) < 2000"
    and space: "\<And>s. unat (crt_pos s) < 2000 \<Longrightarrow> unat (crt_pos (space s)) < 2000"
  shows "unat (crt_pos (cga_putc_with space c s)) < 2000"
proof -
  have tab: "unat (crt_pos ((space ^^ n) s)) < 2000" for n
    using pos space by (induction n) auto
  have nl: "unat (p - p mod CRT_COLS) \<le> unat p" for p :: u16
  proof -
    have "unat (p mod CRT_COLS) \<le> unat p" by (simp add: unat_mod)
    then show ?thesis by (simp add: unat_sub word_le_nat_alt)
  qed
  have "unat (crt_pos s + CRT_COLS) = unat (crt_pos s) + 80" using pos by (simp add: unat_word_ariths unat_crt)
  then have "unat (crt_pos s + CRT_COLS - (crt_pos s + CRT_COLS) mod CRT_COLS) < 2080"
    using nl [of "crt_pos s + CRT_COLS"] pos by linarith
  moreover have "unat (crt_pos s - crt_pos s mod CRT_COLS) < 2080" using nl [of "crt_pos s"] pos by linarith
  moreover have "unat (crt_pos s + 1) < 2080" using pos by (simp add: unat_word_ariths)
  moreover have "unat (crt_pos s - 1) < 2080" if "crt_pos s > 0"
    using that pos by (simp add: unat_sub word_less_nat_alt word_le_nat_alt)
  moreover have "unat (crt_pos ((space ^^ 5) s)) < 2080" using tab [of 5] by simp
  ultimately show ?thesis
    unfolding cga_putc_with_def Let_def using pos by (intro cga_scroll_pos) (auto simp del: funpow.simps)
qed

lemma cons_putc_pos:
  assumes "unat (crt_pos s) < 2000"
  shows "unat (crt_pos (cons_putc c s)) < 2000"
proof -
  have "unat (crt_pos (put_space s)) < 2000" if "unat (crt_pos s) < 2000" for s
    unfolding put_space_def by (rule cga_putc_with_pos) (use that in \<open>simp_all add: lpt_putc_def serial_putc_def\<close>)
  then show ?thesis unfolding cons_putc_def cga_putc_def
    by (intro cga_putc_with_pos) (use assms in \<open>simp_all add: lpt_putc_def serial_putc_def\<close>)
qed

end
