(* ===== verification/Kstate.thy ===== *)
theory Kstate
  imports Memory Spinlock Console
begin

text \<open>
  The data structures of the kernel as records with the fields of the C structs, and the
  kernel state that the operations of the later theories pass along. A pointer into a
  kernel array is the index of its element: a \<^verbatim>\<open>struct PageInfo *\<close> is a physical page
  number, a \<^verbatim>\<open>struct Env *\<close> an index into \<^verbatim>\<open>envs\<close>; \<^verbatim>\<open>NULL\<close> is \<^term>\<open>None\<close>. Page
  directories and page table entries are reached through kernel virtual addresses, as in
  the source, and live in physical memory.
\<close>

section \<open>Physical pages\<close>

record pageinfo =
  pp_link :: "u32 option"
  pp_ref :: u16

section \<open>Saved processor state\<close>

record pushregs =
  reg_edi :: u32
  reg_esi :: u32
  reg_ebp :: u32
  reg_oesp :: u32
  reg_ebx :: u32
  reg_edx :: u32
  reg_ecx :: u32
  reg_eax :: u32

record trapframe =
  tf_regs :: pushregs
  tf_es :: u16
  tf_padding1 :: u16
  tf_ds :: u16
  tf_padding2 :: u16
  tf_trapno :: u32
  tf_err :: u32
  tf_eip :: u32
  tf_cs :: u16
  tf_padding3 :: u16
  tf_eflags :: u32
  tf_esp :: u32
  tf_ss :: u16
  tf_padding4 :: u16

record utrapframe =
  utf_fault_va :: u32
  utf_err :: u32
  utf_regs :: pushregs
  utf_eip :: u32
  utf_eflags :: u32
  utf_esp :: u32

definition zero_regs :: pushregs where
  "zero_regs = \<lparr>reg_edi = 0, reg_esi = 0, reg_ebp = 0, reg_oesp = 0,
     reg_ebx = 0, reg_edx = 0, reg_ecx = 0, reg_eax = 0\<rparr>"

definition zero_tf :: trapframe where
  "zero_tf = \<lparr>tf_regs = zero_regs, tf_es = 0, tf_padding1 = 0, tf_ds = 0, tf_padding2 = 0,
     tf_trapno = 0, tf_err = 0, tf_eip = 0, tf_cs = 0, tf_padding3 = 0, tf_eflags = 0,
     tf_esp = 0, tf_ss = 0, tf_padding4 = 0\<rparr>"

section \<open>Environments\<close>

definition NENV :: nat where [layout_defs]: "NENV = 1024"

text \<open>\<^verbatim>\<open>ENVX(envid)\<close>: the index part of an environment id.\<close>

definition ENVX :: "u32 \<Rightarrow> nat" where
  "ENVX envid = unat (envid AND 1023)"

datatype env_status_t = ENV_FREE | ENV_DYING | ENV_RUNNABLE | ENV_RUNNING | ENV_NOT_RUNNABLE

datatype env_type_t = ENV_TYPE_USER | ENV_TYPE_FS | ENV_TYPE_NS

record env =
  env_tf :: trapframe
  env_link :: "nat option"
  env_id :: u32
  env_parent_id :: u32
  env_type :: env_type_t
  env_status :: env_status_t
  env_runs :: u32
  env_cpunum :: nat
  env_priority :: int
  env_pgdir :: u32
  env_pgfault_upcall :: u32
  env_ipc_recving :: bool
  env_ipc_dstva :: u32
  env_ipc_value :: u32
  env_ipc_from :: u32
  env_ipc_perm :: u32

definition zero_env :: env where
  "zero_env = \<lparr>env_tf = zero_tf, env_link = None, env_id = 0, env_parent_id = 0,
     env_type = ENV_TYPE_USER, env_status = ENV_FREE, env_runs = 0, env_cpunum = 0, env_priority = 0,
     env_pgdir = 0, env_pgfault_upcall = 0, env_ipc_recving = False, env_ipc_dstva = 0,
     env_ipc_value = 0, env_ipc_from = 0, env_ipc_perm = 0\<rparr>"

text \<open>An \<^verbatim>\<open>envid_t\<close> is a signed 32-bit number; \<open>envid_int\<close> is the value C compares.\<close>

definition envid_int :: "u32 \<Rightarrow> int" where
  "envid_int e = sint e"

section \<open>CPUs\<close>

datatype cpu_status_t = CPU_UNUSED | CPU_STARTED | CPU_HALTED

record cpuinfo =
  cpu_id :: u8
  cpu_status :: cpu_status_t
  cpu_env :: "nat option"
  ts_esp0 :: u32
  ts_ss0 :: u16

section \<open>Devices\<close>

record tx_desc =
  tx_addr_lower :: u32
  tx_addr_upper :: u32
  tx_length :: u16
  tx_cso :: u8
  tx_cmd :: u8
  tx_status :: u8
  tx_css :: u8
  tx_special :: u16

record rx_desc =
  rx_addr_lower :: u32
  rx_addr_upper :: u32
  rx_length :: u16
  rx_checksum :: u16
  rx_status :: u8
  rx_errors :: u8
  rx_special :: u16

text \<open>The network card: its register file by register index, and the two descriptor rings.\<close>

record e1000 =
  e1000_io :: "u32 \<Rightarrow> u32"
  tx_desc_list :: "nat \<Rightarrow> tx_desc"
  rx_desc_list :: "nat \<Rightarrow> rx_desc"

section \<open>The kernel state\<close>

record kstate =
  pmem :: mem
  npages :: u32
  npages_basemem :: u32
  nextfree :: u32
  kern_pgdir :: u32
  pages_va :: u32
  envs_va :: u32
  pages :: "u32 \<Rightarrow> pageinfo"
  page_free_list :: "u32 option"
  mmio_base :: u32
  user_mem_check_addr :: u32
  cr3 :: u32
  cr2 :: u32
  invlpgs :: "u32 list"
  envs :: "nat \<Rightarrow> env"
  env_free_list :: "nat option"
  cpus :: "nat \<Rightarrow> cpuinfo"
  this_cpu :: nat
  bootcpu :: nat
  kernel_lock :: spinlock
  panicstr :: bool
  ticks :: u32
  cons :: console
  nic :: e1000

text \<open>\<^verbatim>\<open>#define curenv (thiscpu->cpu_env)\<close>, reading and writing.\<close>

definition curenv :: "kstate \<Rightarrow> nat option" where
  "curenv s = cpu_env (cpus s (this_cpu s))"

definition set_curenv :: "nat option \<Rightarrow> kstate \<Rightarrow> kstate" where
  "set_curenv e s = s\<lparr>cpus := (cpus s)(this_cpu s := (cpus s (this_cpu s))\<lparr>cpu_env := e\<rparr>)\<rparr>"

definition upd_env :: "nat \<Rightarrow> (env \<Rightarrow> env) \<Rightarrow> kstate \<Rightarrow> kstate" where
  "upd_env i f s = s\<lparr>envs := (envs s)(i := f (envs s i))\<rparr>"

definition upd_page :: "u32 \<Rightarrow> (pageinfo \<Rightarrow> pageinfo) \<Rightarrow> kstate \<Rightarrow> kstate" where
  "upd_page p f s = s\<lparr>pages := (pages s)(p := f (pages s p))\<rparr>"

text \<open>
  Kernel accesses through a kernel virtual address. \<^verbatim>\<open>mem_init\<close> maps
  \<open>[KERNBASE, 2\<^sup>3\<^sup>2)\<close> to physical memory from 0 in every address space, so the physical
  address is the distance from \<^const>\<open>KERNBASE\<close>.
\<close>

definition kld32 :: "kstate \<Rightarrow> u32 \<Rightarrow> u32" where
  "kld32 s kva = ld32 (pmem s) (kva - KERNBASE)"

definition kst32 :: "u32 \<Rightarrow> u32 \<Rightarrow> kstate \<Rightarrow> kstate" where
  "kst32 kva v s = s\<lparr>pmem := st32 (pmem s) (kva - KERNBASE) v\<rparr>"

definition kld8 :: "kstate \<Rightarrow> u32 \<Rightarrow> u8" where
  "kld8 s kva = pmem s (kva - KERNBASE)"

definition kmemset :: "u32 \<Rightarrow> u8 \<Rightarrow> u32 \<Rightarrow> kstate \<Rightarrow> kstate" where
  "kmemset kva v n s = s\<lparr>pmem := mem_set (pmem s) (kva - KERNBASE) v n\<rparr>"

definition kmemcpy :: "u32 \<Rightarrow> u32 \<Rightarrow> u32 \<Rightarrow> kstate \<Rightarrow> kstate" where
  "kmemcpy dst src n s = s\<lparr>pmem := mem_copy (pmem s) (dst - KERNBASE) (src - KERNBASE) n\<rparr>"

text \<open>Loading the page directory base register, and the big kernel lock.\<close>

definition lcr3 :: "u32 \<Rightarrow> kstate \<Rightarrow> kstate" where
  "lcr3 pa s = s\<lparr>cr3 := pa\<rparr>"

definition lock_kernel :: "kstate \<Rightarrow> (unit, kstate) kres" where
  "lock_kernel s = (case spin_lock (this_cpu s) (kernel_lock s) of
       Ret _ lk \<Rightarrow> Ret () (s\<lparr>kernel_lock := lk\<rparr>)
     | Panic m \<Rightarrow> Panic m
     | Leave c lk \<Rightarrow> Leave c (s\<lparr>kernel_lock := lk\<rparr>))"

definition unlock_kernel :: "kstate \<Rightarrow> (unit, kstate) kres" where
  "unlock_kernel s = (case spin_unlock (this_cpu s) (kernel_lock s) of
       Ret _ lk \<Rightarrow> Ret () (s\<lparr>kernel_lock := lk\<rparr>)
     | Panic m \<Rightarrow> Panic m
     | Leave c lk \<Rightarrow> Leave c (s\<lparr>kernel_lock := lk\<rparr>))"

section \<open>Accesses through the page tables\<close>

text \<open>
  What the paging hardware does with a virtual address that the kernel uses to reach user
  memory: a two-level walk from \<^verbatim>\<open>%cr3\<close>. The kernel runs with \<^verbatim>\<open>CR0_WP\<close> set, so a write
  needs \<^const>\<open>PTE_W\<close> on both levels. A failed translation is a page fault in kernel mode,
  on which \<^verbatim>\<open>page_fault_handler\<close> panics.
\<close>

definition mmu :: "kstate \<Rightarrow> bool \<Rightarrow> u32 \<Rightarrow> u32 option" where
  "mmu s wr va =
     (let pde = ld32 (pmem s) (PTE_ADDR (cr3 s) + 4 * PDX va) in
      if pde AND PTE_P = 0 \<or> wr \<and> pde AND PTE_W = 0 then None
      else let e = ld32 (pmem s) (PTE_ADDR pde + 4 * PTX va) in
        if e AND PTE_P = 0 \<or> wr \<and> e AND PTE_W = 0 then None
        else Some (PTE_ADDR e OR PGOFF va))"

definition vld8 :: "u32 \<Rightarrow> kstate \<Rightarrow> (u8, kstate) kres" where
  "vld8 va s = (case mmu s False va of
       None \<Rightarrow> Panic ''page fault in kernel mode'' | Some pa \<Rightarrow> Ret (pmem s pa) s)"

definition vst8 :: "u32 \<Rightarrow> u8 \<Rightarrow> kstate \<Rightarrow> (unit, kstate) kres" where
  "vst8 va b s = (case mmu s True va of
       None \<Rightarrow> Panic ''page fault in kernel mode''
     | Some pa \<Rightarrow> Ret () (s\<lparr>pmem := (pmem s)(pa := b)\<rparr>))"

fun vread :: "u32 \<Rightarrow> nat \<Rightarrow> kstate \<Rightarrow> (u8 list, kstate) kres" where
  "vread va 0 s = Ret [] s"
| "vread va (Suc n) s = bindK (vld8 va s) (\<lambda>b s. bindK (vread (va + 1) n s) (\<lambda>bs s. Ret (b # bs) s))"

fun vwrite :: "u32 \<Rightarrow> u8 list \<Rightarrow> kstate \<Rightarrow> (unit, kstate) kres" where
  "vwrite va [] s = Ret () s"
| "vwrite va (b # bs) s = bindK (vst8 va b s) (\<lambda>_ s. vwrite (va + 1) bs s)"

text \<open>The bytes of little-endian words, and words from bytes.\<close>

definition bytes32 :: "u32 \<Rightarrow> u8 list" where
  "bytes32 w = [ucast w, ucast (drop_bit 8 w), ucast (drop_bit 16 w), ucast (drop_bit 24 w)]"

definition word32 :: "u8 list \<Rightarrow> nat \<Rightarrow> u32" where
  "word32 bs i = ucast (bs ! i) OR push_bit 8 (ucast (bs ! (i + 1)))
     OR push_bit 16 (ucast (bs ! (i + 2))) OR push_bit 24 (ucast (bs ! (i + 3)))"

definition word16 :: "u8 list \<Rightarrow> nat \<Rightarrow> u16" where
  "word16 bs i = ucast (bs ! i) OR push_bit 8 (ucast (bs ! (i + 1)))"

lemma length_bytes32 [simp]: "length (bytes32 w) = 4"
  by (simp add: bytes32_def)

end
