(* ===== verification/Pmap.thy ===== *)
theory Pmap
  imports Kstate
begin

text \<open>
  Physical page allocation and two-level page tables: the functions of \<^verbatim>\<open>kern/pmap.c\<close>
  and the inline address conversions of \<^verbatim>\<open>kern/pmap.h\<close>. The boot-time routines take the
  addresses the linker and the hardware fix as arguments: the end of the kernel image, the
  CMOS contents and the per-CPU stacks.
\<close>

section \<open>Address conversions\<close>

definition PADDR :: "u32 \<Rightarrow> kstate \<Rightarrow> (u32, kstate) kres" where
  "PADDR kva s =
     (if kva < KERNBASE then Panic ''PADDR called with invalid kva'' else Ret (kva - KERNBASE) s)"

definition KADDR :: "u32 \<Rightarrow> kstate \<Rightarrow> (u32, kstate) kres" where
  "KADDR pa s =
     (if PGNUM pa \<ge> npages s then Panic ''KADDR called with invalid pa'' else Ret (pa + KERNBASE) s)"

definition page2pa :: "u32 \<Rightarrow> u32" where
  "page2pa pp = push_bit 12 pp"

definition pa2page :: "u32 \<Rightarrow> kstate \<Rightarrow> (u32, kstate) kres" where
  "pa2page pa s =
     (if PGNUM pa \<ge> npages s then Panic ''pa2page called with invalid pa'' else Ret (PGNUM pa) s)"

definition page2kva :: "u32 \<Rightarrow> kstate \<Rightarrow> (u32, kstate) kres" where
  "page2kva pp s = KADDR (page2pa pp) s"

section \<open>Detecting memory and boot-time allocation\<close>

definition nvram_read :: "(u32 \<Rightarrow> u8) \<Rightarrow> u32 \<Rightarrow> u32" where
  "nvram_read cmos r = ucast (cmos r) OR push_bit 8 (ucast (cmos (r + 1)))"

definition i386_detect_memory :: "(u32 \<Rightarrow> u8) \<Rightarrow> kstate \<Rightarrow> kstate" where
  "i386_detect_memory cmos s =
     (let basemem = nvram_read cmos 0x15;
          extmem = nvram_read cmos 0x17;
          ext16mem = nvram_read cmos 0x34 * 64;
          totalmem = (if ext16mem \<noteq> 0 then 16 * 1024 + ext16mem
                      else if extmem \<noteq> 0 then 1 * 1024 + extmem
                      else basemem)
      in s\<lparr>npages := totalmem div (PGSIZE div 1024),
           npages_basemem := basemem div (PGSIZE div 1024)\<rparr>)"

definition boot_alloc :: "u32 \<Rightarrow> u32 \<Rightarrow> kstate \<Rightarrow> (u32, kstate) kres" where
  "boot_alloc kend n s =
     (let s = (if nextfree s = 0 then s\<lparr>nextfree := ROUNDUP kend PGSIZE\<rparr> else s) in
      bindK (KADDR (npages s * PGSIZE - 1) s) (\<lambda>max_va s.
        if nextfree s + n > max_va
        then Panic ''boot_alloc: No more memory during initialization.''
        else if n > 0
        then let nf = ROUNDUP (nextfree s + n) PGSIZE in Ret nf (s\<lparr>nextfree := nf\<rparr>)
        else Ret (nextfree s) s))"

section \<open>Tracking of physical pages\<close>

definition page_init_step :: "u32 \<Rightarrow> u32 \<Rightarrow> kstate \<Rightarrow> kstate" where
  "page_init_step first_free i s =
     (let s = upd_page i (\<lambda>p. p\<lparr>pp_ref := 0\<rparr>) s in
      if i = 0 then upd_page i (\<lambda>p. p\<lparr>pp_link := None\<rparr>) s
      else if i \<ge> IOPHYSMEM div PGSIZE \<and> i < EXTPHYSMEM div PGSIZE
        then upd_page i (\<lambda>p. p\<lparr>pp_link := None\<rparr>) s
      else if i \<ge> EXTPHYSMEM div PGSIZE \<and> i < first_free div PGSIZE
        then upd_page i (\<lambda>p. p\<lparr>pp_link := None\<rparr>) s
      else if i = MPENTRY_PADDR div PGSIZE
        then upd_page i (\<lambda>p. p\<lparr>pp_link := None\<rparr>) s
      else (upd_page i (\<lambda>p. p\<lparr>pp_link := page_free_list s\<rparr>) s)\<lparr>page_free_list := Some i\<rparr>)"

definition page_init :: "u32 \<Rightarrow> kstate \<Rightarrow> (unit, kstate) kres" where
  "page_init kend s =
     bindK (boot_alloc kend 0 s) (\<lambda>va s.
     bindK (PADDR va s) (\<lambda>first_free s.
     bindK (PADDR (kern_pgdir s) s) (\<lambda>_ s.   \<comment> \<open>for a debugging message\<close>
       Ret () (fold (\<lambda>i. page_init_step first_free (of_nat i)) [0..<unat (npages s)] s))))"

text \<open>The flag \<open>zero\<close> stands for \<^verbatim>\<open>alloc_flags & ALLOC_ZERO\<close>, the only flag there is.\<close>

definition page_alloc :: "bool \<Rightarrow> kstate \<Rightarrow> (u32 option, kstate) kres" where
  "page_alloc zero s =
     (case page_free_list s of
        None \<Rightarrow> Ret None s
      | Some newPage \<Rightarrow>
          bindK (if zero then bindK (page2kva newPage s) (\<lambda>kva s. Ret () (kmemset kva 0 PGSIZE s))
                 else Ret () s) (\<lambda>_ s.
            Ret (Some newPage)
              (upd_page newPage (\<lambda>p. p\<lparr>pp_link := None\<rparr>)
                 (s\<lparr>page_free_list := pp_link (pages s newPage)\<rparr>))))"

definition page_free :: "u32 \<Rightarrow> kstate \<Rightarrow> (unit, kstate) kres" where
  "page_free pp s =
     (if pp_ref (pages s pp) \<noteq> 0 then Panic ''page_free: pp->pp_ref is nonzero.''
      else if pp_link (pages s pp) \<noteq> None then Panic ''page_fee: pp->pp_link is not NULL.''
      else Ret () ((upd_page pp (\<lambda>p. p\<lparr>pp_link := page_free_list s\<rparr>) s)\<lparr>page_free_list := Some pp\<rparr>))"

definition page_decref :: "u32 \<Rightarrow> kstate \<Rightarrow> (unit, kstate) kres" where
  "page_decref pp s =
     (let s = upd_page pp (\<lambda>p. p\<lparr>pp_ref := pp_ref p - 1\<rparr>) s in
      if pp_ref (pages s pp) = 0 then page_free pp s else Ret () s)"

section \<open>Page tables\<close>

definition pgdir_walk :: "u32 \<Rightarrow> u32 \<Rightarrow> bool \<Rightarrow> kstate \<Rightarrow> (u32 option, kstate) kres" where
  "pgdir_walk pgdir va create s =
     (let dir_entry_p = pgdir + 4 * PDX va in
      bindK
        (if kld32 s dir_entry_p AND PTE_P \<noteq> PTE_P then
           if \<not> create then Ret False s
           else bindK (page_alloc True s) (\<lambda>newPage s.
             case newPage of
               None \<Rightarrow> Ret False s
             | Some np \<Rightarrow>
                 bindK (assertK (pp_ref (pages s np) = 0) ''newPage->pp_ref == 0'' s) (\<lambda>_ s.
                   let s = upd_page np (\<lambda>p. p\<lparr>pp_ref := pp_ref p + 1\<rparr>) s in
                   Ret True (kst32 (pgdir + 4 * PDX va)
                     (PTE_ADDR (page2pa np) OR PTE_U OR PTE_W OR PTE_P) s)))
         else Ret True s)
        (\<lambda>found s.
           if \<not> found then Ret None s
           else bindK (page2kva (PGNUM (kld32 s dir_entry_p)) s) (\<lambda>pte_start_p s.
             Ret (Some (pte_start_p + 4 * PTX va)) s)))"

definition boot_map_step :: "u32 \<Rightarrow> u32 \<Rightarrow> u32 \<Rightarrow> u32 \<Rightarrow> nat \<Rightarrow> kstate \<Rightarrow> (unit, kstate) kres" where
  "boot_map_step pgdir va pa perm i s =
     bindK (pgdir_walk pgdir (va + of_nat i * PGSIZE) True s) (\<lambda>pt_entry s.
       case pt_entry of
         None \<Rightarrow> Panic ''boot_map_region: Out of memory during initialization.''
       | Some pte \<Rightarrow> Ret () (kst32 pte (PTE_ADDR (pa + of_nat i * PGSIZE) OR perm OR PTE_P) s))"

definition boot_map_region :: "u32 \<Rightarrow> u32 \<Rightarrow> u32 \<Rightarrow> u32 \<Rightarrow> u32 \<Rightarrow> kstate \<Rightarrow> (unit, kstate) kres" where
  "boot_map_region pgdir va sz pa perm s =
     bindK (assertK (sz mod PGSIZE = 0) ''size'' s) (\<lambda>_ s.
     bindK (assertK (va mod PGSIZE = 0) ''va'' s) (\<lambda>_ s.
     bindK (assertK (pa mod PGSIZE = 0) ''pa'' s) (\<lambda>_ s.
       foldK (boot_map_step pgdir va pa perm) [0..<unat (sz div PGSIZE)] s)))"

definition page_lookup :: "u32 \<Rightarrow> u32 \<Rightarrow> kstate \<Rightarrow> ((u32 \<times> u32) option, kstate) kres" where
  \<comment> \<open>the page and, as the second component, the address stored through \<^verbatim>\<open>pte_store\<close>\<close>
  "page_lookup pgdir va s =
     bindK (pgdir_walk pgdir va False s) (\<lambda>pt_entry s.
       case pt_entry of
         None \<Rightarrow> Ret None s
       | Some pte \<Rightarrow>
           if kld32 s pte AND PTE_P = 0 then Ret None s
           else bindK (pa2page (PTE_ADDR (kld32 s pte) OR PGOFF va) s) (\<lambda>page_p s.
             Ret (Some (page_p, pte)) s))"

definition invlpg :: "u32 \<Rightarrow> kstate \<Rightarrow> kstate" where
  "invlpg va s = s\<lparr>invlpgs := va # invlpgs s\<rparr>"

definition tlb_invalidate :: "u32 \<Rightarrow> u32 \<Rightarrow> kstate \<Rightarrow> kstate" where
  "tlb_invalidate pgdir va s =
     (case curenv s of
        None \<Rightarrow> invlpg va s
      | Some e \<Rightarrow> if env_pgdir (envs s e) = pgdir then invlpg va s else s)"

definition page_remove :: "u32 \<Rightarrow> u32 \<Rightarrow> kstate \<Rightarrow> (unit, kstate) kres" where
  "page_remove pgdir va s =
     bindK (page_lookup pgdir va s) (\<lambda>r s.
       case r of
         None \<Rightarrow> Ret () s
       | Some (page_p, pte) \<Rightarrow>
           bindK (page_decref page_p s) (\<lambda>_ s.
             Ret () (tlb_invalidate pgdir va (kst32 pte 0 s))))"

definition page_insert :: "u32 \<Rightarrow> u32 \<Rightarrow> u32 \<Rightarrow> u32 \<Rightarrow> kstate \<Rightarrow> (int, kstate) kres" where
  "page_insert pgdir pp va perm s =
     bindK (pgdir_walk pgdir va True s) (\<lambda>pt_entry s.
       case pt_entry of
         None \<Rightarrow> Ret (- E_NO_MEM) s
       | Some pte \<Rightarrow>
           bindK
             (let s = upd_page pp (\<lambda>p. p\<lparr>pp_ref := pp_ref p + 1\<rparr>) s in
              if kld32 s pte AND PTE_P \<noteq> 0 then
                bindK (page_remove pgdir va s) (\<lambda>_ s.
                  if kld32 s pte AND PTE_P \<noteq> 0
                  then Panic ''page_insert: A page entry that just has been removed still exists.''
                  else Ret () s)
              else Ret () s)
             (\<lambda>_ s. Ret 0 (kst32 pte (PTE_ADDR (page2pa pp) OR perm OR PTE_P) s)))"

definition mmio_map_region :: "u32 \<Rightarrow> u32 \<Rightarrow> kstate \<Rightarrow> (u32, kstate) kres" where
  "mmio_map_region pa sz s =
     (let base = mmio_base s in
      bindK (assertK (base mod PGSIZE = 0) ''base'' s) (\<lambda>_ s.
      bindK (assertK (pa mod PGSIZE = 0) ''pa'' s) (\<lambda>_ s.
        if base + sz \<ge> MMIOLIM
        then Panic ''mmio_map_region: We overfloed MMIO mapped region during initial page allocation.''
        else bindK (boot_map_region (kern_pgdir s) base (ROUNDUP sz PGSIZE) pa
                      (PTE_PCD OR PTE_PWT OR PTE_W OR PTE_P) s) (\<lambda>_ s.
          Ret base (s\<lparr>mmio_base := ROUNDUP (base + sz) PGSIZE\<rparr>)))))"

text \<open>The two-level translation, as the self-tests of \<^verbatim>\<open>kern/pmap.c\<close> compute it.\<close>

definition check_va2pa :: "u32 \<Rightarrow> u32 \<Rightarrow> kstate \<Rightarrow> (u32, kstate) kres" where
  "check_va2pa pgdir va s =
     (let pde = kld32 s (pgdir + 4 * PDX va) in
      if pde AND PTE_P = 0 then Ret (- 1) s
      else bindK (KADDR (PTE_ADDR pde) s) (\<lambda>p s.
        let pte = kld32 s (p + 4 * PTX va) in
        if pte AND PTE_P = 0 then Ret (- 1) s else Ret (PTE_ADDR pte) s))"

section \<open>Access checks\<close>

text \<open>
  The loop of \<^verbatim>\<open>user_mem_check\<close> from \<open>addr\<close>; the guard against \<^const>\<open>ULIM\<close> bounds it.
\<close>

function user_mem_loop :: "u32 \<Rightarrow> u32 \<Rightarrow> u32 \<Rightarrow> u32 \<Rightarrow> u32 \<Rightarrow> kstate \<Rightarrow> (int, kstate) kres" where
  "user_mem_loop pgdir va len perm addr s =
     (if \<not> addr < va + len then Ret 0 s
      else if addr \<ge> ULIM
      then Ret (- E_FAULT) (s\<lparr>user_mem_check_addr := MAX_u32 ULIM va\<rparr>)
      else case pgdir_walk pgdir addr False s of
        Panic m \<Rightarrow> Panic m
      | Leave c t \<Rightarrow> Leave c t
      | Ret None t \<Rightarrow>
          Ret (- E_FAULT) (t\<lparr>user_mem_check_addr := MAX_u32 (ROUNDDOWN addr PGSIZE) va\<rparr>)
      | Ret (Some pte) t \<Rightarrow>
          if kld32 t pte AND (perm OR PTE_P) \<noteq> perm OR PTE_P
          then Ret (- E_FAULT) (t\<lparr>user_mem_check_addr := MAX_u32 (ROUNDDOWN addr PGSIZE) va\<rparr>)
          else user_mem_loop pgdir va len perm (addr + PGSIZE) t)"
  by pat_completeness auto
termination
proof (relation "measure (\<lambda>(pgdir, va, len, perm, addr, s). 2 ^ 32 - unat addr)", simp, clarsimp)
  fix addr :: u32
  assume "\<not> ULIM \<le> addr"
  then have "unat addr < 0xef800000" by (simp add: layout_values word_le_nat_alt)
  moreover from this have "unat (addr + PGSIZE) = unat addr + 4096"
    by (simp add: PGSIZE_def unat_word_ariths)
  ultimately show "4294967296 - unat (addr + PGSIZE) < 4294967296 - unat addr" by simp
qed

definition user_mem_check :: "nat \<Rightarrow> u32 \<Rightarrow> u32 \<Rightarrow> u32 \<Rightarrow> kstate \<Rightarrow> (int, kstate) kres" where
  "user_mem_check e va len perm s = user_mem_loop (env_pgdir (envs s e)) va len perm va s"

section \<open>Setting up the kernel's memory\<close>

text \<open>
  The part of \<^verbatim>\<open>mem_init\<close> that carves the kernel's data structures out of boot memory:
  the page directory with its recursive slot, the \<^verbatim>\<open>pages\<close> array and the \<^verbatim>\<open>envs\<close> array.
  Both arrays are cleared; the model keeps them as functions next to the address the source
  gives them.
\<close>

definition mem_init_data :: "(u32 \<Rightarrow> u8) \<Rightarrow> u32 \<Rightarrow> kstate \<Rightarrow> (unit, kstate) kres" where
  "mem_init_data cmos kend s =
     (let s = i386_detect_memory cmos s in
      bindK (boot_alloc kend 0 s) (\<lambda>pgdir s.
      let s = s\<lparr>kern_pgdir := pgdir\<rparr> in
      bindK (boot_alloc kend PGSIZE s) (\<lambda>_ s.
      let s = kmemset (kern_pgdir s) 0 PGSIZE s in
      bindK (PADDR (kern_pgdir s) s) (\<lambda>pa s.
      let s = kst32 (kern_pgdir s + 4 * PDX UVPT) (pa OR PTE_U OR PTE_P) s in
      bindK (boot_alloc kend 0 s) (\<lambda>pages_p s.
      let s = s\<lparr>pages_va := pages_p\<rparr> in
      bindK (boot_alloc kend (npages s * 8) s) (\<lambda>_ s.
      let s = s\<lparr>pages := (\<lambda>i. if i < npages s then \<lparr>pp_link = None, pp_ref = 0\<rparr> else pages s i)\<rparr> in
      bindK (boot_alloc kend 0 s) (\<lambda>envs_p s.
      let s = s\<lparr>envs_va := envs_p\<rparr> in
      bindK (boot_alloc kend (of_nat NENV * 128) s) (\<lambda>_ s.
      let s = s\<lparr>envs := (\<lambda>i. if i < NENV then zero_env else envs s i)\<rparr> in
      page_init kend s))))))))"

definition mem_init_mp_step :: "(nat \<Rightarrow> u32) \<Rightarrow> nat \<Rightarrow> kstate \<Rightarrow> (unit, kstate) kres" where
  "mem_init_mp_step percpu_kstacks i s =
     bindK (PADDR (percpu_kstacks i) s) (\<lambda>pa s.
       boot_map_region (kern_pgdir s) (KSTACKTOP - of_nat i * (KSTKSIZE + KSTKGAP) - KSTKSIZE)
         KSTKSIZE pa (PTE_W OR PTE_P) s)"

definition NCPU :: nat where "NCPU = 8"

definition mem_init_mp :: "(nat \<Rightarrow> u32) \<Rightarrow> kstate \<Rightarrow> (unit, kstate) kres" where
  "mem_init_mp percpu_kstacks s = foldK (mem_init_mp_step percpu_kstacks) [0..<NCPU] s"

text \<open>The mappings of \<^verbatim>\<open>mem_init\<close>, up to loading \<^verbatim>\<open>%cr3\<close>.\<close>

definition mem_init_maps :: "(nat \<Rightarrow> u32) \<Rightarrow> kstate \<Rightarrow> (unit, kstate) kres" where
  "mem_init_maps percpu_kstacks s =
     bindK (PADDR (pages_va s) s) (\<lambda>pa s.
     bindK (boot_map_region (kern_pgdir s) UPAGES (ROUNDUP (npages s * 8) PGSIZE) pa (PTE_U OR PTE_P) s) (\<lambda>_ s.
     bindK (PADDR (envs_va s) s) (\<lambda>pa s.
     bindK (boot_map_region (kern_pgdir s) UENVS (ROUNDUP (of_nat NENV * 128) PGSIZE) pa (PTE_U OR PTE_P) s) (\<lambda>_ s.
     bindK (boot_map_region (kern_pgdir s) KERNBASE (0xFFFFFFFF - KERNBASE + 1) 0 (PTE_W OR PTE_P) s) (\<lambda>_ s.
     bindK (mem_init_mp percpu_kstacks s) (\<lambda>_ s.
     bindK (PADDR (kern_pgdir s) s) (\<lambda>pa s.
       Ret () (lcr3 pa s))))))))"

definition mem_init :: "(u32 \<Rightarrow> u8) \<Rightarrow> u32 \<Rightarrow> (nat \<Rightarrow> u32) \<Rightarrow> kstate \<Rightarrow> (unit, kstate) kres" where
  "mem_init cmos kend percpu_kstacks s =
     bindK (mem_init_data cmos kend s) (\<lambda>_ s. mem_init_maps percpu_kstacks s)"

end
