(* ===== verification/Freelist.thy ===== *)
theory Freelist
  imports Pmap
begin

text \<open>
  Free lists. The kernel keeps free pages and free environments on intrusive singly
  linked lists; \<open>chain\<close> reads such a list off the link fields. The locale \<open>allocator\<close>
  states what a component may expect of an allocator whatever its representation:
  allocation hands out an available resource and makes it unavailable, freeing is the
  inverse. The physical page allocator is its first interpretation.
\<close>

section \<open>Intrusive lists\<close>

fun chain :: "('i \<Rightarrow> 'i option) \<Rightarrow> 'i option \<Rightarrow> 'i list \<Rightarrow> bool" where
  "chain nxt h [] = (h = None)"
| "chain nxt h (x # xs) = (h = Some x \<and> chain nxt (nxt x) xs)"

lemma chain_unique: "chain nxt h xs \<Longrightarrow> chain nxt h ys \<Longrightarrow> xs = ys"
proof (induction xs arbitrary: h ys)
  case Nil
  then show ?case by (cases ys) auto
next
  case (Cons x xs)
  then show ?case by (cases ys) auto
qed

lemma chain_cong: "(\<And>x. x \<in> set xs \<Longrightarrow> f x = g x) \<Longrightarrow> chain f h xs = chain g h xs"
  by (induction xs arbitrary: h) auto

lemma chain_None [simp]: "chain nxt None xs \<longleftrightarrow> xs = []"
  by (cases xs) auto

lemma chain_Some: "chain nxt (Some x) xs \<longleftrightarrow> (\<exists>ys. xs = x # ys \<and> chain nxt (nxt x) ys)"
  by (cases xs) auto

text \<open>Only the last element of a chain has no successor.\<close>

lemma chain_link_last:
  assumes "chain nxt h xs" "distinct xs" "x \<in> set xs"
  shows "nxt x = None \<longleftrightarrow> x = last xs"
  using assms
proof (induction xs arbitrary: h)
  case (Cons y ys)
  then show ?case by (cases ys) auto
qed simp

section \<open>The allocator interface\<close>

locale allocator =
  fixes inv :: "'s \<Rightarrow> bool"
    and avail :: "'s \<Rightarrow> 'i set"
    and alloc :: "'s \<Rightarrow> ('i option, 's) kres"
    and release :: "'i \<Rightarrow> 's \<Rightarrow> (unit, 's) kres"
    and idle :: "'i \<Rightarrow> 's \<Rightarrow> bool"
  assumes finite_avail: "inv s \<Longrightarrow> finite (avail s)"
    and alloc_empty: "inv s \<Longrightarrow> avail s = {} \<Longrightarrow> alloc s = Ret None s"
    and alloc_some: "inv s \<Longrightarrow> avail s \<noteq> {} \<Longrightarrow>
      \<exists>i t. alloc s = Ret (Some i) t \<and> inv t \<and> i \<in> avail s \<and> avail t = avail s - {i} \<and> idle i t"
    and release_ok: "inv s \<Longrightarrow> idle i s \<Longrightarrow> i \<notin> avail s \<Longrightarrow>
      \<exists>t. release i s = Ret () t \<and> inv t \<and> avail t = insert i (avail s)"
begin

text \<open>Allocating \<open>n\<close> resources one after the other, stopping at the first failure.\<close>

primrec allocs :: "nat \<Rightarrow> 's \<Rightarrow> ('i list, 's) kres" where
  "allocs 0 s = Ret [] s"
| "allocs (Suc n) s = bindK (alloc s) (\<lambda>i s.
     case i of None \<Rightarrow> Ret [] s | Some x \<Rightarrow> bindK (allocs n s) (\<lambda>xs s. Ret (x # xs) s))"

text \<open>It hands out distinct available resources, as many as there are.\<close>

lemma allocs_spec:
  assumes "inv s"
  shows "\<exists>xs t. allocs n s = Ret xs t \<and> inv t \<and> distinct xs \<and> set xs \<subseteq> avail s \<and>
    avail t = avail s - set xs \<and> length xs = min n (card (avail s))"
  using assms
proof (induction n arbitrary: s)
  case (Suc n)
  show ?case
  proof (cases "avail s = {}")
    case True
    then show ?thesis using Suc.prems alloc_empty by simp
  next
    case False
    then obtain i t where t: "alloc s = Ret (Some i) t" "inv t" "i \<in> avail s" "avail t = avail s - {i}"
      using Suc.prems alloc_some by blast
    obtain xs u where u: "allocs n t = Ret xs u" "inv u" "distinct xs" "set xs \<subseteq> avail t"
      "avail u = avail t - set xs" "length xs = min n (card (avail t))"
      using Suc.IH t(2) by blast
    have "Suc (card (avail t)) = card (avail s)"
      using card_Suc_Diff1 [OF finite_avail [OF Suc.prems] t(3)] t(4) by simp
    then have "length (i # xs) = min (Suc n) (card (avail s))" using u(6) by simp
    then show ?thesis using t u by auto
  qed
qed simp

text \<open>Giving a resource back right away restores the set of available resources.\<close>

lemma alloc_release:
  assumes "inv s" "alloc s = Ret (Some i) t"
  shows "\<exists>u. release i t = Ret () u \<and> inv u \<and> avail u = avail s"
proof -
  have ne: "avail s \<noteq> {}" using assms alloc_empty [of s] by auto
  then have i: "inv t" "i \<in> avail s" "avail t = avail s - {i}" "idle i t"
    using alloc_some [OF assms(1) ne] assms(2) by auto
  then have "i \<notin> avail t" by simp
  then obtain u where u: "release i t = Ret () u" "inv u" "avail u = insert i (avail t)"
    using release_ok i(1,4) by blast
  moreover have "insert i (avail t) = avail s" using i(2,3) by auto
  ultimately show ?thesis by auto
qed

end

section \<open>The free list of physical pages\<close>

definition page_fl :: "kstate \<Rightarrow> u32 list \<Rightarrow> bool" where
  "page_fl s ps \<longleftrightarrow> chain (\<lambda>p. pp_link (pages s p)) (page_free_list s) ps \<and> distinct ps \<and>
     npages s \<le> 0x100000 \<and>
     (\<forall>p \<in> set ps. p < npages s \<and> pp_ref (pages s p) = 0) \<and>
     (\<forall>p. p \<notin> set ps \<longrightarrow> pp_link (pages s p) = None)"

lemma page_fl_unique: "page_fl s ps \<Longrightarrow> page_fl s qs \<Longrightarrow> ps = qs"
  by (auto simp: page_fl_def dest: chain_unique)

lemma page_flD:
  assumes "page_fl s ps" "p \<in> set ps"
  shows "p < npages s" "p < 0x100000" "pp_ref (pages s p) = 0"
  using assms by (auto simp: page_fl_def)

lemma page_fl_cong:
  assumes "page_fl s ps" "page_free_list t = page_free_list s" "npages t = npages s"
    and "\<And>p. pp_link (pages t p) = pp_link (pages s p)"
    and "\<And>p. p \<in> set ps \<Longrightarrow> pp_ref (pages t p) = pp_ref (pages s p)"
  shows "page_fl t ps"
  using assms by (simp add: page_fl_def)

lemma page_alloc_empty: "page_fl s [] \<Longrightarrow> page_alloc zero s = Ret None s"
  by (simp add: page_fl_def page_alloc_def)

text \<open>The state in which \<^const>\<open>page_alloc\<close> returns page \<open>p\<close>.\<close>

definition alloc_state :: "bool \<Rightarrow> u32 \<Rightarrow> u32 list \<Rightarrow> kstate \<Rightarrow> kstate" where
  "alloc_state zero p ps s =
     (upd_page p (\<lambda>i. i\<lparr>pp_link := None\<rparr>) s)
       \<lparr>page_free_list := (case ps of [] \<Rightarrow> None | q # _ \<Rightarrow> Some q),
        pmem := (if zero then mem_set (pmem s) (page2pa p) 0 PGSIZE else pmem s)\<rparr>"

lemma page_alloc_cons:
  assumes "page_fl s (p # ps)"
  shows "page_alloc zero s = Ret (Some p) (alloc_state zero p ps s)"
proof -
  have p: "p < npages s" "p < 0x100000" using page_flD [OF assms, of p] by auto
  have h: "page_free_list s = Some p" using assms by (simp add: page_fl_def)
  have l: "pp_link (pages s p) = (case ps of [] \<Rightarrow> None | q # _ \<Rightarrow> Some q)"
    using assms by (cases ps) (auto simp: page_fl_def)
  show ?thesis
    using p by (auto simp: page_alloc_def h l page2kva_def KADDR_def page2pa_def PGNUM_frame
      alloc_state_def kmemset_def upd_page_def)
qed

lemma alloc_state_fl:
  assumes "page_fl s (p # ps)"
  shows "page_fl (alloc_state zero p ps s) ps"
proof -
  have d: "p \<notin> set ps" using assms by (auto simp: page_fl_def)
  have "chain (\<lambda>q. pp_link (pages (alloc_state zero p ps s) q)) h ps = chain (\<lambda>q. pp_link (pages s q)) h ps" for h
    by (rule chain_cong) (use d in \<open>auto simp: alloc_state_def upd_page_def\<close>)
  moreover have "chain (\<lambda>q. pp_link (pages s q)) (case ps of [] \<Rightarrow> None | q # _ \<Rightarrow> Some q) ps"
    using assms by (cases ps) (auto simp: page_fl_def)
  moreover have "page_free_list (alloc_state zero p ps s) = (case ps of [] \<Rightarrow> None | q # _ \<Rightarrow> Some q)"
    "npages (alloc_state zero p ps s) = npages s"
    by (simp_all add: alloc_state_def upd_page_def)
  ultimately show ?thesis using assms d
    by (auto simp: page_fl_def alloc_state_def upd_page_def)
qed

lemma page_free_fl:
  assumes "page_fl s ps" "p \<notin> set ps" "p < npages s" "pp_ref (pages s p) = 0"
  shows "\<exists>t. page_free p s = Ret () t \<and> page_fl t (p # ps) \<and> pmem t = pmem s \<and>
    (\<forall>q. pp_ref (pages t q) = pp_ref (pages s q)) \<and> npages t = npages s"
proof -
  let ?t = "(upd_page p (\<lambda>i. i\<lparr>pp_link := page_free_list s\<rparr>) s)\<lparr>page_free_list := Some p\<rparr>"
  have link: "pp_link (pages s p) = None" using assms by (auto simp: page_fl_def)
  have "chain (\<lambda>q. pp_link (pages ?t q)) h ps = chain (\<lambda>q. pp_link (pages s q)) h ps" for h
    by (rule chain_cong) (use assms(2) in \<open>auto simp: upd_page_def\<close>)
  then have "page_fl ?t (p # ps)"
    using assms by (auto simp: page_fl_def upd_page_def)
  then show ?thesis
    using assms(4) link by (auto simp: page_free_def upd_page_def)
qed

definition page_inv :: "kstate \<Rightarrow> bool" where
  "page_inv s \<longleftrightarrow> (\<exists>ps. page_fl s ps)"

definition page_avail :: "kstate \<Rightarrow> u32 set" where
  "page_avail s = {p. \<exists>ps. page_fl s ps \<and> p \<in> set ps}"

definition page_idle :: "u32 \<Rightarrow> kstate \<Rightarrow> bool" where
  "page_idle p s \<longleftrightarrow> p < npages s \<and> pp_ref (pages s p) = 0"

lemma page_avail_eq: "page_fl s ps \<Longrightarrow> page_avail s = set ps"
  by (auto simp: page_avail_def dest: page_fl_unique)

interpretation pgs: allocator page_inv page_avail "page_alloc True" page_free page_idle
proof unfold_locales
  fix s assume "page_inv s"
  then obtain ps where ps: "page_fl s ps" by (auto simp: page_inv_def)
  note av = page_avail_eq [OF ps]
  show "finite (page_avail s)" by (simp add: av)
  show "page_alloc True s = Ret None s" if "page_avail s = {}"
    using that ps page_alloc_empty by (simp add: av)
  show "\<exists>i t. page_alloc True s = Ret (Some i) t \<and> page_inv t \<and> i \<in> page_avail s \<and>
      page_avail t = page_avail s - {i} \<and> page_idle i t" if "page_avail s \<noteq> {}"
  proof -
    from that obtain p qs where p: "ps = p # qs" by (cases ps) (auto simp: av)
    let ?t = "alloc_state True p qs s"
    have fl: "page_fl ?t qs" using alloc_state_fl ps p by blast
    have "page_idle p ?t"
      using page_flD [of s ps p] ps p by (simp add: page_idle_def alloc_state_def upd_page_def)
    moreover have "set qs = set ps - {p}" using ps p by (auto simp: page_fl_def)
    ultimately show ?thesis
      using page_alloc_cons ps p fl page_avail_eq [OF fl] by (auto simp: av page_inv_def)
  qed
  show "\<exists>t. page_free i s = Ret () t \<and> page_inv t \<and> page_avail t = insert i (page_avail s)"
    if "page_idle i s" "i \<notin> page_avail s" for i
  proof -
    from that have "i \<notin> set ps" "i < npages s" "pp_ref (pages s i) = 0" by (auto simp: av page_idle_def)
    then obtain t where "page_free i s = Ret () t" "page_fl t (i # ps)"
      using page_free_fl [OF ps] by blast
    then show ?thesis using page_avail_eq [of t "i # ps"] by (auto simp: av page_inv_def)
  qed
qed

section \<open>The initial free list\<close>

text \<open>The pages \<^const>\<open>page_init\<close> means to hand out: neither page 0, nor the I/O hole, nor the
  kernel image and its boot-time data, nor the page with the startup code of other CPUs.\<close>

definition usable :: "u32 \<Rightarrow> u32 \<Rightarrow> bool" where
  "usable first_free i \<longleftrightarrow> i \<noteq> 0 \<and> \<not> (0xA0 \<le> i \<and> i < 0x100) \<and>
     \<not> (0x100 \<le> i \<and> i < first_free div 4096) \<and> i \<noteq> 7"

lemma page_init_step_eq:
  "page_init_step ff i s =
     (if usable ff i
      then (upd_page i (\<lambda>p. p\<lparr>pp_ref := 0, pp_link := page_free_list s\<rparr>) s)\<lparr>page_free_list := Some i\<rparr>
      else upd_page i (\<lambda>p. p\<lparr>pp_ref := 0, pp_link := None\<rparr>) s)"
  by (auto simp: page_init_step_def usable_def upd_page_def layout_defs Let_def)

definition init_list :: "u32 \<Rightarrow> nat \<Rightarrow> u32 list" where
  "init_list ff n = rev (filter (usable ff) (map of_nat [0..<n]))"

lemma init_list_Suc:
  "init_list ff (Suc n) = (if usable ff (of_nat n) then of_nat n # init_list ff n else init_list ff n)"
  by (simp add: init_list_def)

lemma set_init_list: "set (init_list ff n) = {i. usable ff i \<and> (\<exists>k < n. i = of_nat k)}"
  by (auto simp: init_list_def)

lemma page_init_fold:
  assumes "page_free_list s = None" "\<And>p. pp_link (pages s p) = None"
    and "n \<le> unat (npages s)"
  shows "let t = fold (\<lambda>i. page_init_step ff (of_nat i)) [0..<n] s in
     chain (\<lambda>p. pp_link (pages t p)) (page_free_list t) (init_list ff n) \<and>
     distinct (init_list ff n) \<and> npages t = npages s \<and> pmem t = pmem s \<and>
     (\<forall>k < n. pp_ref (pages t (of_nat k)) = 0) \<and>
     (\<forall>p. p \<notin> set (init_list ff n) \<longrightarrow> pp_link (pages t p) = None)"
  using assms(3)
proof (induction n)
  case 0
  then show ?case using assms by (simp add: init_list_def)
next
  case (Suc n)
  let ?t = "fold (\<lambda>i. page_init_step ff (of_nat i)) [0..<n] s"
  let ?u = "page_init_step ff (of_nat n) ?t"
  have n32: "n < 2 ^ 32" using Suc.prems unat_u32_less [of "npages s"] by simp
  from Suc have IH: "chain (\<lambda>p. pp_link (pages ?t p)) (page_free_list ?t) (init_list ff n)"
    "distinct (init_list ff n)" "npages ?t = npages s" "pmem ?t = pmem s"
    "\<forall>k < n. pp_ref (pages ?t (of_nat k)) = 0"
    "\<forall>p. p \<notin> set (init_list ff n) \<longrightarrow> pp_link (pages ?t p) = None"
    by (simp_all add: Let_def)
  have fresh: "of_nat n \<notin> set (init_list ff n)"
    using of_nat_u32_less [OF n32] by (force simp: set_init_list)
  have "chain (\<lambda>p. pp_link (pages ?u p)) h (init_list ff n) = chain (\<lambda>p. pp_link (pages ?t p)) h (init_list ff n)" for h
    by (rule chain_cong) (use fresh in \<open>auto simp: page_init_step_eq upd_page_def\<close>)
  then have "chain (\<lambda>p. pp_link (pages ?u p)) (page_free_list ?u) (init_list ff (Suc n))"
    using IH(1) by (auto simp: init_list_Suc page_init_step_eq upd_page_def)
  moreover have "\<forall>k < Suc n. pp_ref (pages ?u (of_nat k)) = 0"
    using IH(5) by (auto simp: page_init_step_eq upd_page_def less_Suc_eq)
  moreover have "distinct (init_list ff (Suc n))" using IH(2) fresh by (simp add: init_list_Suc)
  moreover have "\<forall>p. p \<notin> set (init_list ff (Suc n)) \<longrightarrow> pp_link (pages ?u p) = None"
    using IH(6) by (auto simp: page_init_step_eq upd_page_def init_list_Suc)
  moreover have "npages ?u = npages s" "pmem ?u = pmem s"
    using IH(3,4) by (simp_all add: page_init_step_eq upd_page_def)
  ultimately show ?case by (simp add: Let_def)
qed

lemma page_init_spec:
  assumes "page_init kend s = Ret () t" "page_free_list s = None"
    "\<And>p. pp_link (pages s p) = None" "npages s \<le> 0x100000"
  shows "page_fl t (init_list (nextfree t - KERNBASE) (unat (npages s)))"
proof -
  obtain va s1 where s1: "boot_alloc kend 0 s = Ret va s1" "KERNBASE \<le> va"
    and t: "t = fold (\<lambda>i. page_init_step (va - KERNBASE) (of_nat i)) [0..<unat (npages s1)] s1"
    using assms(1) by (auto simp: page_init_def bindK_eq_Ret PADDR_def split: if_splits)
  have same: "npages s1 = npages s" "pages s1 = pages s" "page_free_list s1 = page_free_list s"
    "nextfree s1 = va"
    using s1(1) by (auto simp: boot_alloc_def KADDR_def Let_def bindK_eq_Ret split: if_splits)
  have nf: "nextfree (fold (\<lambda>i. page_init_step ff (of_nat i)) xs u) = nextfree u" for ff xs u
    by (induction xs arbitrary: u) (simp_all add: page_init_step_eq upd_page_def)
  note f = page_init_fold [of s1 "unat (npages s1)" "va - KERNBASE", unfolded t [symmetric] Let_def]
  have "page_fl t (init_list (va - KERNBASE) (unat (npages s)))"
    using f assms same unfolding page_fl_def
    by (auto simp: set_init_list word_of_nat_less_u32)
  then show ?thesis using nf t same by simp
qed

end
