(* ===== verification/Pgtable.thy ===== *)
theory Pgtable
  imports Freelist
begin

text \<open>
  The page-table operations in terms of pages and their entries: \<open>entry s p i\<close> is the
  \<open>i\<close>-th 32-bit word of physical page \<open>p\<close>. Each operation of \<^verbatim>\<open>kern/pmap.c\<close> gets one
  equation per branch; the theorems of the later theories use these equations and never
  unfold the addresses again.
\<close>

section \<open>Entries of a page\<close>

definition entry :: "kstate \<Rightarrow> u32 \<Rightarrow> u32 \<Rightarrow> u32" where
  "entry s p i = ld32 (pmem s) (entry_pa p i)"

definition set_entry :: "u32 \<Rightarrow> u32 \<Rightarrow> u32 \<Rightarrow> kstate \<Rightarrow> kstate" where
  "set_entry p i v s = s\<lparr>pmem := st32 (pmem s) (entry_pa p i) v\<rparr>"

text \<open>The kernel virtual address of a page.\<close>

definition kpage :: "u32 \<Rightarrow> u32" where
  "kpage p = page2pa p + KERNBASE"

definition present :: "u32 \<Rightarrow> bool" where
  "present e \<longleftrightarrow> e AND PTE_P \<noteq> 0"

lemma present_bit: "present e \<longleftrightarrow> bit e 0"
  by (simp add: present_def PTE_P_def and_one_eq bit_0 even_iff_mod_2_eq_zero)

lemma and_PTE_P: "e AND PTE_P = (if present e then PTE_P else 0)"
  by (simp add: present_bit PTE_P_def and_one_eq bit_0 mod2_eq_if)

lemma present_iff [simp]:
  "e AND PTE_P = PTE_P \<longleftrightarrow> present e" "e AND PTE_P = 0 \<longleftrightarrow> \<not> present e"
  using and_PTE_P [of e] by (auto simp: PTE_P_def split: if_splits)

lemma present_or: "present (a OR b) \<longleftrightarrow> present a \<or> present b"
  by (simp add: present_bit bit_or_iff)

lemma present_P [simp]: "present PTE_P"
  by (simp add: present_bit PTE_P_def)

lemma not_present_0 [simp]: "\<not> present 0"
  by (simp add: present_def)

lemma kld32_kpage [simp]: "kld32 s (kpage p + 4 * i) = entry s p i"
  by (simp add: kld32_def kpage_def entry_def entry_pa_def page2pa_def algebra_simps)

lemma kst32_kpage [simp]: "kst32 (kpage p + 4 * i) v s = set_entry p i v s"
  by (simp add: kst32_def kpage_def set_entry_def entry_pa_def page2pa_def algebra_simps)

lemma entry_set_entry:
  assumes "i < 1024" "j < 1024" "p < 0x100000" "q < 0x100000"
  shows "entry (set_entry p i v s) q j = (if p = q \<and> i = j then v else entry s q j)"
  using assms
  by (auto simp: entry_def set_entry_def ld32_st32_same ld32_st32_other aligned4_entry_pa entry_pa_inject)

lemma set_entry_fields [simp]:
  "pages (set_entry p i v s) = pages s" "page_free_list (set_entry p i v s) = page_free_list s"
  "npages (set_entry p i v s) = npages s" "envs (set_entry p i v s) = envs s"
  "curenv (set_entry p i v s) = curenv s" "kern_pgdir (set_entry p i v s) = kern_pgdir s"
  by (simp_all add: set_entry_def curenv_def)

lemma upd_page_fields [simp]:
  "pages (upd_page p f s) = (pages s)(p := f (pages s p))" "npages (upd_page p f s) = npages s"
  "pmem (upd_page p f s) = pmem s" "page_free_list (upd_page p f s) = page_free_list s"
  "envs (upd_page p f s) = envs s" "curenv (upd_page p f s) = curenv s"
  "kern_pgdir (upd_page p f s) = kern_pgdir s"
  by (simp_all add: upd_page_def curenv_def)

lemma entry_pmem_cong: "pmem s = pmem t \<Longrightarrow> entry s = entry t"
  by (intro ext) (simp add: entry_def)

lemma entry_upd_page [simp]: "entry (upd_page p f s) = entry s"
  by (rule entry_pmem_cong) simp

lemma entry_free_list_update [simp]: "entry (s\<lparr>page_free_list := x\<rparr>) = entry s"
  by (rule entry_pmem_cong) simp

lemma entry_invlpgs_update [simp]: "entry (s\<lparr>invlpgs := x\<rparr>) = entry s"
  by (rule entry_pmem_cong) simp

lemma entry_alloc_state:
  assumes "i < 1024" "q < 0x100000" "p < 0x100000"
  shows "entry (alloc_state zero p ps s) q i = (if zero \<and> q = p then 0 else entry s q i)"
proof -
  have "PGNUM (entry_pa q i) = q" using assms by (simp add: PGNUM_entry_pa)
  then show ?thesis
    using ld32_mem_set_page [of "entry_pa q i" p "pmem s"] assms
    by (auto simp: entry_def alloc_state_def page2pa_def PGSIZE_def aligned4_entry_pa)
qed

section \<open>Page table entries\<close>

text \<open>The entry that maps page \<open>p\<close> with permissions \<open>perm\<close>.\<close>

definition mkpte :: "u32 \<Rightarrow> u32 \<Rightarrow> u32" where
  "mkpte p perm = PTE_ADDR (page2pa p) OR perm OR PTE_P"

lemma small_or: "(x :: u32) < 4096 \<Longrightarrow> y < 4096 \<Longrightarrow> x OR y < 4096"
proof -
  assume "x < 4096" "y < 4096"
  then have "x AND 0xFFF = x" "y AND 0xFFF = y"
    using less_exp_take [of x 12] less_exp_take [of y 12]
    by (simp_all add: mask_numerals take_bit_eq_mask)
  then have "x OR y = (x OR y) AND 0xFFF" by (simp add: bit.conj_disj_distrib2)
  moreover have "(x OR y) AND 0xFFF \<le> 0xFFF" by (rule word_and_le1)
  ultimately have "x OR y \<le> 0xFFF" by simp
  then show ?thesis by (rule order.strict_trans1) simp
qed

lemma mkpte_simps:
  assumes "p < 0x100000" "perm < 4096"
  shows "PGNUM (mkpte p perm) = p" "PTE_ADDR (mkpte p perm) = page2pa p" "present (mkpte p perm)"
proof -
  have "perm OR PTE_P < 4096" using assms(2) by (simp add: small_or PTE_P_def)
  then show "PGNUM (mkpte p perm) = p" "PTE_ADDR (mkpte p perm) = page2pa p"
    using assms(1)
    by (simp_all add: mkpte_def or.assoc PGNUM_or_small PTE_ADDR_or_small PTE_ADDR_frame page2pa_def
      PGNUM_frame)
  show "present (mkpte p perm)" by (simp add: mkpte_def present_or)
qed

section \<open>Walking\<close>

lemma page2kva_ok: "p < npages s \<Longrightarrow> p < 0x100000 \<Longrightarrow> page2kva p s = Ret (kpage p) s"
  by (simp add: page2kva_def KADDR_def page2pa_def PGNUM_frame kpage_def)

lemma pgdir_walk_present:
  assumes "present (entry s D (PDX va))" "PGNUM (entry s D (PDX va)) < npages s"
  shows "pgdir_walk (kpage D) va create s
    = Ret (Some (kpage (PGNUM (entry s D (PDX va))) + 4 * PTX va)) s"
  using assms PGNUM_less by (simp add: pgdir_walk_def page2kva_ok)

lemma pgdir_walk_absent:
  assumes "\<not> present (entry s D (PDX va))"
  shows "pgdir_walk (kpage D) va False s = Ret None s"
  using assms by (simp add: pgdir_walk_def)

lemma pgdir_walk_nomem:
  assumes "\<not> present (entry s D (PDX va))" "page_fl s []"
  shows "pgdir_walk (kpage D) va True s = Ret None s"
  using assms page_alloc_empty by (simp add: pgdir_walk_def)

text \<open>The state after a new table page \<open>p\<close> was installed in slot \<open>i\<close> of directory \<open>D\<close>.\<close>

definition new_table :: "u32 \<Rightarrow> u32 \<Rightarrow> u32 \<Rightarrow> u32 list \<Rightarrow> kstate \<Rightarrow> kstate" where
  "new_table D i p ps s =
     set_entry D i (mkpte p (PTE_U OR PTE_W)) (upd_page p (\<lambda>q. q\<lparr>pp_ref := 1\<rparr>) (alloc_state True p ps s))"

lemma pgdir_walk_create:
  assumes "\<not> present (entry s D (PDX va))" "page_fl s (p # ps)" "D < 0x100000"
  shows "pgdir_walk (kpage D) va True s
    = Ret (Some (kpage p + 4 * PTX va)) (new_table D (PDX va) p ps s)"
proof -
  have p: "p < npages s" "p < 0x100000" "pp_ref (pages s p) = 0" using page_flD [OF assms(2), of p] by auto
  let ?t = "alloc_state True p ps s"
  have ref: "pp_ref (pages ?t p) = 0" "npages ?t = npages s"
    using p(3) by (simp_all add: alloc_state_def upd_page_def)
  have "PTE_U OR PTE_W < 4096" by (simp add: layout_defs)
  moreover have "entry (new_table D (PDX va) p ps s) D (PDX va) = mkpte p (PTE_U OR PTE_W)"
    using assms(3) PDX_less by (simp add: new_table_def entry_set_entry)
  moreover have "npages (new_table D (PDX va) p ps s) = npages s"
    by (simp add: new_table_def ref)
  moreover have "upd_page p (\<lambda>q. q\<lparr>pp_ref := pp_ref q + 1\<rparr>) ?t = upd_page p (\<lambda>q. q\<lparr>pp_ref := 1\<rparr>) ?t"
    using ref by (simp add: upd_page_def)
  moreover have "PTE_ADDR (page2pa p) OR PTE_U OR PTE_W OR PTE_P = mkpte p (PTE_U OR PTE_W)"
    by (simp add: mkpte_def or.assoc)
  ultimately show ?thesis
    using assms(1) p page_alloc_cons [OF assms(2), of True]
    by (simp add: pgdir_walk_def ref new_table_def [symmetric] page2kva_ok mkpte_simps)
qed

section \<open>Lookup, removal and insertion\<close>

text \<open>The table page and the page table entry that translate \<open>va\<close> under directory \<open>D\<close>.\<close>

definition table :: "kstate \<Rightarrow> u32 \<Rightarrow> u32 \<Rightarrow> u32" where
  "table s D va = PGNUM (entry s D (PDX va))"

definition pte :: "kstate \<Rightarrow> u32 \<Rightarrow> u32 \<Rightarrow> u32" where
  "pte s D va = (if present (entry s D (PDX va)) then entry s (table s D va) (PTX va) else 0)"

lemma page_lookup_absent:
  assumes "\<not> present (pte s D va)" "present (entry s D (PDX va)) \<Longrightarrow> table s D va < npages s"
  shows "page_lookup (kpage D) va s = Ret None s"
proof (cases "present (entry s D (PDX va))")
  case True
  then show ?thesis using assms
    by (simp add: page_lookup_def pgdir_walk_present table_def pte_def)
next
  case False
  then show ?thesis by (simp add: page_lookup_def pgdir_walk_absent)
qed

lemma page_lookup_present:
  assumes "present (pte s D va)" "table s D va < npages s" "PGNUM (pte s D va) < npages s"
  shows "page_lookup (kpage D) va s
    = Ret (Some (PGNUM (pte s D va), kpage (table s D va) + 4 * PTX va)) s"
proof -
  have d: "present (entry s D (PDX va))" using assms(1) by (auto simp: pte_def split: if_splits)
  have "PGNUM (PTE_ADDR e OR PGOFF va) = PGNUM e" for e
    by (simp add: PGNUM_or_small PGOFF_less PGNUM_PTE_ADDR)
  then show ?thesis using assms d
    by (simp add: page_lookup_def pgdir_walk_present table_def pte_def pa2page_def)
qed

lemma page_remove_absent:
  assumes "\<not> present (pte s D va)" "present (entry s D (PDX va)) \<Longrightarrow> table s D va < npages s"
  shows "page_remove (kpage D) va s = Ret () s"
  using page_lookup_absent [OF assms] by (simp add: page_remove_def)

lemma page_remove_present:
  assumes "present (pte s D va)" "table s D va < npages s" "PGNUM (pte s D va) < npages s"
  shows "page_remove (kpage D) va s =
    bindK (page_decref (PGNUM (pte s D va)) s) (\<lambda>_ u.
      Ret () (tlb_invalidate (kpage D) va (set_entry (table s D va) (PTX va) 0 u)))"
  using page_lookup_present [OF assms] by (simp add: page_remove_def)

lemma tlb_invalidate_fields [simp]:
  "pages (tlb_invalidate d va s) = pages s" "page_free_list (tlb_invalidate d va s) = page_free_list s"
  "npages (tlb_invalidate d va s) = npages s" "pmem (tlb_invalidate d va s) = pmem s"
  "envs (tlb_invalidate d va s) = envs s" "curenv (tlb_invalidate d va s) = curenv s"
  "kern_pgdir (tlb_invalidate d va s) = kern_pgdir s"
  by (simp_all add: tlb_invalidate_def invlpg_def curenv_def split: option.split)

lemma entry_tlb_invalidate [simp]: "entry (tlb_invalidate d va s) = entry s"
  by (rule entry_pmem_cong) simp

end
