(* ===== verification/Refcount.thy ===== *)
theory Refcount
  imports Pgtable
begin

text \<open>
  The reference-count invariant of the memory manager. The state has a set \<open>Ds\<close> of page
  directories, one for each address space. A page is referenced by a directory slot, by a
  page table slot below \<^const>\<open>UTOP\<close>, or because it is a directory; \<open>pin p\<close> counts the
  references the kernel itself holds. The invariant says that \<^const>\<open>pp_ref\<close> is exact,
  that page tables are private to one directory slot, and that no page table or directory
  is mapped below \<^const>\<open>UTOP\<close>. Every operation of \<^verbatim>\<open>kern/pmap.c\<close> on user mappings keeps it.
\<close>

section \<open>References\<close>

datatype ref = RDir u32 | RTab u32 u32 | RMap u32 u32 u32

text \<open>Directory slots below \<^const>\<open>UTOP\<close>.\<close>

abbreviation uslot :: "u32 \<Rightarrow> bool" where
  "uslot i \<equiv> i < 955"

lemma uslot_PDX_UTOP: "PDX UTOP = 955"
  by (simp add: PDX_def layout_defs)

definition is_tab :: "kstate \<Rightarrow> u32 set \<Rightarrow> u32 \<Rightarrow> u32 \<Rightarrow> u32 \<Rightarrow> bool" where
  "is_tab s Ds D i T \<longleftrightarrow> D \<in> Ds \<and> uslot i \<and> present (entry s D i) \<and> PGNUM (entry s D i) = T"

fun refers :: "kstate \<Rightarrow> u32 set \<Rightarrow> ref \<Rightarrow> u32 \<Rightarrow> bool" where
  "refers s Ds (RDir D) p \<longleftrightarrow> D \<in> Ds \<and> D = p"
| "refers s Ds (RTab D i) p \<longleftrightarrow> is_tab s Ds D i p"
| "refers s Ds (RMap D i j) p \<longleftrightarrow> (\<exists>T. is_tab s Ds D i T \<and> j < 1024 \<and>
     present (entry s T j) \<and> PGNUM (entry s T j) = p)"

definition refs :: "kstate \<Rightarrow> u32 set \<Rightarrow> u32 \<Rightarrow> ref set" where
  "refs s Ds p = {r. refers s Ds r p}"

lemma is_tab_unique: "is_tab s Ds D i T \<Longrightarrow> is_tab s Ds D i T' \<Longrightarrow> T = T'"
  by (simp add: is_tab_def)

lemma refers_unique: "refers s Ds r p \<Longrightarrow> refers s Ds r q \<Longrightarrow> p = q"
  by (cases r) (auto dest: is_tab_unique)

lemma finite_refs [simp]: "finite (refs s Ds p)"
proof -
  have "r \<in> range RDir \<union> range (case_prod RTab) \<union> range (case_prod (\<lambda>a. case_prod (RMap a)))" for r
  proof (cases r)
    case (RTab a b)
    then have "r = case_prod RTab (a, b)" by simp
    then show ?thesis by blast
  next
    case (RMap a b c)
    then have "r = case_prod (\<lambda>a. case_prod (RMap a)) (a, b, c)" by simp
    then show ?thesis by blast
  qed blast
  then have "refs s Ds p \<subseteq> range RDir \<union> range (case_prod RTab) \<union> range (case_prod (\<lambda>a. case_prod (RMap a)))"
    by blast
  then show ?thesis by (rule finite_subset) simp
qed

text \<open>A page that is neither a directory nor a page table.\<close>

definition plain :: "kstate \<Rightarrow> u32 set \<Rightarrow> u32 \<Rightarrow> bool" where
  "plain s Ds p \<longleftrightarrow> p \<notin> Ds \<and> (\<forall>D i. \<not> is_tab s Ds D i p)"

section \<open>The invariant\<close>

definition tables_ok :: "kstate \<Rightarrow> u32 set \<Rightarrow> bool" where
  "tables_ok s Ds \<longleftrightarrow>
     (\<forall>D \<in> Ds. D < npages s) \<and>
     (\<forall>D i T. is_tab s Ds D i T \<longrightarrow> T < npages s \<and> T \<notin> Ds) \<and>
     (\<forall>D i D' i' T. is_tab s Ds D i T \<longrightarrow> is_tab s Ds D' i' T \<longrightarrow> D = D' \<and> i = i') \<and>
     (\<forall>D i j p. refers s Ds (RMap D i j) p \<longrightarrow> p < npages s \<and> plain s Ds p)"

definition refcounts :: "kstate \<Rightarrow> u32 set \<Rightarrow> (u32 \<Rightarrow> nat) \<Rightarrow> bool" where
  "refcounts s Ds pin \<longleftrightarrow> (\<forall>p < npages s. unat (pp_ref (pages s p)) = card (refs s Ds p) + pin p)"

definition memory_inv :: "kstate \<Rightarrow> u32 set \<Rightarrow> (u32 \<Rightarrow> nat) \<Rightarrow> u32 list \<Rightarrow> bool" where
  "memory_inv s Ds pin ps \<longleftrightarrow> page_fl s ps \<and> tables_ok s Ds \<and> refcounts s Ds pin"

lemma memory_invD:
  assumes "memory_inv s Ds pin ps"
  shows "page_fl s ps" "tables_ok s Ds" "refcounts s Ds pin" "npages s \<le> 0x100000"
  using assms by (auto simp: memory_inv_def page_fl_def)

lemma tables_okD:
  assumes "tables_ok s Ds"
  shows "D \<in> Ds \<Longrightarrow> D < npages s"
    and "is_tab s Ds D i T \<Longrightarrow> T < npages s"
    and "is_tab s Ds D i T \<Longrightarrow> T \<notin> Ds"
    and "is_tab s Ds D i T \<Longrightarrow> is_tab s Ds D' i' T \<Longrightarrow> D = D' \<and> i = i'"
    and "is_tab s Ds D i T \<Longrightarrow> j < 1024 \<Longrightarrow> present (entry s T j) \<Longrightarrow>
      PGNUM (entry s T j) < npages s \<and> plain s Ds (PGNUM (entry s T j))"
proof -
  assume T: "is_tab s Ds D i T" "j < 1024" "present (entry s T j)"
  then have "refers s Ds (RMap D i j) (PGNUM (entry s T j))" by auto
  then show "PGNUM (entry s T j) < npages s \<and> plain s Ds (PGNUM (entry s T j))"
    using assms unfolding tables_ok_def by blast
qed (use assms in \<open>unfold tables_ok_def, blast+\<close>)

text \<open>No page with a reference is on the free list.\<close>

lemma free_not_referenced:
  assumes "memory_inv s Ds pin ps" "p \<in> set ps"
  shows "refs s Ds p = {}" "pin p = 0" "plain s Ds p"
proof -
  have p: "p < npages s" "pp_ref (pages s p) = 0" using memory_invD(1) [OF assms(1)] page_flD assms(2) by auto
  then have "card (refs s Ds p) + pin p = 0"
    using memory_invD(3) [OF assms(1)] by (auto simp: refcounts_def)
  then show e: "refs s Ds p = {}" and "pin p = 0" by auto
  have "RDir p \<notin> refs s Ds p" "\<And>D i. RTab D i \<notin> refs s Ds p" using e by auto
  then show "plain s Ds p" by (auto simp: plain_def refs_def)
qed

section \<open>References under updates\<close>

lemma is_tab_cong: "entry s = entry t \<Longrightarrow> is_tab s = is_tab t"
  by (intro ext) (simp add: is_tab_def)

lemma refers_cong: "entry s = entry t \<Longrightarrow> refers s Ds r p = refers t Ds r p"
  by (cases r) (auto simp: is_tab_cong [of s t])

lemma refs_cong: "entry s = entry t \<Longrightarrow> refs s = refs t"
  by (intro ext) (simp add: refs_def refers_cong [of s t])

lemma plain_cong: "entry s = entry t \<Longrightarrow> plain s = plain t"
  by (intro ext) (simp add: plain_def is_tab_cong [of s t])

lemma tables_ok_cong:
  assumes "entry s = entry t" "npages s = npages t"
  shows "tables_ok s = tables_ok t"
  by (intro ext) (simp add: tables_ok_def is_tab_cong [OF assms(1)] refers_cong [OF assms(1)]
    plain_cong [OF assms(1)] assms(2) del: refers.simps)

text \<open>Writing slot \<open>j\<close> of the table in slot \<open>i\<close> of directory \<open>D\<close>.\<close>

lemma small_page: "memory_inv s Ds pin ps \<Longrightarrow> p < npages s \<Longrightarrow> p < 0x100000"
  by (drule memory_invD(4)) simp

lemma is_tab_bounds: "is_tab s Ds D i T \<Longrightarrow> i < 1024"
  by (auto simp: is_tab_def intro: order.strict_trans)

lemma is_tab_set_entry:
  assumes "tables_ok s Ds" "npages s \<le> 0x100000" "is_tab s Ds D i T" "j < 1024"
  shows "is_tab (set_entry T j v s) Ds = is_tab s Ds"
proof (intro ext)
  fix D' i' T'
  have T: "T < 0x100000" "T \<notin> Ds" using tables_okD(2,3) [OF assms(1,3)] assms(2) by auto
  have "entry (set_entry T j v s) D' i' = entry s D' i'" if "D' \<in> Ds" "uslot i'"
  proof -
    have "D' < 0x100000" "i' < 1024" using tables_okD(1) [OF assms(1) that(1)] assms(2) that(2)
      by (auto intro: order.strict_trans)
    then show ?thesis using entry_set_entry [of j i' T D'] T assms(4) that by auto
  qed
  then show "is_tab (set_entry T j v s) Ds D' i' T' = is_tab s Ds D' i' T'"
    by (auto simp: is_tab_def)
qed

lemma refs_set_entry:
  assumes "tables_ok s Ds" "npages s \<le> 0x100000" "is_tab s Ds D i T" "j < 1024"
  shows "refs (set_entry T j v s) Ds p =
    (if present v \<and> PGNUM v = p then insert (RMap D i j) (refs s Ds p) else refs s Ds p - {RMap D i j})"
proof -
  have T: "T < 0x100000" using tables_okD(2) [OF assms(1,3)] assms(2) by simp
  have tab: "is_tab (set_entry T j v s) Ds = is_tab s Ds" using assms by (rule is_tab_set_entry)
  have "refers (set_entry T j v s) Ds r p =
    (if r = RMap D i j then present v \<and> PGNUM v = p else refers s Ds r p)" for r
  proof (cases r)
    case (RMap D' i' j')
    have e: "entry (set_entry T j v s) T' j' = (if T' = T \<and> j' = j then v else entry s T' j')"
      if "is_tab s Ds D' i' T'" "j' < 1024" for T'
      using entry_set_entry [of j j' T T'] T tables_okD(2) [OF assms(1) that(1)] assms(2,4) that(2) by auto
    show ?thesis
    proof (cases "r = RMap D i j")
      case True
      then show ?thesis using RMap assms(3,4) e tab by (auto dest: is_tab_unique)
    next
      case False
      then have ne: "T' \<noteq> T \<or> j' \<noteq> j" if "is_tab s Ds D' i' T'" for T'
        using RMap that assms(3) tables_okD(4) [OF assms(1)] by blast
      have "entry (set_entry T j v s) T' j' = entry s T' j'" if "is_tab s Ds D' i' T'" "j' < 1024" for T'
        using e [OF that] ne [OF that(1)] by auto
      then have "(is_tab s Ds D' i' T' \<and> j' < 1024 \<and> present (entry (set_entry T j v s) T' j') \<and>
          PGNUM (entry (set_entry T j v s) T' j') = p) =
        (is_tab s Ds D' i' T' \<and> j' < 1024 \<and> present (entry s T' j') \<and> PGNUM (entry s T' j') = p)" for T'
        by auto
      then have "refers (set_entry T j v s) Ds r p = refers s Ds r p" using RMap tab by simp
      then show ?thesis using False by simp
    qed
  qed (use tab in auto)
  then show ?thesis by (auto simp: refs_def)
qed

lemma plain_set_entry:
  assumes "tables_ok s Ds" "npages s \<le> 0x100000" "is_tab s Ds D i T" "j < 1024"
  shows "plain (set_entry T j v s) Ds = plain s Ds"
  by (intro ext) (simp add: plain_def is_tab_set_entry [OF assms])

lemma tables_ok_set_entry:
  assumes "tables_ok s Ds" "npages s \<le> 0x100000" "is_tab s Ds D i T" "j < 1024"
    and v: "present v \<Longrightarrow> PGNUM v < npages s \<and> plain s Ds (PGNUM v)"
  shows "tables_ok (set_entry T j v s) Ds"
proof -
  have "p < npages s \<and> plain s Ds p" if "refers (set_entry T j v s) Ds (RMap D' i' j') p" for D' i' j' p
  proof -
    have "RMap D' i' j' \<in> refs (set_entry T j v s) Ds p" using that by (simp add: refs_def del: refers.simps)
    then have "refers s Ds (RMap D' i' j') p \<or> present v \<and> PGNUM v = p"
      unfolding refs_set_entry [OF assms(1-4)] by (auto simp: refs_def split: if_splits simp del: refers.simps)
    then show ?thesis using assms(1) v unfolding tables_ok_def by blast
  qed
  then show ?thesis using assms(1) unfolding tables_ok_def
    by (simp add: is_tab_set_entry [OF assms(1-4)] plain_set_entry [OF assms(1-4)] del: refers.simps)
qed

text \<open>Installing a fresh table page.\<close>

lemma entry_new_table:
  assumes "i < 1024" "k < 1024" "p < 0x100000" "q < 0x100000" "D < 0x100000"
  shows "entry (new_table D i p ps s) q k =
    (if q = D \<and> k = i then mkpte p (PTE_U OR PTE_W) else if q = p then 0 else entry s q k)"
  using assms by (auto simp: new_table_def entry_set_entry entry_alloc_state)

lemma new_table_fields [simp]:
  "npages (new_table D i p ps s) = npages s"
  "page_free_list (new_table D i p ps s) = (case ps of [] \<Rightarrow> None | q # _ \<Rightarrow> Some q)"
  "pages (new_table D i p ps s) = (pages s)(p := (pages s p)\<lparr>pp_link := None, pp_ref := 1\<rparr>)"
  by (simp_all add: new_table_def alloc_state_def upd_page_def split: list.split)

lemma is_tab_new_table:
  assumes inv: "memory_inv s Ds pin (p # ps)" and D: "D \<in> Ds" "uslot i" "\<not> present (entry s D i)"
  shows "is_tab (new_table D i p ps s) Ds D' i' T = (if D' = D \<and> i' = i then T = p else is_tab s Ds D' i' T)"
proof -
  have p: "p < npages s" "plain s Ds p" using free_not_referenced [OF inv] page_flD(1) [OF memory_invD(1) [OF inv]] by auto
  have small: "q < 0x100000" if "q < npages s" for q using inv that by (rule small_page)
  have dir: "q < 0x100000" if "q \<in> Ds" for q using small tables_okD(1) [OF memory_invD(2) [OF inv] that] .
  have ps: "PTE_U OR PTE_W < 4096" by (simp add: layout_defs)
  have i: "i < 1024" using D(2) by (rule order.strict_trans) simp
  have "entry (new_table D i p ps s) D' i' = (if D' = D \<and> i' = i then mkpte p (PTE_U OR PTE_W) else entry s D' i')"
    if "D' \<in> Ds" "uslot i'"
  proof -
    have "i' < 1024" using that(2) by (rule order.strict_trans) simp
    moreover have "D' \<noteq> p" using p(2) that(1) by (auto simp: plain_def)
    ultimately show ?thesis using entry_new_table [of i i' p D' D] i small [OF p(1)] dir that(1) D(1) by auto
  qed
  then show ?thesis
    using mkpte_simps(1,3) [OF small [OF p(1)] ps] D by (auto simp: is_tab_def)
qed

lemma refs_new_table:
  assumes inv: "memory_inv s Ds pin (p # ps)" and D: "D \<in> Ds" "uslot i" "\<not> present (entry s D i)"
  shows "refs (new_table D i p ps s) Ds q = (if q = p then {RTab D i} else refs s Ds q)"
proof -
  note tab = is_tab_new_table [OF assms]
  note ok = memory_invD(2) [OF inv]
  have p: "p < npages s" "plain s Ds p" "refs s Ds p = {}"
    using free_not_referenced [OF inv] page_flD(1) [OF memory_invD(1) [OF inv]] by auto
  have small: "q < 0x100000" if "q < npages s" for q using inv that by (rule small_page)
  have i: "i < 1024" using D(2) by (rule order.strict_trans) simp
  have e: "entry (new_table D i p ps s) T j = (if T = p then 0 else entry s T j)"
    if "T \<notin> Ds" "T < npages s" "j < 1024" for T j
    using entry_new_table [of i j p T D] i that small small [OF tables_okD(1) [OF ok D(1)]] p(1) D(1) by auto
  have notab: "\<not> is_tab s Ds D' i' p" for D' i' using p(2) by (simp add: plain_def)
  have "refers (new_table D i p ps s) Ds r q = (if r = RTab D i then q = p else refers s Ds r q)" for r
  proof (cases r)
    case (RMap D' i' j)
    show ?thesis
    proof (cases "D' = D \<and> i' = i")
      case True
      have "\<not> is_tab s Ds D i T" for T using D(3) by (simp add: is_tab_def)
      moreover have "p \<notin> Ds" using p(2) by (simp add: plain_def)
      ultimately show ?thesis using RMap True tab e [of p j] p(1) by auto
    next
      case False
      have "entry (new_table D i p ps s) T j = entry s T j" if "is_tab s Ds D' i' T" "j < 1024" for T
        using e [of T j] that tables_okD(2,3) [OF ok that(1)] notab [of D' i'] by (cases "T = p") auto
      then have "(is_tab s Ds D' i' T \<and> j < 1024 \<and> present (entry (new_table D i p ps s) T j) \<and>
          PGNUM (entry (new_table D i p ps s) T j) = q) =
        (is_tab s Ds D' i' T \<and> j < 1024 \<and> present (entry s T j) \<and> PGNUM (entry s T j) = q)" for T
        by auto
      moreover have "is_tab (new_table D i p ps s) Ds D' i' = is_tab s Ds D' i'" using False tab by auto
      ultimately show ?thesis using RMap by simp
    qed
  qed (use tab D in auto)
  then have "r \<in> refs (new_table D i p ps s) Ds q \<longleftrightarrow> (if r = RTab D i then q = p else r \<in> refs s Ds q)" for r
    by (simp add: refs_def)
  moreover have "RTab D i \<notin> refs s Ds q" using D(3) by (simp add: refs_def is_tab_def)
  ultimately show ?thesis using p(3) by (auto split: if_splits)
qed

lemma new_table_inv:
  assumes inv: "memory_inv s Ds pin (p # ps)" and D: "D \<in> Ds" "uslot i" "\<not> present (entry s D i)"
  shows "memory_inv (new_table D i p ps s) Ds pin ps"
proof -
  let ?t = "new_table D i p ps s"
  note tab = is_tab_new_table [OF assms] and rf = refs_new_table [OF assms]
  note ok = memory_invD(2) [OF inv] and fl = memory_invD(1) [OF inv]
  have p: "p < npages s" "plain s Ds p" "pin p = 0" "p \<notin> set ps"
    using free_not_referenced [OF inv] page_flD(1) [OF fl] fl by (auto simp: page_fl_def)
  have "page_fl (alloc_state True p ps s) ps" using fl by (rule alloc_state_fl)
  then have "page_fl ?t ps"
    by (rule page_fl_cong) (use p(4) in \<open>auto simp: alloc_state_def upd_page_def split: list.split\<close>)
  moreover have "tables_ok ?t Ds"
  proof -
    have "q < npages s \<and> plain ?t Ds q" if "refers ?t Ds (RMap D' i' j) q" for D' i' j q
    proof -
      have "RMap D' i' j \<in> refs ?t Ds q" using that by (simp add: refs_def del: refers.simps)
      then have "q \<noteq> p" "refers s Ds (RMap D' i' j) q" unfolding rf by (auto simp: refs_def split: if_splits)
      then have "q < npages s" "plain s Ds q" using ok unfolding tables_ok_def by blast+
      then show ?thesis using \<open>q \<noteq> p\<close> by (simp add: plain_def tab)
    qed
    moreover have "\<not> is_tab s Ds D' i' p" for D' i' using p(2) by (simp add: plain_def)
    moreover have "p \<notin> Ds" using p(2) by (simp add: plain_def)
    ultimately show ?thesis using ok p(1) unfolding tables_ok_def new_table_fields
      by (auto simp: tab simp del: refers.simps split: if_splits)
  qed
  moreover have "refcounts ?t Ds pin"
    using memory_invD(3) [OF inv] p(1,3) by (auto simp: refcounts_def rf)
  ultimately show ?thesis by (simp add: memory_inv_def)
qed

section \<open>What the operations leave alone\<close>

text \<open>
  \<open>mem_frame Ds s t\<close>: between \<open>s\<close> and \<open>t\<close> only memory, page descriptors, the free list
  and the TLB log differ; page tables stay where they are; the slots above \<^const>\<open>UTOP\<close>
  are untouched; and no byte of a page that is neither directory nor page table changed.
\<close>

definition only_mem :: "kstate \<Rightarrow> kstate \<Rightarrow> bool" where
  "only_mem s t \<longleftrightarrow> t = s\<lparr>pmem := pmem t, pages := pages t, page_free_list := page_free_list t,
     invlpgs := invlpgs t\<rparr>"

definition mem_frame :: "u32 set \<Rightarrow> kstate \<Rightarrow> kstate \<Rightarrow> bool" where
  "mem_frame Ds s t \<longleftrightarrow> only_mem s t \<and>
     (\<forall>D i T. is_tab s Ds D i T \<longrightarrow> is_tab t Ds D i T) \<and>
     (\<forall>D \<in> Ds. \<forall>i < 1024. \<not> uslot i \<longrightarrow> entry t D i = entry s D i) \<and>
     (\<forall>a. plain t Ds (PGNUM a) \<longrightarrow> pmem t a = pmem s a)"

lemma only_mem_refl [simp]: "only_mem s s"
  by (simp add: only_mem_def)

lemma only_mem_trans:
  assumes "only_mem s t" "only_mem t u"
  shows "only_mem s u"
proof -
  let ?f = "\<lambda>x. x\<lparr>pmem := pmem u, pages := pages u, page_free_list := page_free_list u, invlpgs := invlpgs u\<rparr>"
  have "u = ?f t" using assms(2) by (simp add: only_mem_def)
  moreover have "?f t = ?f s" using arg_cong [OF assms(1) [unfolded only_mem_def], of ?f] by simp
  ultimately show ?thesis by (simp add: only_mem_def)
qed

lemma only_mem_fields:
  assumes "only_mem s t"
  shows "npages t = npages s" "envs t = envs s" "kern_pgdir t = kern_pgdir s" "curenv t = curenv s"
    "cpus t = cpus s" "this_cpu t = this_cpu s" "env_free_list t = env_free_list s"
proof -
  have "t = s\<lparr>pmem := pmem t, pages := pages t, page_free_list := page_free_list t, invlpgs := invlpgs t\<rparr>"
    using assms by (simp add: only_mem_def)
  then obtain a b c d where "t = s\<lparr>pmem := a, pages := b, page_free_list := c, invlpgs := d\<rparr>" by blast
  then show "npages t = npages s" "envs t = envs s" "kern_pgdir t = kern_pgdir s" "curenv t = curenv s"
    "cpus t = cpus s" "this_cpu t = this_cpu s" "env_free_list t = env_free_list s"
    by (simp_all add: curenv_def)
qed

lemma mem_frame_fields:
  assumes "mem_frame Ds s t"
  shows "npages t = npages s" "envs t = envs s" "kern_pgdir t = kern_pgdir s" "curenv t = curenv s"
    "cpus t = cpus s" "this_cpu t = this_cpu s" "env_free_list t = env_free_list s"
  using only_mem_fields [of s t] assms by (simp_all add: mem_frame_def)

lemma mem_frame_refl [simp]: "mem_frame Ds s s"
  by (simp add: mem_frame_def)

lemma mem_frame_plain: "mem_frame Ds s t \<Longrightarrow> plain t Ds p \<Longrightarrow> plain s Ds p"
  unfolding mem_frame_def plain_def by blast

lemma mem_frame_trans:
  assumes "mem_frame Ds s t" "mem_frame Ds t u"
  shows "mem_frame Ds s u"
proof -
  have "only_mem s u" using assms only_mem_trans by (simp add: mem_frame_def, blast)
  moreover have "pmem u a = pmem s a" if "plain u Ds (PGNUM a)" for a
    using that assms mem_frame_plain [OF assms(2) that] by (simp add: mem_frame_def)
  ultimately show ?thesis using assms by (simp add: mem_frame_def)
qed

lemma only_mem_updates [simp]:
  "only_mem s (set_entry p i v s)" "only_mem s (upd_page p f s)" "only_mem s (tlb_invalidate d va s)"
  "only_mem s (s\<lparr>page_free_list := x\<rparr>)" "only_mem s (alloc_state z p ps s)" "only_mem s (new_table D i p ps s)"
proof -
  show "only_mem s (set_entry p i v s)" "only_mem s (upd_page p f s)" "only_mem s (s\<lparr>page_free_list := x\<rparr>)"
    "only_mem s (alloc_state z p ps s)" "only_mem s (tlb_invalidate d va s)"
    by (auto simp: only_mem_def set_entry_def upd_page_def alloc_state_def tlb_invalidate_def invlpg_def
      split: option.split)
  then show "only_mem s (new_table D i p ps s)"
    by (simp add: only_mem_def new_table_def set_entry_def upd_page_def alloc_state_def)
qed

text \<open>Updates that leave the memory alone.\<close>

lemma mem_frame_same:
  assumes "pmem t = pmem s" "only_mem s t"
  shows "mem_frame Ds s t"
  using assms is_tab_cong [OF entry_pmem_cong [OF assms(1)]] entry_pmem_cong [OF assms(1)]
  by (simp add: mem_frame_def)

lemma set_entry_byte:
  assumes "p < 0x100000" "i < 1024" "PGNUM a \<noteq> p"
  shows "pmem (set_entry p i v s) a = pmem s a"
proof -
  have "a \<noteq> entry_pa p i + k" if "k < 4" for k
  proof -
    have "PGNUM (entry_pa p i + k) = p"
      using PGNUM_aligned_add [OF aligned4_entry_pa that] assms(1,2) by (simp add: PGNUM_entry_pa)
    then show ?thesis using assms(3) by auto
  qed
  then show ?thesis by (simp add: set_entry_def st32_other_byte)
qed

lemma set_entry_frame:
  assumes "tables_ok s Ds" "npages s \<le> 0x100000" "is_tab s Ds D i T" "j < 1024"
  shows "mem_frame Ds s (set_entry T j v s)"
proof -
  have T: "T < 0x100000" "T \<notin> Ds" using tables_okD(2,3) [OF assms(1,3)] assms(2) by auto
  have "entry (set_entry T j v s) D' k = entry s D' k" if "D' \<in> Ds" "k < 1024" for D' k
    using entry_set_entry [of j k T D'] T assms(2,4) tables_okD(1) [OF assms(1) that(1)] that by auto
  moreover have "pmem (set_entry T j v s) a = pmem s a" if "plain s Ds (PGNUM a)" for a
  proof -
    have "PGNUM a \<noteq> T" using that assms(3) by (auto simp: plain_def)
    then show ?thesis using T(1) assms(4) by (simp add: set_entry_byte)
  qed
  ultimately show ?thesis
    by (simp add: mem_frame_def is_tab_set_entry [OF assms] plain_set_entry [OF assms])
qed

lemma new_table_frame:
  assumes inv: "memory_inv s Ds pin (p # ps)" and D: "D \<in> Ds" "uslot i" "\<not> present (entry s D i)"
  shows "mem_frame Ds s (new_table D i p ps s)"
proof -
  let ?t = "new_table D i p ps s"
  note tab = is_tab_new_table [OF assms]
  note ok = memory_invD(2) [OF inv]
  have p: "p < npages s" "plain s Ds p"
    using free_not_referenced [OF inv] page_flD(1) [OF memory_invD(1) [OF inv]] by auto
  have small: "q < 0x100000" if "q < npages s" for q using inv that by (rule small_page)
  have i: "i < 1024" using D(2) by (rule order.strict_trans) simp
  have "entry ?t D' k = entry s D' k" if "D' \<in> Ds" "k < 1024" "\<not> uslot k" for D' k
    using entry_new_table [of i k p D' D] i small p tables_okD(1) [OF ok] that D(1,2) by (auto simp: plain_def)
  moreover have "pmem ?t a = pmem s a" if a: "plain ?t Ds (PGNUM a)" for a
  proof -
    have "PGNUM a \<noteq> D" "PGNUM a \<noteq> p" using a D(1,2) tab [of D i "PGNUM a"] by (auto simp: plain_def)
    moreover from this(2) have "\<not> a - push_bit 12 p < 4096"
      using page_region_iff [OF small [OF p(1)], of a] by simp
    ultimately show ?thesis
      using set_entry_byte [OF small [OF tables_okD(1) [OF ok D(1)]] i] unfolding new_table_def
      by (simp add: alloc_state_def mem_set_def page2pa_def PGSIZE_def)
  qed
  moreover have "\<not> is_tab s Ds D i T" for T using D(3) by (simp add: is_tab_def)
  ultimately show ?thesis by (auto simp: mem_frame_def tab)
qed

section \<open>The operations keep the invariant\<close>

lemma page_decref_spec:
  assumes fl: "page_fl s ps" and P: "P < npages s" "pp_ref (pages s P) \<noteq> 0"
  shows "\<exists>u. page_decref P s = Ret () u \<and> page_fl u (if pp_ref (pages s P) = 1 then P # ps else ps) \<and>
    pmem u = pmem s \<and> only_mem s u \<and> invlpgs u = invlpgs s \<and>
    (\<forall>q. pp_ref (pages u q) = (if q = P then pp_ref (pages s P) - 1 else pp_ref (pages s q)))"
proof -
  let ?v = "upd_page P (\<lambda>p. p\<lparr>pp_ref := pp_ref p - 1\<rparr>) s"
  have nP: "P \<notin> set ps" using page_flD(3) [OF fl] P(2) by auto
  have v: "page_fl ?v ps" by (rule page_fl_cong [OF fl]) (use nP in auto)
  show ?thesis
  proof (cases "pp_ref (pages s P) = 1")
    case False
    then show ?thesis using v by (simp add: page_decref_def Let_def upd_page_def [of _ _ s] only_mem_def)
  next
    case True
    let ?u = "(upd_page P (\<lambda>i. i\<lparr>pp_link := page_free_list ?v\<rparr>) ?v)\<lparr>page_free_list := Some P\<rparr>"
    have u: "page_free P ?v = Ret () ?u"
      using True v nP by (auto simp: page_free_def page_fl_def)
    then have "page_fl ?u (P # ps)" using page_free_fl [OF v nP] P(1) True by auto
    moreover have "only_mem s ?u" by (simp add: only_mem_def upd_page_def)
    ultimately show ?thesis using True u by (auto simp: page_decref_def upd_page_def)
  qed
qed

text \<open>Page table entries under the two kinds of writes.\<close>

lemma pte_is_tab:
  assumes "is_tab s Ds D (PDX va) T"
  shows "pte s D va = entry s T (PTX va)" "table s D va = T"
  using assms by (auto simp: is_tab_def pte_def table_def)

lemma pte_cong: "entry s = entry t \<Longrightarrow> pte s = pte t"
  by (intro ext) (simp add: pte_def table_def)

lemma pte_no_tab: "D \<in> Ds \<Longrightarrow> uslot (PDX va) \<Longrightarrow> (\<And>T. \<not> is_tab s Ds D (PDX va) T) \<Longrightarrow> pte s D va = 0"
  by (auto simp: is_tab_def pte_def)

lemma pte_set_entry:
  assumes ok: "tables_ok s Ds" "npages s \<le> 0x100000" and T: "is_tab s Ds D i T" "j < 1024"
    and D': "D' \<in> Ds" "uslot (PDX va')"
  shows "pte (set_entry T j v s) D' va' =
    (if D' = D \<and> PDX va' = i \<and> PTX va' = j then v else pte s D' va')"
proof (cases "\<exists>T'. is_tab s Ds D' (PDX va') T'")
  case True
  then obtain T' where T': "is_tab s Ds D' (PDX va') T'" by blast
  have "is_tab (set_entry T j v s) Ds D' (PDX va') T'" using T' is_tab_set_entry [OF ok T] by simp
  moreover have "T' = T \<longleftrightarrow> D' = D \<and> PDX va' = i"
    using T' T(1) tables_okD(4) [OF ok(1)] is_tab_unique by blast
  moreover have "T < 0x100000" "T' < 0x100000" using tables_okD(2) [OF ok(1)] T(1) T' ok(2) by (meson order.strict_trans2)+
  ultimately show ?thesis
    using T' T(2) PTX_less [of va'] by (auto simp: pte_is_tab entry_set_entry)
next
  case False
  moreover have "\<not> is_tab (set_entry T j v s) Ds D' (PDX va') T'" for T'
    using False is_tab_set_entry [OF ok T] by simp
  moreover have "\<not> (D' = D \<and> PDX va' = i)" using False T(1) by auto
  ultimately show ?thesis using pte_no_tab D' by metis
qed

lemma pte_new_table:
  assumes inv: "memory_inv s Ds pin (p # ps)" and D: "D \<in> Ds" "uslot i" "\<not> present (entry s D i)"
    and D': "D' \<in> Ds" "uslot (PDX va')"
  shows "pte (new_table D i p ps s) D' va' = pte s D' va'"
proof -
  let ?t = "new_table D i p ps s"
  note tab = is_tab_new_table [OF assms(1-4)]
  note ok = memory_invD(2) [OF inv]
  have p: "p < npages s" "plain s Ds p"
    using free_not_referenced [OF inv] page_flD(1) [OF memory_invD(1) [OF inv]] by auto
  have small: "q < 0x100000" if "q < npages s" for q using inv that by (rule small_page)
  have i: "i < 1024" using D(2) by (rule order.strict_trans) simp
  have e: "entry ?t T j = (if T = p then 0 else entry s T j)" if "T \<notin> Ds" "T < npages s" "j < 1024" for T j
    using entry_new_table [of i j p T D] i that small small [OF tables_okD(1) [OF ok D(1)]] p(1) D(1) by auto
  show ?thesis
  proof (cases "D' = D \<and> PDX va' = i")
    case True
    then have "is_tab ?t Ds D' (PDX va') p" using tab by simp
    then have "pte ?t D' va' = 0" using e [of p] p PTX_less by (simp add: pte_is_tab plain_def)
    then show ?thesis using True D(3) by (simp add: pte_def)
  next
    case False
    show ?thesis
    proof (cases "\<exists>T. is_tab s Ds D' (PDX va') T")
      case True
      then obtain T where T: "is_tab s Ds D' (PDX va') T" by blast
      moreover have "T \<noteq> p" using T p(2) by (auto simp: plain_def)
      moreover have "is_tab ?t Ds D' (PDX va') T" using T False tab by auto
      ultimately show ?thesis using e [of T] tables_okD(2,3) [OF ok T] PTX_less by (simp add: pte_is_tab)
    next
      case False2: False
      then have "\<not> is_tab ?t Ds D' (PDX va') T" for T using tab False by auto
      then show ?thesis using False2 pte_no_tab D' by metis
    qed
  qed
qed

text \<open>Walking with \<open>create\<close> set, below \<^const>\<open>UTOP\<close>.\<close>

lemma pgdir_walk_inv:
  assumes inv: "memory_inv s Ds pin ps" and D: "D \<in> Ds" "uslot (PDX va)"
  shows "(pgdir_walk (kpage D) va True s = Ret None s \<and> ps = [] \<and> \<not> present (entry s D (PDX va))) \<or>
    (\<exists>T t ps'. pgdir_walk (kpage D) va True s = Ret (Some (kpage T + 4 * PTX va)) t \<and>
      memory_inv t Ds pin ps' \<and> is_tab t Ds D (PDX va) T \<and> mem_frame Ds s t \<and> set ps' \<subseteq> set ps \<and>
      (\<forall>p. plain s Ds p \<and> p \<notin> set ps \<longrightarrow> plain t Ds p \<and> pages t p = pages s p) \<and>
      (\<forall>D' \<in> Ds. \<forall>va'. uslot (PDX va') \<longrightarrow> pte t D' va' = pte s D' va'))"
proof (cases "present (entry s D (PDX va))")
  case True
  then have tab: "is_tab s Ds D (PDX va) (PGNUM (entry s D (PDX va)))" using D by (simp add: is_tab_def)
  then show ?thesis
    using pgdir_walk_present [OF True] tables_okD(2) [OF memory_invD(2) [OF inv] tab] inv by force
next
  case False
  show ?thesis
  proof (cases ps)
    case Nil
    then show ?thesis using False pgdir_walk_nomem memory_invD(1) [OF inv] by simp
  next
    case (Cons p qs)
    note inv' = inv [unfolded Cons]
    have "D < 0x100000" using small_page [OF inv] tables_okD(1) [OF memory_invD(2) [OF inv] D(1)] by simp
    then have "pgdir_walk (kpage D) va True s = Ret (Some (kpage p + 4 * PTX va)) (new_table D (PDX va) p qs s)"
      using pgdir_walk_create [OF False memory_invD(1) [OF inv']] by simp
    moreover have "is_tab (new_table D (PDX va) p qs s) Ds D (PDX va) p"
      using is_tab_new_table [OF inv' D False] by simp
    moreover have "plain (new_table D (PDX va) p qs s) Ds q \<and> pages (new_table D (PDX va) p qs s) q = pages s q"
      if "plain s Ds q" "q \<notin> set ps" for q
      using that Cons is_tab_new_table [OF inv' D False] by (auto simp: plain_def)
    ultimately show ?thesis
      using new_table_inv [OF inv' D False] new_table_frame [OF inv' D False] pte_new_table [OF inv' D False]
        Cons by fastforce
  qed
qed

lemma PGNUM_eq_iff: "PGNUM a = PGNUM b \<longleftrightarrow> PDX a = PDX b \<and> PTX a = PTX b"
proof
  assume "PGNUM a = PGNUM b"
  moreover have "PDX x = drop_bit 10 (PGNUM x) AND 0x3FF" "PTX x = PGNUM x AND 0x3FF" for x
    by (simp_all add: PDX_def PTX_def PGNUM_def)
  ultimately show "PDX a = PDX b \<and> PTX a = PTX b" by simp
next
  assume "PDX a = PDX b \<and> PTX a = PTX b"
  moreover have "PGNUM x = push_bit 10 (PDX x) OR PTX x" for x
    by (rule bit_word_eqI) (auto simp: bit_addr bit_simps dest: bit_imp_le_length)
  ultimately show "PGNUM a = PGNUM b" by simp
qed

text \<open>Exactly the translation of one page of one address space changed, to \<open>e\<close>.\<close>

definition remapped :: "u32 set \<Rightarrow> u32 \<Rightarrow> u32 \<Rightarrow> u32 \<Rightarrow> kstate \<Rightarrow> kstate \<Rightarrow> bool" where
  "remapped Ds D va e s t \<longleftrightarrow> mem_frame Ds s t \<and> pte t D va = e \<and>
     (\<forall>D' \<in> Ds. \<forall>va'. uslot (PDX va') \<and> (D' \<noteq> D \<or> PGNUM va' \<noteq> PGNUM va) \<longrightarrow> pte t D' va' = pte s D' va')"

text \<open>
  Only the page that was mapped there may have gone to the free list, and only free pages
  may have become page tables.
\<close>

definition pool_grows :: "u32 set \<Rightarrow> u32 \<Rightarrow> u32 \<Rightarrow> u32 list \<Rightarrow> u32 list \<Rightarrow> kstate \<Rightarrow> kstate \<Rightarrow> bool" where
  "pool_grows Ds D va ps ps' s t \<longleftrightarrow>
     (\<forall>q \<in> set ps'. q \<in> set ps \<or> present (pte s D va) \<and> q = PGNUM (pte s D va)) \<and>
     (\<forall>q. plain s Ds q \<and> q \<notin> set ps \<longrightarrow> plain t Ds q)"

lemma page_remove_inv:
  assumes inv: "memory_inv s Ds pin ps" and D: "D \<in> Ds" "uslot (PDX va)"
    and pr: "present (pte s D va)"
  shows "\<exists>t ps'. page_remove (kpage D) va s = Ret () t \<and> memory_inv t Ds pin ps' \<and> remapped Ds D va 0 s t \<and>
    ps' = (if pp_ref (pages s (PGNUM (pte s D va))) = 1 then PGNUM (pte s D va) # ps else ps) \<and>
    is_tab t Ds = is_tab s Ds \<and> (\<forall>q. refs t Ds q = refs s Ds q - {RMap D (PDX va) (PTX va)}) \<and>
    (curenv s = None \<or> (\<exists>e. curenv s = Some e \<and> env_pgdir (envs s e) = kpage D) \<longrightarrow> va \<in> set (invlpgs t))"
proof -
  note ok = memory_invD(2) [OF inv] and np = memory_invD(4) [OF inv]
  define T where "T = table s D va"
  define P where "P = PGNUM (pte s D va)"
  have tab: "is_tab s Ds D (PDX va) T"
    using D pr by (auto simp: is_tab_def T_def table_def pte_def split: if_splits)
  have ptx: "PTX va < 1024" by (rule PTX_less)
  have e: "pte s D va = entry s T (PTX va)" using pte_is_tab [OF tab] by simp
  have PT: "P < npages s" "T < npages s"
    using tables_okD(5) [OF ok tab ptx] tables_okD(2) [OF ok tab] pr e P_def by auto
  have mem: "RMap D (PDX va) (PTX va) \<in> refs s Ds P"
    using tab ptx pr e by (auto simp: refs_def P_def)
  then have c: "card (refs s Ds P) > 0" by (auto simp: card_gt_0_iff)
  moreover have cnt: "unat (pp_ref (pages s q)) = card (refs s Ds q) + pin q" if "q < npages s" for q
    using memory_invD(3) [OF inv] that by (simp add: refcounts_def)
  ultimately have nz: "pp_ref (pages s P) \<noteq> 0" using PT(1) by (metis add_gr_0 less_irrefl unat_0)
  obtain u where u: "page_decref P s = Ret () u" "page_fl u (if pp_ref (pages s P) = 1 then P # ps else ps)"
    "pmem u = pmem s" "only_mem s u" "invlpgs u = invlpgs s"
    "\<And>q. pp_ref (pages u q) = (if q = P then pp_ref (pages s P) - 1 else pp_ref (pages s q))"
    using page_decref_spec [OF memory_invD(1) [OF inv] PT(1) nz] by blast
  let ?v = "set_entry T (PTX va) 0 u" and ?t = "tlb_invalidate (kpage D) va (set_entry T (PTX va) 0 u)"
  have eu: "entry u = entry s" using u(3) by (rule entry_pmem_cong)
  have nu: "npages u = npages s" using only_mem_fields(1) [OF u(4)] .
  have tabu: "is_tab u = is_tab s" using eu by (rule is_tab_cong)
  have oku: "tables_ok u Ds" "npages u \<le> 0x100000" "is_tab u Ds D (PDX va) T"
    using ok np tab tables_ok_cong [OF eu nu] nu tabu by auto
  have res: "page_remove (kpage D) va s = Ret () ?t"
    using page_remove_present [of s D va] pr PT u(1) by (simp add: P_def T_def)
  have rf: "refs ?t Ds q = refs s Ds q - {RMap D (PDX va) (PTX va)}" for q
    using refs_set_entry [OF oku ptx, of 0 q] refs_cong [OF eu] refs_cong [of ?t ?v] by simp
  have fl: "page_fl ?t (if pp_ref (pages s P) = 1 then P # ps else ps)"
    by (rule page_fl_cong [OF u(2)]) auto
  moreover have "tables_ok ?t Ds"
    using tables_ok_set_entry [OF oku ptx, of 0] tables_ok_cong [of ?t ?v] by simp
  moreover have "refcounts ?t Ds pin"
    unfolding refcounts_def
  proof (intro allI impI)
    fix q assume "q < npages ?t"
    then have q: "unat (pp_ref (pages s q)) = card (refs s Ds q) + pin q" using cnt nu by simp
    show "unat (pp_ref (pages ?t q)) = card (refs ?t Ds q) + pin q"
    proof (cases "q = P")
      case True
      have "unat (pp_ref (pages s P) - 1) = unat (pp_ref (pages s P)) - 1"
        using nz by (rule unat_minus_one)
      then show ?thesis using True q mem c u(6) rf by (simp add: card_Diff_singleton)
    next
      case False
      then have "RMap D (PDX va) (PTX va) \<notin> refs s Ds q"
        using mem refers_unique by (auto simp: refs_def simp del: refers.simps)
      then show ?thesis using False q u(6) rf by simp
    qed
  qed
  ultimately have "memory_inv ?t Ds pin (if pp_ref (pages s P) = 1 then P # ps else ps)"
    by (simp add: memory_inv_def)
  moreover have "mem_frame Ds s ?t"
    using mem_frame_trans [OF mem_frame_same [OF u(3,4)] mem_frame_trans [OF set_entry_frame [OF oku ptx] mem_frame_same]]
    by simp
  moreover have "is_tab ?t Ds = is_tab s Ds"
    using is_tab_set_entry [OF oku ptx, of 0] is_tab_cong [of ?t ?v] tabu by simp
  moreover have pt: "pte ?t D' va' = (if D' = D \<and> PGNUM va' = PGNUM va then 0 else pte s D' va')"
    if "D' \<in> Ds" "uslot (PDX va')" for D' va'
  proof -
    have "pte ?t D' va' = pte ?v D' va'" "pte u D' va' = pte s D' va'"
      using eu by (simp_all add: pte_def table_def)
    then show ?thesis using pte_set_entry [OF oku ptx that, of 0] by (auto simp: PGNUM_eq_iff)
  qed
  moreover have "curenv s = None \<or> (\<exists>e. curenv s = Some e \<and> env_pgdir (envs s e) = kpage D) \<longrightarrow> va \<in> set (invlpgs ?t)"
    using only_mem_fields [OF u(4)] by (auto simp: tlb_invalidate_def invlpg_def)
  ultimately show ?thesis using res D rf by (auto simp: P_def remapped_def)
qed

text \<open>Taking a reference in the kernel, and turning it into a mapping.\<close>

lemma incref_inv:
  assumes inv: "memory_inv s Ds pin ps" and p: "p < npages s" "p \<notin> set ps" "pp_ref (pages s p) \<noteq> 0xFFFF"
  shows "memory_inv (upd_page p (\<lambda>q. q\<lparr>pp_ref := pp_ref q + 1\<rparr>) s) Ds (pin(p := pin p + 1)) ps"
proof -
  let ?t = "upd_page p (\<lambda>q. q\<lparr>pp_ref := pp_ref q + 1\<rparr>) s"
  have "page_fl ?t ps" by (rule page_fl_cong [OF memory_invD(1) [OF inv]]) (use p in auto)
  moreover have "tables_ok ?t Ds" using memory_invD(2) [OF inv] tables_ok_cong [of ?t s] by simp
  moreover have "unat (pp_ref (pages s p) + 1) = unat (pp_ref (pages s p)) + 1"
  proof -
    have "unat (pp_ref (pages s p)) < 2 ^ 16" by (rule order.strict_trans2 [OF unsigned_less]) simp
    moreover have "unat (pp_ref (pages s p)) \<noteq> 0xFFFF"
      using p(3) by (simp add: word_unat_eq_iff)
    ultimately show ?thesis by (simp add: unat_word_ariths)
  qed
  then have "refcounts ?t Ds (pin(p := pin p + 1))"
    using memory_invD(3) [OF inv] refs_cong [of ?t s] by (auto simp: refcounts_def)
  ultimately show ?thesis by (simp add: memory_inv_def)
qed

lemma link_inv:
  assumes inv: "memory_inv s Ds (pin(p := pin p + 1)) ps"
    and T: "is_tab s Ds D i T" "j < 1024" "\<not> present (entry s T j)"
    and p: "plain s Ds p" "p < npages s" "perm < 4096"
  shows "memory_inv (set_entry T j (mkpte p perm) s) Ds pin ps"
proof -
  let ?t = "set_entry T j (mkpte p perm) s"
  note ok = memory_invD(2,4) [OF inv]
  have v: "PGNUM (mkpte p perm) = p" "present (mkpte p perm)"
    using mkpte_simps [OF small_page [OF inv p(2)] p(3)] by simp_all
  have "page_fl ?t ps" by (rule page_fl_cong [OF memory_invD(1) [OF inv]]) auto
  moreover have "tables_ok ?t Ds" using tables_ok_set_entry [OF ok T(1,2)] v p by simp
  moreover have "RMap D i j \<notin> refs s Ds q" for q
    using T(1,3) by (auto simp: refs_def is_tab_def)
  then have "refcounts ?t Ds pin"
    using memory_invD(3) [OF inv] refs_set_entry [OF ok T(1,2), of "mkpte p perm"] v
    by (auto simp: refcounts_def)
  ultimately show ?thesis by (simp add: memory_inv_def)
qed

lemma link_remapped:
  assumes w: "memory_inv w Ds (pin(p := pin p + 1)) ps" "is_tab w Ds D (PDX va) T"
      "\<not> present (entry w T (PTX va))" "plain w Ds p" "p < npages w" "perm < 4096"
    and D: "D \<in> Ds" "uslot (PDX va)" and fr: "mem_frame Ds s w"
      "\<forall>D' \<in> Ds. \<forall>va'. uslot (PDX va') \<and> (D' \<noteq> D \<or> PGNUM va' \<noteq> PGNUM va) \<longrightarrow> pte w D' va' = pte s D' va'"
  shows "memory_inv (set_entry T (PTX va) (mkpte p perm) w) Ds pin ps \<and>
    remapped Ds D va (mkpte p perm) s (set_entry T (PTX va) (mkpte p perm) w)"
proof
  let ?t = "set_entry T (PTX va) (mkpte p perm) w"
  have j: "PTX va < 1024" by (rule PTX_less)
  note ok = memory_invD(2,4) [OF w(1)]
  show "memory_inv ?t Ds pin ps" using link_inv [OF w(1,2) j w(3-6)] .
  have "pte ?t D' va' = (if D' = D \<and> PGNUM va' = PGNUM va then mkpte p perm else pte s D' va')"
    if "D' \<in> Ds" "uslot (PDX va')" for D' va'
    using pte_set_entry [OF ok w(2) j that] fr(2) that by (auto simp: PGNUM_eq_iff)
  then show "remapped Ds D va (mkpte p perm) s ?t"
    using mem_frame_trans [OF fr(1) set_entry_frame [OF ok w(2) j]] D by (simp add: remapped_def)
qed

lemma page_insert_inv:
  assumes inv: "memory_inv s Ds pin ps" and D: "D \<in> Ds" "uslot (PDX va)"
    and pp: "pp < npages s" "pp \<notin> set ps" "plain s Ds pp" "pp_ref (pages s pp) \<noteq> 0xFFFF" "perm < 4096"
  shows "(page_insert (kpage D) pp va perm s = Ret (- E_NO_MEM) s \<and> ps = [] \<and> \<not> present (entry s D (PDX va))) \<or>
    (\<exists>t ps'. page_insert (kpage D) pp va perm s = Ret 0 t \<and> memory_inv t Ds pin ps' \<and>
      remapped Ds D va (mkpte pp perm) s t \<and> pool_grows Ds D va ps ps' s t)"
proof (rule disjE [OF pgdir_walk_inv [OF inv D]], goal_cases)
  case 1
  then show ?thesis by (simp add: page_insert_def)
next
  case 2
  then obtain T u ps1 where u: "pgdir_walk (kpage D) va True s = Ret (Some (kpage T + 4 * PTX va)) u"
    "memory_inv u Ds pin ps1" "is_tab u Ds D (PDX va) T" "mem_frame Ds s u" "set ps1 \<subseteq> set ps"
    "\<forall>p. plain s Ds p \<and> p \<notin> set ps \<longrightarrow> plain u Ds p \<and> pages u p = pages s p"
    "\<forall>D' \<in> Ds. \<forall>va'. uslot (PDX va') \<longrightarrow> pte u D' va' = pte s D' va'" by blast
  let ?j = "PTX va" and ?pin = "pin(pp := pin pp + 1)"
  let ?v = "upd_page pp (\<lambda>q. q\<lparr>pp_ref := pp_ref q + 1\<rparr>) u"
  have j: "?j < 1024" by (rule PTX_less)
  have eu: "entry ?v = entry u" by simp
  have npu: "npages u = npages s" using mem_frame_fields(1) [OF u(4)] .
  have ppu: "plain u Ds pp" "pages u pp = pages s pp" "pp \<notin> set ps1" using u(5,6) pp(2,3) by auto
  have v: "memory_inv ?v Ds ?pin ps1" using incref_inv [OF u(2)] pp npu ppu by simp
  have tabv: "is_tab ?v Ds D (PDX va) T" and plv: "plain ?v Ds pp"
    using u(3) is_tab_cong [OF eu] ppu(1) plain_cong [OF eu] by simp_all
  have ptv: "pte ?v D' va' = pte s D' va'" if "D' \<in> Ds" "uslot (PDX va')" for D' va'
    using u(7) that pte_cong [OF eu] by simp
  have frv: "mem_frame Ds s ?v"
    by (rule mem_frame_trans [OF u(4) mem_frame_same]) simp_all
  have fin: "memory_inv (set_entry T ?j (mkpte pp perm) w) Ds pin ps' \<and>
      remapped Ds D va (mkpte pp perm) s (set_entry T ?j (mkpte pp perm) w)"
    if "memory_inv w Ds ?pin ps'" "is_tab w Ds D (PDX va) T" "\<not> present (entry w T ?j)" "plain w Ds pp"
      "mem_frame Ds s w" "\<forall>D' \<in> Ds. \<forall>va'. uslot (PDX va') \<and> (D' \<noteq> D \<or> PGNUM va' \<noteq> PGNUM va) \<longrightarrow> pte w D' va' = pte s D' va'"
    for w ps' using link_remapped [OF that(1-4) _ pp(5) D that(5,6)] pp(1) mem_frame_fields(1) [OF that(5)] by simp
  have pteT: "entry u T ?j = pte s D va" using pte_is_tab(1) [OF u(3)] u(7) D by simp
  show ?thesis
  proof (cases "present (pte s D va)")
    case False
    then have "page_insert (kpage D) pp va perm s = Ret 0 (set_entry T ?j (mkpte pp perm) ?v)"
      using u(1) pteT by (simp add: page_insert_def mkpte_def)
    moreover have "pool_grows Ds D va ps ps1 s (set_entry T ?j (mkpte pp perm) ?v)"
      using u(5,6) plain_cong [OF eu] plain_set_entry [OF memory_invD(2,4) [OF v] tabv j]
      by (auto simp: pool_grows_def)
    ultimately show ?thesis using fin [OF v tabv _ plv frv] ptv False pteT by auto
  next
    case True
    then have "present (pte ?v D va)" using ptv D by simp
    from page_remove_inv [OF v D this] obtain w ps2 where w: "page_remove (kpage D) va ?v = Ret () w"
      "memory_inv w Ds ?pin ps2" "remapped Ds D va 0 ?v w" "is_tab w Ds = is_tab ?v Ds"
      "ps2 = (if pp_ref (pages ?v (PGNUM (pte ?v D va))) = 1 then PGNUM (pte ?v D va) # ps1 else ps1)" by blast
    have ps2: "set ps2 \<subseteq> insert (PGNUM (pte ?v D va)) (set ps1)" using w(5) by (auto split: if_splits)
    have tabw: "is_tab w Ds D (PDX va) T" using w(4) tabv by simp
    have "entry w T ?j = 0" using pte_is_tab(1) [OF tabw] w(3) by (simp add: remapped_def)
    moreover from this have "page_insert (kpage D) pp va perm s = Ret 0 (set_entry T ?j (mkpte pp perm) w)"
      using u(1) pteT True w(1) by (simp add: page_insert_def mkpte_def)
    moreover have "plain w Ds pp" using plv w(4) by (simp add: plain_def)
    moreover have "mem_frame Ds s w" using mem_frame_trans [OF frv] w(3) by (simp add: remapped_def)
    moreover have "pool_grows Ds D va ps ps2 s (set_entry T ?j (mkpte pp perm) w)"
    proof -
      have "plain (set_entry T ?j (mkpte pp perm) w) Ds = plain u Ds"
        using plain_set_entry [OF memory_invD(2,4) [OF w(2)] tabw j] w(4) is_tab_cong [OF eu]
        by (auto simp: plain_def)
      then show ?thesis using u(5,6) ps2 True ptv D by (auto simp: pool_grows_def)
    qed
    ultimately show ?thesis using fin [OF w(2) tabw] w(3) ptv by (auto simp: remapped_def)
  qed
qed

lemma memory_inv_cong:
  assumes "pmem t = pmem s" "pages t = pages s" "npages t = npages s" "page_free_list t = page_free_list s"
  shows "memory_inv t = memory_inv s"
proof -
  note e = entry_pmem_cong [OF assms(1)]
  show ?thesis
    by (intro ext) (simp add: memory_inv_def page_fl_def refcounts_def assms(2-4) refs_cong [OF e] tables_ok_cong [OF e assms(3)])
qed

section \<open>Writes to plain pages\<close>

text \<open>
  Whatever is stored in a page that is neither directory nor page table, the translations,
  the tables and the counts stay as they are.
\<close>

lemma entry_other_page:
  assumes "\<And>a. PGNUM a \<noteq> p \<Longrightarrow> pmem t a = pmem s a" "q \<noteq> p" "q < 0x100000" "i < 1024"
  shows "entry t q i = entry s q i"
  unfolding entry_def
proof (rule ld32_cong)
  fix k :: u32 assume "k < 4"
  then have "PGNUM (entry_pa q i + k) = q"
    using PGNUM_aligned_add [OF aligned4_entry_pa [OF assms(4)]] PGNUM_entry_pa [OF assms(4,3)] by simp
  then show "pmem t (entry_pa q i + k) = pmem s (entry_pa q i + k)" using assms(1,2) by simp
qed

lemma plain_write:
  assumes inv: "memory_inv s Ds pin ps" and p: "plain s Ds p"
    and t: "\<And>a. PGNUM a \<noteq> p \<Longrightarrow> pmem t a = pmem s a" "pages t = pages s" "npages t = npages s"
      "page_free_list t = page_free_list s"
  shows "memory_inv t Ds pin ps" "is_tab t Ds = is_tab s Ds" "refs t Ds = refs s Ds"
    "\<And>D i. D \<in> Ds \<Longrightarrow> i < 1024 \<Longrightarrow> entry t D i = entry s D i"
    "\<And>D va. D \<in> Ds \<Longrightarrow> uslot (PDX va) \<Longrightarrow> pte t D va = pte s D va"
proof -
  note ok = memory_invD(2) [OF inv]
  have e: "entry t q i = entry s q i" if "q < npages s" "i < 1024" "q \<noteq> p" for q i
    using entry_other_page [OF t(1)] small_page [OF inv that(1)] that by blast
  have dir: "D \<noteq> p" "D < npages s" if "D \<in> Ds" for D using that p tables_okD(1) [OF ok] by (auto simp: plain_def)
  show ed: "entry t D i = entry s D i" if "D \<in> Ds" "i < 1024" for D i using e dir that by blast
  show tab: "is_tab t Ds = is_tab s Ds"
  proof (intro ext)
    fix D i T
    have "i < 1024" if "uslot i" using that by (rule order.strict_trans) simp
    then show "is_tab t Ds D i T = is_tab s Ds D i T" using ed by (auto simp: is_tab_def)
  qed
  have tabp: "T \<noteq> p" "T < npages s" if "is_tab s Ds D i T" for D i T
    using that p tables_okD(2) [OF ok] by (auto simp: plain_def)
  have rr: "refers t Ds r q = refers s Ds r q" for r q
  proof (cases r)
    case (RMap D i j)
    then show ?thesis using tab tabp e by auto
  qed (simp_all add: tab)
  then show rf: "refs t Ds = refs s Ds" by (intro ext) (simp add: refs_def)
  have "page_fl t ps" by (rule page_fl_cong [OF memory_invD(1) [OF inv]]) (simp_all add: t)
  moreover have "tables_ok t Ds"
    using ok rr t(3) unfolding tables_ok_def plain_def by (simp add: tab del: refers.simps)
  ultimately show "memory_inv t Ds pin ps"
    using memory_invD(3) [OF inv] rf t by (simp add: memory_inv_def refcounts_def)
  show "pte t D va = pte s D va" if "D \<in> Ds" "uslot (PDX va)" for D va
  proof (cases "\<exists>T. is_tab s Ds D (PDX va) T")
    case True
    then obtain T where "is_tab s Ds D (PDX va) T" by blast
    then show ?thesis using tab tabp e PTX_less by (metis pte_is_tab(1))
  next
    case False
    then show ?thesis using pte_no_tab [OF that] tab by metis
  qed
qed

section \<open>Allocating pages\<close>

lemma alloc_state_byte:
  assumes "p < 0x100000" "PGNUM a \<noteq> p"
  shows "pmem (alloc_state z p ps s) a = pmem s a"
  using page_region_iff [OF assms(1), of a] assms(2)
  by (simp add: alloc_state_def mem_set_def page2pa_def PGSIZE_def)

lemma alloc_state_fields [simp]:
  "npages (alloc_state z p ps s) = npages s" "pp_ref (pages (alloc_state z p ps s) q) = pp_ref (pages s q)"
  "envs (alloc_state z p ps s) = envs s" "curenv (alloc_state z p ps s) = curenv s"
  "kern_pgdir (alloc_state z p ps s) = kern_pgdir s" "env_free_list (alloc_state z p ps s) = env_free_list s"
  by (simp_all add: alloc_state_def upd_page_def curenv_def)

lemma page_alloc_inv:
  assumes inv: "memory_inv s Ds pin (p # ps)"
  shows "memory_inv (alloc_state z p ps s) Ds pin ps" "plain (alloc_state z p ps s) Ds = plain s Ds" "plain s Ds p"
    "p < npages s" "p \<notin> set ps" "pp_ref (pages s p) = 0" "refs (alloc_state z p ps s) Ds = refs s Ds"
    "\<And>D va. D \<in> Ds \<Longrightarrow> uslot (PDX va) \<Longrightarrow> pte (alloc_state z p ps s) D va = pte s D va"
    "\<And>D i. D \<in> Ds \<Longrightarrow> i < 1024 \<Longrightarrow> entry (alloc_state z p ps s) D i = entry s D i"
proof -
  let ?t = "alloc_state z p ps s" and ?u = "s\<lparr>pmem := pmem (alloc_state z p ps s)\<rparr>"
  note fl = memory_invD(1) [OF inv]
  show pl: "plain s Ds p" using free_not_referenced(3) [OF inv, of p] by simp
  show p: "p < npages s" "p \<notin> set ps" "pp_ref (pages s p) = 0" using page_flD(1,3) [OF fl] fl by (auto simp: page_fl_def)
  have byte: "pmem ?u a = pmem s a" if "PGNUM a \<noteq> p" for a
    using alloc_state_byte small_page [OF inv p(1)] that by simp
  note w = plain_write [of s Ds pin "p # ps" p ?u, OF inv pl byte, simplified]
  have eq: "entry ?t = entry ?u" by (rule entry_pmem_cong) simp
  show rf: "refs ?t Ds = refs s Ds" using w(3) refs_cong [OF eq] by simp
  show "plain ?t Ds = plain s Ds" using w(2) plain_cong [OF eq] by (auto simp: plain_def)
  have "tables_ok ?t Ds" using memory_invD(2) [OF w(1)] tables_ok_cong [OF eq] by simp
  then show "memory_inv ?t Ds pin ps"
    using memory_invD(3) [OF inv] alloc_state_fl [OF fl] rf by (simp add: memory_inv_def refcounts_def)
  show "entry ?t D i = entry s D i" if "D \<in> Ds" "i < 1024" for D i using w(4) that eq by simp
  show "pte ?t D va = pte s D va" if "D \<in> Ds" "uslot (PDX va)" for D va
    using w(5) [OF that] pte_cong [OF eq] by simp
qed

end
