(* ===== verification/Addrspace.thy ===== *)
theory Addrspace
  imports Refcount
begin

text \<open>
  Creating and destroying address spaces under the reference-count invariant: adding a
  directory, releasing an empty page table, and releasing an empty directory.
\<close>

section \<open>Pages without references\<close>

lemma PDX_PGADDR0: "i < 1024 \<Longrightarrow> j < 1024 \<Longrightarrow> PDX (PGADDR i j 0) = i \<and> PTX (PGADDR i j 0) = j"
  by (simp add: PDX_PGADDR PTX_PGADDR)

lemma refs_empty_iff:
  "refs s Ds q = {} \<longleftrightarrow> plain s Ds q \<and>
     (\<forall>D \<in> Ds. \<forall>va. uslot (PDX va) \<and> present (pte s D va) \<longrightarrow> PGNUM (pte s D va) \<noteq> q)" (is "?L \<longleftrightarrow> ?R")
proof
  assume L: ?L
  then have none: "\<not> refers s Ds r q" for r by (auto simp: refs_def)
  have "plain s Ds q" using none [of "RDir q"] none [of "RTab _ _"] by (auto simp: plain_def)
  moreover have "PGNUM (pte s D va) \<noteq> q" if "D \<in> Ds" "uslot (PDX va)" "present (pte s D va)" for D va
  proof -
    have "is_tab s Ds D (PDX va) (table s D va)" "pte s D va = entry s (table s D va) (PTX va)"
      using that by (auto simp: is_tab_def pte_def table_def split: if_splits)
    then show ?thesis using none [of "RMap D (PDX va) (PTX va)"] that PTX_less [of va] by auto
  qed
  ultimately show ?R by blast
next
  assume R: ?R
  have "\<not> refers s Ds r q" for r
  proof (cases r)
    case (RMap D i j)
    show ?thesis
    proof
      assume "refers s Ds r q"
      then obtain T where T: "is_tab s Ds D i T" "j < 1024" "present (entry s T j)" "PGNUM (entry s T j) = q"
        using RMap by auto
      let ?va = "PGADDR i j 0"
      have va: "PDX ?va = i" "PTX ?va = j" using PDX_PGADDR0 is_tab_bounds [OF T(1)] T(2) by auto
      have e: "pte s D ?va = entry s T j" using pte_is_tab(1) [of s Ds D ?va T] T(1) va by simp
      have "D \<in> Ds" "uslot (PDX ?va)" using T(1) va by (simp_all add: is_tab_def)
      moreover have "present (pte s D ?va)" using e T(3) by simp
      ultimately have "PGNUM (pte s D ?va) \<noteq> q" using R by blast
      then show False using e T(4) by simp
    qed
  qed (use R in \<open>auto simp: plain_def\<close>)
  then show ?L by (auto simp: refs_def)
qed

text \<open>Pages that belong to the kernel for good: referenced by no address space and never free.\<close>

definition reserved :: "kstate \<Rightarrow> u32 set \<Rightarrow> u32 set \<Rightarrow> u32 list \<Rightarrow> bool" where
  "reserved s Ds R ps \<longleftrightarrow> (\<forall>q \<in> R. refs s Ds q = {} \<and> q \<notin> set ps)"

lemma reserved_remapped:
  assumes "reserved s Ds R ps" "remapped Ds D va e s t" "pool_grows Ds D va ps ps' s t" "D \<in> Ds" "uslot (PDX va)"
    and e: "present e \<Longrightarrow> PGNUM e \<notin> R"
  shows "reserved t Ds R ps'"
  unfolding reserved_def
proof
  fix q assume q: "q \<in> R"
  have s: "plain s Ds q" "\<And>D va. D \<in> Ds \<Longrightarrow> uslot (PDX va) \<Longrightarrow> present (pte s D va) \<Longrightarrow> PGNUM (pte s D va) \<noteq> q" "q \<notin> set ps"
    using assms(1) q by (auto simp: reserved_def refs_empty_iff)
  have "plain t Ds q" using assms(3) s by (auto simp: pool_grows_def)
  moreover have "PGNUM (pte t D' va') \<noteq> q" if D': "D' \<in> Ds" "uslot (PDX va')" "present (pte t D' va')" for D' va'
  proof (cases "D' = D \<and> PGNUM va' = PGNUM va")
    case True
    then have "pte t D' va' = e" using assms(2) by (auto simp: remapped_def pte_def table_def PGNUM_eq_iff)
    then show ?thesis using e q D'(3) by auto
  next
    case False
    then show ?thesis using assms(2) s(2) D' by (auto simp: remapped_def)
  qed
  ultimately have "refs t Ds q = {}" by (simp add: refs_empty_iff)
  moreover have "q \<notin> set ps'" using assms(3,4,5) s by (auto simp: pool_grows_def)
  ultimately show "refs t Ds q = {} \<and> q \<notin> set ps'" by blast
qed

section \<open>Adding a directory\<close>

lemma add_dir:
  assumes inv: "memory_inv s Ds (pin(p := pin p + 1)) ps" and p: "refs s Ds p = {}" "p < npages s"
    and empty: "\<And>i. uslot i \<Longrightarrow> \<not> present (entry s p i)"
  shows "memory_inv s (insert p Ds) pin ps" "is_tab s (insert p Ds) = is_tab s Ds"
    "refs s (insert p Ds) q = (if q = p then {RDir p} else refs s Ds q)"
proof -
  note ok = memory_invD(2) [OF inv]
  have pl: "plain s Ds p" using p(1) by (simp add: refs_empty_iff)
  show tab: "is_tab s (insert p Ds) = is_tab s Ds"
    using empty pl by (intro ext) (auto simp: is_tab_def plain_def)
  have "refers s (insert p Ds) r q = (refers s Ds r q \<or> r = RDir p \<and> q = p)" for r q
    by (cases r) (auto simp: tab)
  then show rf: "refs s (insert p Ds) q = (if q = p then {RDir p} else refs s Ds q)" for q
    using p(1) by (auto simp: refs_def)
  have "q < npages s \<and> plain s (insert p Ds) q" if "refers s (insert p Ds) (RMap D i j) q" for D i j q
  proof -
    have r: "refers s Ds (RMap D i j) q" using that tab by simp
    then have "q < npages s \<and> plain s Ds q" using ok unfolding tables_ok_def by blast
    moreover have "q \<noteq> p" using r p(1) by (auto simp: refs_def simp del: refers.simps)
    ultimately show ?thesis by (simp add: plain_def tab)
  qed
  moreover have "\<not> is_tab s Ds D i p" for D i using pl by (simp add: plain_def)
  ultimately have "tables_ok s (insert p Ds)"
    using ok p(2) unfolding tables_ok_def by (auto simp: tab simp del: refers.simps)
  moreover have "refcounts s (insert p Ds) pin"
    using memory_invD(3) [OF inv] p by (auto simp: refcounts_def rf)
  ultimately show "memory_inv s (insert p Ds) pin ps" using inv by (simp add: memory_inv_def)
qed

section \<open>Releasing a page table\<close>

text \<open>What happens to the other address spaces and to the data while \<open>D\<close> is taken down.\<close>

definition space_frame :: "u32 set \<Rightarrow> u32 \<Rightarrow> kstate \<Rightarrow> kstate \<Rightarrow> bool" where
  "space_frame Ds D s t \<longleftrightarrow> only_mem s t \<and>
     (\<forall>D' \<in> Ds. D' \<noteq> D \<longrightarrow> (\<forall>va. uslot (PDX va) \<longrightarrow> pte t D' va = pte s D' va)) \<and>
     (\<forall>D' \<in> Ds. \<forall>i < 1024. \<not> uslot i \<longrightarrow> entry t D' i = entry s D' i) \<and>
     (\<forall>q. plain s Ds q \<longrightarrow> plain t Ds q) \<and>
     (\<forall>a. plain s Ds (PGNUM a) \<longrightarrow> pmem t a = pmem s a)"

lemma space_frame_refl [simp]: "space_frame Ds D s s"
  by (simp add: space_frame_def)

lemma space_frame_trans:
  assumes "space_frame Ds D s t" "space_frame Ds D t u"
  shows "space_frame Ds D s u"
proof -
  have "only_mem s u" using assms only_mem_trans [of s t u] by (simp add: space_frame_def)
  then show ?thesis using assms by (simp add: space_frame_def)
qed

lemma remapped_space_frame:
  assumes "remapped Ds D va e s t" "is_tab t Ds = is_tab s Ds"
  shows "space_frame Ds D s t"
proof -
  have "plain t Ds = plain s Ds" using assms(2) by (auto simp: plain_def)
  then show ?thesis using assms(1) by (auto simp: remapped_def mem_frame_def space_frame_def)
qed

lemma clear_pde:
  assumes inv: "memory_inv s Ds pin ps" and T: "is_tab s Ds D i T" "\<And>j. j < 1024 \<Longrightarrow> \<not> present (entry s T j)"
  shows "is_tab (set_entry D i 0 s) Ds D' i' T' \<longleftrightarrow> is_tab s Ds D' i' T' \<and> \<not> (D' = D \<and> i' = i)"
    "refs (set_entry D i 0 s) Ds q = refs s Ds q - {RTab D i}"
    "tables_ok (set_entry D i 0 s) Ds"
    "space_frame Ds D s (set_entry D i 0 s)"
proof -
  let ?t = "set_entry D i 0 s"
  note ok = memory_invD(2) [OF inv]
  have small: "q < 0x100000" if "q < npages s" for q using inv that by (rule small_page)
  have D: "D \<in> Ds" "D < 0x100000" "i < 1024" "uslot i"
    using T(1) tables_okD(1) [OF ok] small is_tab_bounds [OF T(1)] by (auto simp: is_tab_def)
  have e: "entry ?t q k = (if q = D \<and> k = i then 0 else entry s q k)" if "q < npages s" "k < 1024" for q k
    using entry_set_entry [of i k D q 0 s] D small that by auto
  have tab: "is_tab ?t Ds D' i' T' \<longleftrightarrow> is_tab s Ds D' i' T' \<and> \<not> (D' = D \<and> i' = i)" for D' i' T'
  proof (cases "D' \<in> Ds \<and> uslot i'")
    case True
    then have "D' < npages s" "i' < 1024" using tables_okD(1) [OF ok] by (auto intro: order.strict_trans)
    then show ?thesis using e True by (auto simp: is_tab_def)
  qed (auto simp: is_tab_def)
  then show "is_tab ?t Ds D' i' T' \<longleftrightarrow> is_tab s Ds D' i' T' \<and> \<not> (D' = D \<and> i' = i)" .
  have et: "entry ?t T' k = entry s T' k" if "is_tab s Ds D' i' T'" "k < 1024" for D' i' T' k
    using e [of T' k] tables_okD(2,3) [OF ok that(1)] that(2) D(1) by auto
  have "refers ?t Ds r q \<longleftrightarrow> refers s Ds r q \<and> r \<noteq> RTab D i" for r q
  proof (cases r)
    case (RMap D' i' j)
    have "(is_tab ?t Ds D' i' T' \<and> j < 1024 \<and> present (entry ?t T' j) \<and> PGNUM (entry ?t T' j) = q) =
      (is_tab s Ds D' i' T' \<and> j < 1024 \<and> present (entry s T' j) \<and> PGNUM (entry s T' j) = q)" for T'
    proof (cases "is_tab s Ds D' i' T' \<and> j < 1024")
      case True
      moreover have "D' = D \<and> i' = i \<Longrightarrow> \<not> present (entry s T' j)"
        using T(2) [of j] True is_tab_unique [OF T(1), of T'] by blast
      ultimately show ?thesis using tab [of D' i' T'] et [of D' i' T' j] by auto
    qed (use tab in auto)
    then show ?thesis using RMap by simp
  qed (use tab in auto)
  then show rf: "refs ?t Ds q = refs s Ds q - {RTab D i}" for q by (auto simp: refs_def)
  have pl: "plain ?t Ds q" if "plain s Ds q" for q using that tab by (simp add: plain_def)
  have "q < npages s \<and> plain ?t Ds q" if "refers ?t Ds (RMap D' i' j) q" for D' i' j q
  proof -
    have "RMap D' i' j \<in> refs ?t Ds q" using that by (simp add: refs_def del: refers.simps)
    then have "refers s Ds (RMap D' i' j) q" unfolding rf by (simp add: refs_def)
    then have "q < npages s \<and> plain s Ds q" using ok unfolding tables_ok_def by blast
    then show ?thesis using pl by simp
  qed
  then show "tables_ok ?t Ds"
    using ok unfolding tables_ok_def by (simp add: tab del: refers.simps) blast
  have "pte ?t D' va = pte s D' va" if "D' \<in> Ds" "uslot (PDX va)" "D' \<noteq> D" for D' va
  proof (cases "\<exists>T'. is_tab s Ds D' (PDX va) T'")
    case True
    then obtain T' where "is_tab s Ds D' (PDX va) T'" by blast
    then show ?thesis using tab et PTX_less that(3) by (metis pte_is_tab(1))
  next
    case False
    then show ?thesis using pte_no_tab [OF that(1,2)] tab by metis
  qed
  moreover have "pmem ?t a = pmem s a" if "plain s Ds (PGNUM a)" for a
    using set_entry_byte D that by (metis plain_def)
  moreover have "entry ?t D' k = entry s D' k" if "D' \<in> Ds" "k < 1024" "\<not> uslot k" for D' k
    using e [OF tables_okD(1) [OF ok that(1)] that(2)] that(3) D(4) by auto
  ultimately show "space_frame Ds D s ?t" using pl by (simp add: space_frame_def)
qed

text \<open>Giving up a reference the kernel holds.\<close>

lemma decref_inv:
  assumes inv: "memory_inv s Ds (pin(p := pin p + 1)) ps" and p: "p < npages s"
  shows "\<exists>t. page_decref p s = Ret () t \<and> memory_inv t Ds pin (if pp_ref (pages s p) = 1 then p # ps else ps) \<and>
    pmem t = pmem s \<and> only_mem s t"
proof -
  have cnt: "unat (pp_ref (pages s q)) = card (refs s Ds q) + (pin(p := pin p + 1)) q" if "q < npages s" for q
    using memory_invD(3) [OF inv] that by (simp add: refcounts_def)
  then have nz: "pp_ref (pages s p) \<noteq> 0" using p by fastforce
  obtain u where u: "page_decref p s = Ret () u" "page_fl u (if pp_ref (pages s p) = 1 then p # ps else ps)"
    "pmem u = pmem s" "only_mem s u"
    "\<And>q. pp_ref (pages u q) = (if q = p then pp_ref (pages s p) - 1 else pp_ref (pages s q))"
    using page_decref_spec [OF memory_invD(1) [OF inv] p nz] by blast
  have eu: "entry u = entry s" using u(3) by (rule entry_pmem_cong)
  have nu: "npages u = npages s" using only_mem_fields(1) [OF u(4)] .
  have "unat (pp_ref (pages s p) - 1) = unat (pp_ref (pages s p)) - 1" using nz by (rule unat_minus_one)
  then have "refcounts u Ds pin"
    using cnt p nu u(5) refs_cong [OF eu] by (auto simp: refcounts_def)
  moreover have "tables_ok u Ds" using memory_invD(2) [OF inv] tables_ok_cong [OF eu nu] by simp
  ultimately have "memory_inv u Ds pin (if pp_ref (pages s p) = 1 then p # ps else ps)"
    using u(2) by (simp add: memory_inv_def)
  then show ?thesis using u by blast
qed

lemma same_space_frame:
  assumes "pmem t = pmem s" "only_mem s t"
  shows "space_frame Ds D s t"
proof -
  have e: "entry t = entry s" using assms(1) by (rule entry_pmem_cong)
  then show ?thesis using assms pte_cong [OF e] plain_cong [OF e] by (simp add: space_frame_def)
qed

lemma free_table_inv:
  assumes inv: "memory_inv s Ds pin ps" and T: "is_tab s Ds D i T" "\<And>j. j < 1024 \<Longrightarrow> \<not> present (entry s T j)"
  shows "\<exists>t ps'. page_decref T (set_entry D i 0 s) = Ret () t \<and> memory_inv t Ds pin ps' \<and> space_frame Ds D s t \<and>
    set ps' \<subseteq> insert T (set ps) \<and> (\<forall>q. refs t Ds q \<subseteq> refs s Ds q) \<and>
    (\<forall>D' i' T'. is_tab t Ds D' i' T' \<longleftrightarrow> is_tab s Ds D' i' T' \<and> \<not> (D' = D \<and> i' = i))"
proof -
  let ?u = "set_entry D i 0 s"
  let ?ps = "if pp_ref (pages ?u T) = 1 then T # ps else ps"
  note c = clear_pde [OF inv T]
  have rt: "RTab D i \<in> refs s Ds q \<longleftrightarrow> q = T" for q using T(1) is_tab_unique by (auto simp: refs_def)
  have "page_fl ?u ps" by (rule page_fl_cong [OF memory_invD(1) [OF inv]]) auto
  moreover have "card (refs s Ds T) = card (refs s Ds T - {RTab D i}) + 1"
    using rt by (metis Suc_eq_plus1 card_Suc_Diff1 finite_refs)
  then have "refcounts ?u Ds (pin(T := pin T + 1))"
    using memory_invD(3) [OF inv] rt by (auto simp: refcounts_def c(2))
  ultimately have u: "memory_inv ?u Ds (pin(T := pin T + 1)) ps" using c(3) by (simp add: memory_inv_def)
  have "T < npages ?u" using tables_okD(2) [OF memory_invD(2) [OF inv] T(1)] by simp
  from decref_inv [OF u this] obtain t where t: "page_decref T ?u = Ret () t"
    "memory_inv t Ds pin ?ps" "pmem t = pmem ?u" "only_mem ?u t" by blast
  have e: "entry t = entry ?u" using t(3) by (rule entry_pmem_cong)
  have fr: "space_frame Ds D s t" using space_frame_trans [OF c(4) same_space_frame [OF t(3,4)]] .
  have rf: "\<forall>q. refs t Ds q \<subseteq> refs s Ds q" using c(2) refs_cong [OF e] by auto
  have tab: "\<forall>D' i' T'. is_tab t Ds D' i' T' \<longleftrightarrow> is_tab s Ds D' i' T' \<and> \<not> (D' = D \<and> i' = i)"
    using c(1) is_tab_cong [OF e] by simp
  have "set ?ps \<subseteq> insert T (set ps)" by auto
  then show ?thesis using t(1,2) fr rf tab by (intro exI conjI)
qed

section \<open>Releasing a directory\<close>

lemma drop_dir:
  assumes inv: "memory_inv s Ds pin ps" and D: "D \<in> Ds" "\<And>i. uslot i \<Longrightarrow> \<not> present (entry s D i)"
  shows "memory_inv s (Ds - {D}) (pin(D := pin D + 1)) ps" "is_tab s (Ds - {D}) = is_tab s Ds"
    "refs s (Ds - {D}) q = refs s Ds q - {RDir D}"
proof -
  note ok = memory_invD(2) [OF inv]
  show tab: "is_tab s (Ds - {D}) = is_tab s Ds"
    using D(2) by (intro ext) (auto simp: is_tab_def)
  have rr: "refers s (Ds - {D}) r q \<longleftrightarrow> refers s Ds r q \<and> r \<noteq> RDir D" for r q
    by (cases r) (auto simp: tab)
  then show rf: "refs s (Ds - {D}) q = refs s Ds q - {RDir D}" for q by (auto simp: refs_def)
  have pl: "plain s (Ds - {D}) q" if "plain s Ds q" for q using that tab by (simp add: plain_def)
  have "q < npages s \<and> plain s (Ds - {D}) q" if "refers s (Ds - {D}) (RMap D' i j) q" for D' i j q
  proof -
    have "refers s Ds (RMap D' i j) q" using that rr by blast
    then have "q < npages s \<and> plain s Ds q" using ok unfolding tables_ok_def by blast
    then show ?thesis using pl by simp
  qed
  then have "tables_ok s (Ds - {D})"
    using ok unfolding tables_ok_def by (simp add: tab del: refers.simps)
  moreover have "RDir D \<in> refs s Ds q \<longleftrightarrow> q = D" for q using D(1) by (auto simp: refs_def)
  then have "refcounts s (Ds - {D}) (pin(D := pin D + 1))"
    using memory_invD(3) [OF inv] card_Suc_Diff1 [OF finite_refs, of "RDir D" s Ds D]
    by (auto simp: refcounts_def rf)
  ultimately show "memory_inv s (Ds - {D}) (pin(D := pin D + 1)) ps" using inv by (simp add: memory_inv_def)
qed

end
