(* ===== verification/Env.thy ===== *)
theory Env
  imports Addrspace
begin

text \<open>
  Environments: the functions of \<^verbatim>\<open>kern/env.c\<close> but \<^verbatim>\<open>env_destroy\<close>, which the scheduler
  theory defines after \<^verbatim>\<open>sched_yield\<close>. The lemmas show what an environment id resolves to,
  that a reused slot gets an id that was not the previous one, and that setting up and
  freeing an address space keep the reference-count invariant.
\<close>

section \<open>Environment ids\<close>

text \<open>
  The result pairs the return code with \<^verbatim>\<open>*env_store\<close>. Checking permissions without a
  current environment would dereference \<^verbatim>\<open>NULL\<close>.
\<close>

definition envid2env :: "u32 \<Rightarrow> bool \<Rightarrow> kstate \<Rightarrow> (int \<times> nat option, kstate) kres" where
  "envid2env envid checkperm s =
     (if envid = 0 then Ret (0, curenv s) s
      else let e = ENVX envid in
        if env_status (envs s e) = ENV_FREE \<or> env_id (envs s e) \<noteq> envid
        then Ret (- E_BAD_ENV, None) s
        else if checkperm \<and> curenv s \<noteq> Some e
        then (case curenv s of
            None \<Rightarrow> Panic ''page fault in kernel mode''
          | Some c \<Rightarrow>
              if env_parent_id (envs s e) \<noteq> env_id (envs s c) then Ret (- E_BAD_ENV, None) s
              else Ret (0, Some e) s)
        else Ret (0, Some e) s)"

definition P3 :: int where "P3 = 3"

definition env_init_step :: "nat \<Rightarrow> kstate \<Rightarrow> kstate" where
  "env_init_step i s =
     (let index = NENV - 1 - i in
      (upd_env index (\<lambda>e. e\<lparr>env_status := ENV_FREE, env_id := 0, env_link := env_free_list s,
          env_priority := P3\<rparr>) s)\<lparr>env_free_list := Some index\<rparr>)"

definition env_init :: "kstate \<Rightarrow> kstate" where
  "env_init s = fold env_init_step [0..<NENV] s"

section \<open>Creating environments\<close>

definition env_setup_vm :: "nat \<Rightarrow> kstate \<Rightarrow> (int, kstate) kres" where
  "env_setup_vm e s =
     bindK (page_alloc True s) (\<lambda>p s. case p of
       None \<Rightarrow> Ret (- E_NO_MEM) s
     | Some p \<Rightarrow>
         let s = upd_page p (\<lambda>q. q\<lparr>pp_ref := pp_ref q + 1\<rparr>) s in
         bindK (page2kva p s) (\<lambda>kva s.
         let s = upd_env e (\<lambda>x. x\<lparr>env_pgdir := kva\<rparr>) s in
         let s = kmemcpy (env_pgdir (envs s e)) (kern_pgdir s) PGSIZE s in
         bindK (PADDR (env_pgdir (envs s e)) s) (\<lambda>pa s.
         Ret 0 (kst32 (env_pgdir (envs s e) + 4 * PDX UVPT) (pa OR PTE_P OR PTE_U) s))))"

definition ENVGENSHIFT :: nat where "ENVGENSHIFT = 12"

text \<open>The id of the next environment in slot \<open>i\<close>, whose last id was \<open>old\<close>.\<close>

definition next_env_id :: "u32 \<Rightarrow> nat \<Rightarrow> u32" where
  "next_env_id old i =
     (let generation = (old + push_bit ENVGENSHIFT 1) AND NOT (of_nat NENV - 1);
          generation = (if sint generation \<le> 0 then push_bit ENVGENSHIFT 1 else generation)
      in generation OR of_nat i)"

definition env_alloc :: "u32 \<Rightarrow> kstate \<Rightarrow> (int \<times> nat option, kstate) kres" where
  "env_alloc parent_id s =
     (case env_free_list s of
        None \<Rightarrow> Ret (- E_NO_FREE_ENV, None) s
      | Some e \<Rightarrow>
          bindK (env_setup_vm e s) (\<lambda>r s.
          if r < 0 then Ret (r, None) s
          else
            let s = upd_env e (\<lambda>x. x\<lparr>env_id := next_env_id (env_id x) e,
                  env_parent_id := parent_id, env_type := ENV_TYPE_USER, env_status := ENV_RUNNABLE,
                  env_runs := 0, env_priority := P3,
                  env_tf := zero_tf\<lparr>tf_ds := GD_UD OR 3, tf_es := GD_UD OR 3, tf_ss := GD_UD OR 3,
                    tf_esp := USTACKTOP, tf_cs := GD_UT OR 3, tf_eflags := FL_IF\<rparr>,
                  env_pgfault_upcall := 0, env_ipc_recving := False\<rparr>) s in
            Ret (0, Some e) (s\<lparr>env_free_list := env_link (envs s e)\<rparr>)))"

section \<open>Loading a program\<close>

definition region_alloc_step :: "nat \<Rightarrow> u32 \<Rightarrow> nat \<Rightarrow> kstate \<Rightarrow> (unit, kstate) kres" where
  "region_alloc_step e start i s =
     bindK (page_alloc True s) (\<lambda>newPage s. case newPage of
       None \<Rightarrow> Panic ''regino_alloc: New page allocation failed.''
     | Some p \<Rightarrow>
         bindK (page_insert (env_pgdir (envs s e)) p (start + of_nat i * PGSIZE) (PTE_U OR PTE_W OR PTE_P) s)
           (\<lambda>error s. if error \<noteq> 0 then Panic ''region_alloc: Could not insert page.'' else Ret () s))"

definition region_alloc :: "nat \<Rightarrow> u32 \<Rightarrow> u32 \<Rightarrow> kstate \<Rightarrow> (unit, kstate) kres" where
  "region_alloc e va len s =
     (let start = ROUNDDOWN va PGSIZE; alloc_size = ROUNDUP len PGSIZE in
      foldK (region_alloc_step e start) [0..<unat (alloc_size div PGSIZE)] s)"

definition ELF_MAGIC :: u32 where "ELF_MAGIC = 0x464C457F"

definition ELF_PROG_LOAD :: u32 where "ELF_PROG_LOAD = 1"

text \<open>The 16-bit field \<^verbatim>\<open>e_phnum\<close> at offset 44 of the ELF header.\<close>

definition e_phnum :: "u32 \<Rightarrow> kstate \<Rightarrow> nat" where
  "e_phnum elfhdr s = unat (ucast (kld8 s (elfhdr + 44)) OR push_bit 8 (ucast (kld8 s (elfhdr + 45))) :: u32)"

text \<open>One program header, at kernel address \<open>ph\<close>.\<close>

definition load_segment :: "nat \<Rightarrow> u32 \<Rightarrow> u32 \<Rightarrow> kstate \<Rightarrow> (unit, kstate) kres" where
  "load_segment e binary ph s =
     (if kld32 s ph \<noteq> ELF_PROG_LOAD then Ret () s
      else
        let p_offset = kld32 s (ph + 4); p_va = kld32 s (ph + 8);
            p_filesz = kld32 s (ph + 16); p_memsz = kld32 s (ph + 20) in
        bindK (region_alloc e p_va p_memsz s) (\<lambda>_ s.
        bindK (PADDR (env_pgdir (envs s e)) s) (\<lambda>pa s.
        let s = lcr3 pa s in
        bindK (vwrite p_va (map (\<lambda>k. kld8 s (binary + p_offset + of_nat k)) [0..<unat p_filesz]) s) (\<lambda>_ s.
        bindK (vwrite (p_va + p_filesz) (replicate (unat (p_memsz - p_filesz)) 0) s) (\<lambda>_ s.
        bindK (PADDR (kern_pgdir s) s) (\<lambda>pa s.
        Ret () (lcr3 pa s)))))))"

definition load_icode :: "nat \<Rightarrow> u32 \<Rightarrow> kstate \<Rightarrow> (unit, kstate) kres" where
  "load_icode e binary s =
     (if kld32 s binary \<noteq> ELF_MAGIC then Panic ''load_icode: Note valid elf header.''
      else
        let ph = binary + kld32 s (binary + 28) in
        bindK (foldK (\<lambda>k. load_segment e binary (ph + of_nat k * 32)) [0..<e_phnum binary s] s) (\<lambda>_ s.
        bindK (region_alloc e (USTACKTOP - PGSIZE) PGSIZE s) (\<lambda>_ s.
        bindK (PADDR (env_pgdir (envs s e)) s) (\<lambda>pa s.
        let s = lcr3 pa s in
        bindK (vwrite (USTACKTOP - PGSIZE) (replicate (unat PGSIZE) 0) s) (\<lambda>_ s.
        bindK (PADDR (kern_pgdir s) s) (\<lambda>pa s.
        let s = lcr3 pa s in
        Ret () (upd_env e (\<lambda>x. x\<lparr>env_tf := (env_tf x)\<lparr>tf_eip := kld32 s (binary + 24)\<rparr>\<rparr>) s)))))))"

definition env_create :: "u32 \<Rightarrow> env_type_t \<Rightarrow> kstate \<Rightarrow> (unit, kstate) kres" where
  "env_create binary type s =
     bindK (env_alloc 0 s) (\<lambda>(error, env) s. case env of
       None \<Rightarrow> Panic ''env_create: Error with creating new environment.''
     | Some e \<Rightarrow>
         if error \<noteq> 0 then Panic ''env_create: Error with creating new environment.''
         else
           let s = upd_env e (\<lambda>x. x\<lparr>env_type := type\<rparr>) s in
           bindK (load_icode e binary s) (\<lambda>_ s.
           if type = ENV_TYPE_FS
           then Ret () (upd_env e (\<lambda>x. x\<lparr>env_tf := (env_tf x)\<lparr>tf_eflags := tf_eflags (env_tf x) OR FL_IOPL_3\<rparr>\<rparr>) s)
           else Ret () s))"

section \<open>Freeing and running environments\<close>

text \<open>The inner loop of \<^verbatim>\<open>env_free\<close> unmaps one entry, the outer one releases a page table.\<close>

definition env_free_pte :: "nat \<Rightarrow> u32 \<Rightarrow> u32 \<Rightarrow> nat \<Rightarrow> kstate \<Rightarrow> (unit, kstate) kres" where
  "env_free_pte e pt pdeno pteno s =
     (if kld32 s (pt + 4 * of_nat pteno) AND PTE_P \<noteq> 0
      then page_remove (env_pgdir (envs s e)) (PGADDR pdeno (of_nat pteno) 0) s
      else Ret () s)"

definition env_free_pde :: "nat \<Rightarrow> nat \<Rightarrow> kstate \<Rightarrow> (unit, kstate) kres" where
  "env_free_pde e pdeno s =
     (let pde = kld32 s (env_pgdir (envs s e) + 4 * of_nat pdeno) in
      if pde AND PTE_P = 0 then Ret () s
      else
        let pa = PTE_ADDR pde in
        bindK (KADDR pa s) (\<lambda>pt s.
        bindK (foldK (env_free_pte e pt (of_nat pdeno)) [0..<unat (PTX (- 1)) + 1] s) (\<lambda>_ s.
        let s = kst32 (env_pgdir (envs s e) + 4 * of_nat pdeno) 0 s in
        bindK (pa2page pa s) (\<lambda>p s. page_decref p s))))"

definition env_free :: "nat \<Rightarrow> kstate \<Rightarrow> (unit, kstate) kres" where
  "env_free e s =
     bindK (if curenv s = Some e then bindK (PADDR (kern_pgdir s) s) (\<lambda>pa s. Ret () (lcr3 pa s))
            else Ret () s) (\<lambda>_ s.
     bindK (foldK (env_free_pde e) [0..<unat (PDX UTOP)] s) (\<lambda>_ s.
     bindK (PADDR (env_pgdir (envs s e)) s) (\<lambda>pa s.
     let s = upd_env e (\<lambda>x. x\<lparr>env_pgdir := 0\<rparr>) s in
     bindK (pa2page pa s) (\<lambda>p s.
     bindK (page_decref p s) (\<lambda>_ s.
     Ret () ((upd_env e (\<lambda>x. x\<lparr>env_status := ENV_FREE, env_link := env_free_list s\<rparr>) s)
       \<lparr>env_free_list := Some e\<rparr>))))))"

text \<open>\<^verbatim>\<open>env_pop_tf\<close> leaves the kernel; the trap frame it pops is that of the current environment.\<close>

definition env_pop_tf :: "nat \<Rightarrow> kstate \<Rightarrow> (unit, kstate) kres" where
  "env_pop_tf e s = Leave (RunEnv e) (case curenv s of
       Some c \<Rightarrow> upd_env c (\<lambda>x. x\<lparr>env_cpunum := this_cpu s\<rparr>) s
     | None \<Rightarrow> s)"

definition env_run :: "nat \<Rightarrow> kstate \<Rightarrow> (unit, kstate) kres" where
  "env_run e s =
     (let s = (case curenv s of
           Some c \<Rightarrow> if env_status (envs s c) = ENV_RUNNING
             then upd_env c (\<lambda>x. x\<lparr>env_status := ENV_RUNNABLE\<rparr>) s else s
         | None \<Rightarrow> s);
          s = set_curenv (Some e) s;
          s = upd_env e (\<lambda>x. x\<lparr>env_status := ENV_RUNNING, env_runs := env_runs x + 1\<rparr>) s
      in
        bindK (PADDR (env_pgdir (envs s e)) s) (\<lambda>pa s.
        let s = lcr3 pa s in
        bindK (unlock_kernel s) (\<lambda>_ s. env_pop_tf e s)))"

section \<open>Ids of reused slots\<close>

lemma sint_pos_iff: "0 < sint (w :: u32) \<longleftrightarrow> w \<noteq> 0 \<and> \<not> bit w 31"
proof -
  have "sint w = 0 \<longleftrightarrow> w = 0" using signed_eq_0_iff by blast
  then show ?thesis using bit_last_iff [of w] by (auto simp: not_less order.order_iff_strict)
qed

lemma index_less: "i < 1024 \<Longrightarrow> (of_nat i :: u32) < 1024"
  by (simp add: word_less_nat_alt unat_of_nat_u32)

lemmas bit_small_index = less_1024_bit [OF index_less]

lemma drop_10_or_index:
  assumes "i < 1024"
  shows "drop_bit 10 (g OR of_nat i :: u32) = drop_bit 10 g"
  by (rule bit_word_eqI) (use bit_small_index [OF assms] in \<open>auto simp: bit_simps\<close>)

text \<open>The two constants of the computation, kept folded so that their bits stay visible.\<close>

definition gen_unit :: u32 where "gen_unit = 4096"
definition index_mask :: u32 where "index_mask = 1023"

definition generation :: "u32 \<Rightarrow> u32" where
  "generation old = (let g = (old + gen_unit) AND NOT index_mask in if sint g \<le> 0 then gen_unit else g)"

lemma next_env_id_eq: "next_env_id old i = generation old OR of_nat i"
  by (simp add: next_env_id_def generation_def gen_unit_def index_mask_def ENVGENSHIFT_def NENV_def Let_def
    push_bit_eq_mult)

lemma bit_gen_unit: "bit gen_unit n \<longleftrightarrow> n = 12"
  using bit_exp_iff [where 'a = "32 word", of 12 n] by (auto simp: gen_unit_def)

lemma bit_index_mask: "bit index_mask n \<longleftrightarrow> n < 10"
  using bit_mask_iff [where 'a = "32 word", of 10 n] by (auto simp: mask_numerals index_mask_def)

lemma generation_low: "n < 10 \<Longrightarrow> \<not> bit (generation old) n"
  by (auto simp: generation_def Let_def bit_and_iff bit_not_iff bit_index_mask bit_gen_unit)

lemma generation_pos: "generation old \<noteq> 0 \<and> \<not> bit (generation old) 31"
proof -
  have "0 < sint gen_unit" using bit_gen_unit by (auto simp: sint_pos_iff) (metis bit_gen_unit bit_0_eq bot_apply bot_bool_def)
  then have "0 < sint (generation old)" by (auto simp: generation_def Let_def)
  then show ?thesis using sint_pos_iff by blast
qed

text \<open>The id names its slot, is positive, and differs from the previous id of the slot.\<close>

lemma ENVX_next: "i < 1024 \<Longrightarrow> ENVX (next_env_id old i) = i"
proof -
  assume i: "i < 1024"
  have "(generation old OR of_nat i) AND index_mask = (of_nat i :: u32)"
  proof (rule bit_word_eqI)
    fix n
    show "bit ((generation old OR of_nat i) AND index_mask) n = bit (of_nat i :: u32) n"
      using generation_low [of n old] bit_small_index [OF i, of n]
      by (cases "n < 10") (auto simp: bit_and_iff bit_or_iff bit_index_mask)
  qed
  then show ?thesis using i by (simp add: ENVX_def next_env_id_eq unat_of_nat_u32 index_mask_def)
qed

lemma next_env_id_pos: "i < 1024 \<Longrightarrow> 0 < sint (next_env_id old i)"
  using generation_pos [of old] bit_small_index [of i 31]
  by (auto simp: sint_pos_iff next_env_id_eq bit_or_iff or_eq_0_iff)

lemma unat_drop_10: "unat (drop_bit 10 (w :: u32)) = unat w div 1024"
  using unat_drop_bit_eq [of 10 w] by (simp add: drop_bit_eq_div)

lemma next_env_id_div:
  "i < 1024 \<Longrightarrow> unat (next_env_id old i) div 1024 = unat (generation old) div 1024"
  using drop_10_or_index [of i "generation old"] unat_drop_10 next_env_id_eq by metis

lemma next_env_id_fresh: "i < 1024 \<Longrightarrow> next_env_id old i \<noteq> old"
proof
  assume i: "i < 1024" and eq: "next_env_id old i = old"
  then have d: "unat old div 1024 = unat (generation old) div 1024" using next_env_id_div by metis
  let ?g = "(old + gen_unit) AND NOT index_mask"
  have u: "unat (old + gen_unit) = unat old + 4096 \<or> unat (old + gen_unit) + 4294967296 = unat old + 4096"
    using unat_u32_less [of old] by (auto simp: unat_word_ariths mod_if gen_unit_def)
  have lt: "unat old < 4294967296" using unat_u32_less [of old] by simp
  have "drop_bit 10 ?g = drop_bit 10 (old + gen_unit)"
    by (rule bit_word_eqI) (auto simp: bit_simps bit_index_mask dest: bit_imp_le_length)
  then have g: "unat ?g div 1024 = unat (old + gen_unit) div 1024" using unat_drop_10 by metis
  show False
  proof (cases "sint ?g \<le> 0")
    case False
    then have "generation old = ?g" by (simp add: generation_def Let_def)
    then show ?thesis using d g u lt by auto
  next
    case True
    then have "unat old div 1024 = 4" using d by (simp add: generation_def Let_def gen_unit_def)
    then have "unat ?g div 1024 = 8" using g u lt by auto
    then have "unat ?g < 9216" "?g \<noteq> 0" by auto
    moreover have "\<not> bit ?g 31" using less_exp_bit [of ?g 14 31] calculation(1) by (simp add: word_less_nat_alt)
    ultimately show ?thesis using True sint_pos_iff [of ?g] by simp
  qed
qed

section \<open>Address spaces of environments\<close>

lemma PADDR_kpage: "p < 0x10000 \<Longrightarrow> PADDR (kpage p) s = Ret (page2pa p) s"
proof -
  assume p: "p < 0x10000"
  then have u: "unat (page2pa p) = 4096 * unat p" by (simp add: page2pa_def unat_frame word_less_nat_alt)
  have "unat p < 0x10000" using p by (simp add: word_less_nat_alt)
  then have "unat (kpage p) = 4096 * unat p + 0xF0000000" using u by (simp add: kpage_def KERNBASE_def unat_word_ariths)
  then show ?thesis by (simp add: PADDR_def kpage_def word_less_nat_alt KERNBASE_def)
qed

lemma pa2page_page2pa: "p < npages s \<Longrightarrow> p < 0x100000 \<Longrightarrow> pa2page (page2pa p) s = Ret p s"
  by (simp add: pa2page_def page2pa_def PGNUM_frame)

text \<open>The kernel's own directory: page \<open>K\<close>, with nothing mapped below \<^const>\<open>UTOP\<close>.\<close>

definition kern_dir :: "kstate \<Rightarrow> u32 \<Rightarrow> bool" where
  "kern_dir s K \<longleftrightarrow> kern_pgdir s = kpage K \<and> K < npages s \<and> (\<forall>i. uslot i \<longrightarrow> \<not> present (entry s K i))"

text \<open>The state \<^const>\<open>env_setup_vm\<close> returns in, when page \<open>p\<close> is the next free page.\<close>

definition setup_state :: "nat \<Rightarrow> u32 \<Rightarrow> u32 list \<Rightarrow> kstate \<Rightarrow> kstate" where
  "setup_state e p ps s =
     set_entry p (PDX UVPT) (page2pa p OR PTE_P OR PTE_U)
       (kmemcpy (kpage p) (kern_pgdir s) PGSIZE
         (upd_env e (\<lambda>x. x\<lparr>env_pgdir := kpage p\<rparr>)
           (upd_page p (\<lambda>q. q\<lparr>pp_ref := pp_ref q + 1\<rparr>) (alloc_state True p ps s))))"

lemma upd_env_fields [simp]:
  "envs (upd_env e f s) = (envs s)(e := f (envs s e))" "pmem (upd_env e f s) = pmem s"
  "pages (upd_env e f s) = pages s" "npages (upd_env e f s) = npages s"
  "page_free_list (upd_env e f s) = page_free_list s" "kern_pgdir (upd_env e f s) = kern_pgdir s"
  "curenv (upd_env e f s) = curenv s" "env_free_list (upd_env e f s) = env_free_list s"
  "this_cpu (upd_env e f s) = this_cpu s" "cpus (upd_env e f s) = cpus s"
  by (simp_all add: upd_env_def curenv_def)

lemma kmemcpy_fields [simp]:
  "envs (kmemcpy d c n s) = envs s" "pages (kmemcpy d c n s) = pages s" "npages (kmemcpy d c n s) = npages s"
  "page_free_list (kmemcpy d c n s) = page_free_list s" "kern_pgdir (kmemcpy d c n s) = kern_pgdir s"
  "curenv (kmemcpy d c n s) = curenv s" "env_free_list (kmemcpy d c n s) = env_free_list s"
  by (simp_all add: kmemcpy_def curenv_def)

lemma env_setup_vm_eq:
  assumes fl: "page_fl s (p # ps)" and np: "npages s \<le> 0x10000"
  shows "env_setup_vm e s = Ret 0 (setup_state e p ps s)"
proof -
  have p: "p < npages s" "p < 0x100000" using page_flD [OF fl] by auto
  then have "p < 0x10000" using np by simp
  then show ?thesis
    using page_alloc_cons [OF fl, of True] p page2kva_ok [OF _ p(2)] PADDR_kpage
    by (simp add: env_setup_vm_def setup_state_def Let_def)
qed

lemma env_setup_vm_nomem: "page_fl s [] \<Longrightarrow> env_setup_vm e s = Ret (- E_NO_MEM) s"
  using page_alloc_empty by (simp add: env_setup_vm_def)

lemma kpage_minus [simp]: "kpage p - KERNBASE = push_bit 12 p"
  by (simp add: kpage_def page2pa_def)

lemma entry_kmemcpy:
  assumes "p < 0x100000" "i < 1024"
  shows "entry (kmemcpy (kpage p) (kpage K) PGSIZE s) p i = entry s K i"
    "PGNUM a \<noteq> p \<Longrightarrow> pmem (kmemcpy (kpage p) (kpage K) PGSIZE s) a = pmem s a"
proof -
  have "PGNUM (entry_pa p i) = p" using assms by (simp add: PGNUM_entry_pa)
  then show "entry (kmemcpy (kpage p) (kpage K) PGSIZE s) p i = entry s K i"
    using ld32_mem_copy_page [OF aligned4_entry_pa [OF assms(2)] assms(1), of "pmem s" K]
    by (simp add: entry_def kmemcpy_def PGSIZE_def entry_pa_def)
  show "pmem (kmemcpy (kpage p) (kpage K) PGSIZE s) a = pmem s a" if "PGNUM a \<noteq> p"
    using page_region_iff [OF assms(1), of a] that by (simp add: kmemcpy_def mem_copy_def PGSIZE_def)
qed

lemma uslot_1024: "uslot i \<Longrightarrow> i < 1024"
  by (rule order.strict_trans) auto

lemma PDX_UVPT: "PDX UVPT = 957"
  by (simp add: PDX_def layout_defs)

lemma setup_state_fields [simp]:
  "npages (setup_state e p ps s) = npages s" "kern_pgdir (setup_state e p ps s) = kern_pgdir s"
  "envs (setup_state e p ps s) = (envs s)(e := (envs s e)\<lparr>env_pgdir := kpage p\<rparr>)"
  "curenv (setup_state e p ps s) = curenv s" "env_free_list (setup_state e p ps s) = env_free_list s"
  by (simp_all add: setup_state_def set_entry_def curenv_def kmemcpy_def upd_env_def upd_page_def alloc_state_def)

lemma setup_state_byte:
  assumes "p < 0x100000" "kern_pgdir s = kpage K" "PGNUM a \<noteq> p"
  shows "pmem (setup_state e p ps s) a = pmem s a"
proof -
  have "PDX UVPT < 1024" by (rule PDX_less)
  then show ?thesis
    using assms set_entry_byte [OF assms(1)] entry_kmemcpy(2) [OF assms(1), of 0]
    by (simp add: setup_state_def alloc_state_byte)
qed

lemma setup_state_entry:
  assumes p: "p < 0x100000" "K < 0x100000" "K \<noteq> p" "kern_pgdir s = kpage K" "i < 1024"
  shows "entry (setup_state e p ps s) p i =
    (if i = PDX UVPT then page2pa p OR PTE_P OR PTE_U else entry s K i)"
proof -
  have "PDX UVPT < 1024" by (rule PDX_less)
  moreover have "entry (upd_env e f u) = entry u" for f u by (rule entry_pmem_cong) simp
  ultimately show ?thesis
    using p entry_kmemcpy(1) [OF p(1,5)] by (simp add: setup_state_def entry_set_entry entry_alloc_state)
qed

lemma setup_state_inv:
  assumes inv: "memory_inv s Ds pin (p # ps)" and kd: "kern_dir s K" "K \<noteq> p"
    and t_def: "t = setup_state e p ps s"
  shows "memory_inv t (insert p Ds) pin ps" "kern_dir t K"
    "\<And>D va. D \<in> Ds \<Longrightarrow> uslot (PDX va) \<Longrightarrow> pte t D va = pte s D va"
    "\<And>q. refs t (insert p Ds) q = (if q = p then {RDir p} else refs s Ds q)"
proof -
  let ?u = "upd_page p (\<lambda>q. q\<lparr>pp_ref := pp_ref q + 1\<rparr>) (alloc_state True p ps s)"
  note al = page_alloc_inv [OF inv]
  have small: "p < 0x100000" "K < 0x100000" using small_page [OF inv] al(4) kd(1) by (auto simp: kern_dir_def)
  have K: "kern_pgdir s = kpage K" using kd(1) by (simp add: kern_dir_def)
  have eu: "entry ?u = entry (alloc_state True p ps s)" by simp
  have u: "memory_inv ?u Ds (pin(p := pin p + 1)) ps" using incref_inv [OF al(1) [of True]] al(4-6) by simp
  have pl: "plain ?u Ds p" using plain_cong [OF eu] al(2,3) by simp
  have byte: "pmem t a = pmem ?u a" if "PGNUM a \<noteq> p" for a
    using setup_state_byte [OF small(1) K that] alloc_state_byte [OF small(1) that] by (simp add: t_def)
  have "pages t = pages ?u" "npages t = npages ?u" "page_free_list t = page_free_list ?u"
    by (simp_all add: t_def setup_state_def set_entry_def)
  note w = plain_write [OF u pl byte this]
  have ent: "entry t p i = (if i = PDX UVPT then page2pa p OR PTE_P OR PTE_U else entry s K i)" if "i < 1024" for i
    using setup_state_entry [OF small kd(2) K that] by (simp add: t_def)
  have "\<not> present (entry t p i)" if "uslot i" for i
    using ent [OF uslot_1024 [OF that]] that kd(1) by (auto simp: kern_dir_def PDX_UVPT)
  moreover have rt: "refs t Ds = refs s Ds" using w(3) refs_cong [OF eu] al(7) by simp
  then have "refs t Ds p = {}" using free_not_referenced(1) [OF inv, of p] by simp
  moreover have "p < npages t" using al(4) by (simp add: t_def)
  ultimately have ad: "memory_inv t (insert p Ds) pin ps"
    "\<And>q. refs t (insert p Ds) q = (if q = p then {RDir p} else refs t Ds q)"
    using add_dir [OF w(1)] by blast+
  show "memory_inv t (insert p Ds) pin ps" by (rule ad(1))
  show "refs t (insert p Ds) q = (if q = p then {RDir p} else refs s Ds q)" for q using ad(2) rt by simp
  show "pte t D va = pte s D va" if "D \<in> Ds" "uslot (PDX va)" for D va
    using w(5) [OF _ that] pte_cong [OF eu] al(8) [OF that] by simp
  have "entry t K i = entry s K i" if "i < 1024" for i
    using entry_other_page [of p t s K i] setup_state_byte [OF small(1) K] kd(2) small(2) that by (simp add: t_def)
  then show "kern_dir t K" using kd(1) uslot_1024 by (simp add: kern_dir_def t_def)
qed

section \<open>Taking an address space down\<close>

text \<open>What both loops of \<^const>\<open>env_free\<close> keep: the invariant, the other address spaces, and that only
  pages this address space referenced go to the free list.\<close>

definition tearing :: "u32 set \<Rightarrow> u32 \<Rightarrow> (u32 \<Rightarrow> nat) \<Rightarrow> u32 list \<Rightarrow> kstate \<Rightarrow> kstate \<Rightarrow> bool" where
  "tearing Ds D pin ps s t \<longleftrightarrow> (\<exists>ps'. memory_inv t Ds pin ps' \<and> (\<forall>q \<in> set ps'. q \<in> set ps \<or> refs s Ds q \<noteq> {})) \<and>
     space_frame Ds D s t \<and> (\<forall>q. refs t Ds q \<subseteq> refs s Ds q)"

lemma tearing_refl: "memory_inv s Ds pin ps \<Longrightarrow> tearing Ds D pin ps s s"
  by (auto simp: tearing_def)

lemma tearing_step:
  assumes "tearing Ds D pin ps s t" "\<And>ps'. memory_inv t Ds pin ps' \<Longrightarrow>
    \<exists>ps''. memory_inv u Ds pin ps'' \<and> (\<forall>q \<in> set ps''. q \<in> set ps' \<or> refs t Ds q \<noteq> {})"
    "space_frame Ds D t u" "\<And>q. refs u Ds q \<subseteq> refs t Ds q"
  shows "tearing Ds D pin ps s u"
proof -
  obtain ps' where "memory_inv t Ds pin ps'" and ps': "\<forall>q \<in> set ps'. q \<in> set ps \<or> refs s Ds q \<noteq> {}"
    using assms(1) by (auto simp: tearing_def)
  moreover from this(1) obtain ps'' where u: "memory_inv u Ds pin ps''"
    "\<forall>q \<in> set ps''. q \<in> set ps' \<or> refs t Ds q \<noteq> {}" using assms(2) by blast
  moreover have sub: "refs t Ds q \<subseteq> refs s Ds q" for q using assms(1) by (simp add: tearing_def)
  ultimately have "\<forall>q \<in> set ps''. q \<in> set ps \<or> refs s Ds q \<noteq> {}" by blast
  moreover have "space_frame Ds D s u" using assms(1,3) space_frame_trans by (simp add: tearing_def, blast)
  ultimately show ?thesis using u(1) sub assms(4) unfolding tearing_def by blast
qed

lemma tearing_fields: "tearing Ds D pin ps s t \<Longrightarrow> envs t = envs s \<and> npages t = npages s \<and> kern_pgdir t = kern_pgdir s"
  using only_mem_fields [of s t] by (simp add: tearing_def space_frame_def)

lemma env_free_pte_step:
  assumes tr: "tearing Ds D pin ps s t" and T: "is_tab t Ds D i T" and j: "k < 1024"
    and e: "env_pgdir (envs t e) = kpage D"
  shows "\<exists>u. env_free_pte e (kpage T) i k t = Ret () u \<and> tearing Ds D pin ps s u \<and> is_tab u Ds = is_tab t Ds \<and>
    \<not> present (entry u T (of_nat k)) \<and>
    (\<forall>j < 1024. j \<noteq> of_nat k \<longrightarrow> entry u T j = entry t T j)"
proof (cases "present (entry t T (of_nat k))")
  case False
  then show ?thesis using tr by (simp add: env_free_pte_def)
next
  case True
  let ?va = "PGADDR i (of_nat k) 0"
  obtain ps' where inv: "memory_inv t Ds pin ps'" using tr by (auto simp: tearing_def)
  have k: "(of_nat k :: u32) < 1024" using j by (rule index_less)
  have va: "PDX (PGADDR i j 0) = i" "PTX (PGADDR i j 0) = j" if "j < 1024" for j
    using PDX_PGADDR0 [OF is_tab_bounds [OF T] that] by auto
  have D: "D \<in> Ds" "uslot (PDX ?va)" using T va [OF k] by (auto simp: is_tab_def)
  have pt: "pte x D (PGADDR i j 0) = entry x T j" if "is_tab x Ds = is_tab t Ds" "j < 1024" for x j
    using pte_is_tab(1) [of x Ds D "PGADDR i j 0" T] T va [OF that(2)] that(1) by simp
  have pr: "present (pte t D ?va)" using True pt [of t] k by simp
  from page_remove_inv [OF inv D pr] obtain u ps'' where u: "page_remove (kpage D) ?va t = Ret () u"
    "memory_inv u Ds pin ps''" "remapped Ds D ?va 0 t u" "is_tab u Ds = is_tab t Ds"
    "ps'' = (if pp_ref (pages t (PGNUM (pte t D ?va))) = 1 then PGNUM (pte t D ?va) # ps' else ps')"
    "\<forall>q. refs u Ds q = refs t Ds q - {RMap D (PDX ?va) (PTX ?va)}" by blast
  have "refs t Ds (PGNUM (pte t D ?va)) \<noteq> {}" using D pr by (auto simp: refs_empty_iff)
  moreover have "ps'' = ps' \<or> ps'' = PGNUM (pte t D ?va) # ps'" using u(5) by simp
  ultimately have fr: "tearing Ds D pin ps s u"
  proof (intro tearing_step [OF tr])
    show "space_frame Ds D t u" using remapped_space_frame u(3,4) by blast
    show "refs u Ds q \<subseteq> refs t Ds q" for q using u(6) by auto
  next
    fix qs assume "memory_inv t Ds pin qs"
    then have "qs = ps'" using inv page_fl_unique by (auto simp: memory_inv_def)
    then show "\<exists>ps''. memory_inv u Ds pin ps'' \<and> (\<forall>q\<in>set ps''. q \<in> set qs \<or> refs t Ds q \<noteq> {})"
      using u(2) \<open>refs t Ds _ \<noteq> {}\<close> \<open>ps'' = ps' \<or> _\<close> by auto
  qed
  moreover have "entry u T (of_nat k) = 0" using pt [OF u(4) k] u(3) by (simp add: remapped_def)
  moreover have "entry u T j = entry t T j" if "j < 1024" "j \<noteq> of_nat k" for j
  proof -
    have "PGNUM (PGADDR i j 0) \<noteq> PGNUM ?va" using va that k by (auto simp: PGNUM_eq_iff)
    then have "pte u D (PGADDR i j 0) = pte t D (PGADDR i j 0)"
      using u(3) D va [OF that(1)] va [OF k] by (auto simp: remapped_def)
    then show ?thesis using pt [OF u(4) that(1)] pt [of t, OF _ that(1)] by simp
  qed
  ultimately show ?thesis using u(1,4) True e by (auto simp: env_free_pte_def)
qed

lemma env_free_ptes:
  assumes tr: "tearing Ds D pin ps s t" and T: "is_tab t Ds D i T" and e: "env_pgdir (envs t e) = kpage D"
  shows "\<exists>u. foldK (env_free_pte e (kpage T) i) [0..<1024] t = Ret () u \<and> tearing Ds D pin ps s u \<and>
    is_tab u Ds = is_tab t Ds \<and> (\<forall>j < 1024. \<not> present (entry u T j))"
proof -
  let ?P = "\<lambda>k u. tearing Ds D pin ps s u \<and> is_tab u Ds = is_tab t Ds \<and>
    (\<forall>j < k. \<not> present (entry u T (of_nat j)))"
  have "\<exists>u. foldK (env_free_pte e (kpage T) i) [0..<1024] t = Ret () u \<and> ?P 1024 u"
  proof (rule foldK_upt)
    show "?P 0 t" using tr by simp
  next
    fix k u assume k: "k < 1024" and u: "?P k u"
    have "envs u = envs t" using tearing_fields tr u by metis
    then obtain v where v: "env_free_pte e (kpage T) i k u = Ret () v" "tearing Ds D pin ps s v"
      "is_tab v Ds = is_tab u Ds" "\<not> present (entry v T (of_nat k))"
      "\<forall>j < 1024. j \<noteq> of_nat k \<longrightarrow> entry v T j = entry u T j"
      using env_free_pte_step [of Ds D pin ps s u i T k e] u T k e by auto
    have "\<not> present (entry v T (of_nat j))" if "j < Suc k" for j
    proof (cases "j = k")
      case False
      then have "(of_nat j :: u32) \<noteq> of_nat k" using that k by (simp add: of_nat_u32_inject)
      moreover have "(of_nat j :: u32) < 1024" using that k by (intro index_less) simp
      ultimately show ?thesis using v(5) u that False by auto
    qed (use v in simp)
    then show "\<exists>w. env_free_pte e (kpage T) i k u = Ret () w \<and> ?P (Suc k) w"
      using v(1-3) u by auto
  qed
  then obtain u where u: "foldK (env_free_pte e (kpage T) i) [0..<1024] t = Ret () u" "?P 1024 u" by blast
  have "\<not> present (entry u T j)" if "j < 1024" for j
  proof -
    have "unat j < 1024" using that by (simp add: word_less_nat_alt)
    then show ?thesis using u(2) by (metis unat_of_nat_u32 word_unat_eq_iff of_nat_u32_inject unat_u32_less)
  qed
  then show ?thesis using u by blast
qed

lemma env_free_pde_step:
  assumes tr: "tearing Ds D pin ps s t" and D: "D \<in> Ds" and i: "i < 955" and e: "env_pgdir (envs t e) = kpage D"
  shows "\<exists>u. env_free_pde e i t = Ret () u \<and> tearing Ds D pin ps s u \<and>
    (\<forall>D' i' T'. is_tab u Ds D' i' T' \<longleftrightarrow> is_tab t Ds D' i' T' \<and> \<not> (D' = D \<and> i' = of_nat i))"
proof (cases "present (entry t D (of_nat i))")
  case False
  then show ?thesis using tr e by (auto simp: env_free_pde_def is_tab_def)
next
  case True
  let ?i = "of_nat i :: u32" and ?T = "PGNUM (entry t D (of_nat i))"
  have i: "uslot ?i" using i by (simp add: word_less_nat_alt unat_of_nat_u32)
  have T: "is_tab t Ds D ?i ?T" using True D i by (simp add: is_tab_def)
  obtain ps' where inv: "memory_inv t Ds pin ps'" using tr by (auto simp: tearing_def)
  have Tn: "?T < npages t" using tables_okD(2) [OF memory_invD(2) [OF inv] T] .
  have kaddr: "KADDR (PTE_ADDR (entry t D ?i)) t = Ret (kpage ?T) t"
    using Tn by (simp add: KADDR_def PGNUM_PTE_ADDR kpage_def page2pa_def frame_PGNUM)
  obtain u where u: "foldK (env_free_pte e (kpage ?T) ?i) [0..<1024] t = Ret () u" "tearing Ds D pin ps s u"
    "is_tab u Ds = is_tab t Ds" "\<forall>j < 1024. \<not> present (entry u ?T j)"
    using env_free_ptes [OF tr T e] by blast
  have eu: "envs u = envs t" "npages u = npages t" using tearing_fields [OF u(2)] tearing_fields [OF tr] by auto
  obtain us where us: "memory_inv u Ds pin us" using u(2) by (auto simp: tearing_def)
  have Tu: "is_tab u Ds D ?i ?T" using T u(3) by simp
  from free_table_inv [OF us Tu] u(4) obtain v ps'' where v: "page_decref ?T (set_entry D ?i 0 u) = Ret () v"
    "memory_inv v Ds pin ps''" "space_frame Ds D u v" "set ps'' \<subseteq> insert ?T (set us)" "\<forall>q. refs v Ds q \<subseteq> refs u Ds q"
    "\<forall>D' i' T'. is_tab v Ds D' i' T' \<longleftrightarrow> is_tab u Ds D' i' T' \<and> \<not> (D' = D \<and> i' = ?i)" by blast
  have "RTab D ?i \<in> refs u Ds ?T" using Tu by (simp add: refs_def)
  then have "tearing Ds D pin ps s v"
  proof (intro tearing_step [OF u(2) _ v(3)])
    fix qs assume "memory_inv u Ds pin qs"
    then have "qs = us" using us page_fl_unique by (auto simp: memory_inv_def)
    then show "\<exists>ps''. memory_inv v Ds pin ps'' \<and> (\<forall>q\<in>set ps''. q \<in> set qs \<or> refs u Ds q \<noteq> {})"
      using v(2,4) \<open>RTab D ?i \<in> _\<close> by auto
  qed (use v(5) in auto)
  moreover have "env_free_pde e i t = Ret () v"
  proof -
    have "unat (PTX (- 1)) = 1023" by (simp add: PTX_def mask_eq_exp_minus_1)
    moreover have "pa2page (PTE_ADDR (entry t D ?i)) (set_entry D ?i 0 u) = Ret ?T (set_entry D ?i 0 u)"
      using Tn eu by (simp add: pa2page_def PGNUM_PTE_ADDR)
    ultimately show ?thesis using True e kaddr u(1) v(1) eu by (simp add: env_free_pde_def)
  qed
  ultimately show ?thesis using v(6) u(3) by auto
qed

lemma env_free_pdes:
  assumes tr: "tearing Ds D pin ps s t" and D: "D \<in> Ds" and e: "env_pgdir (envs t e) = kpage D"
  shows "\<exists>u. foldK (env_free_pde e) [0..<955] t = Ret () u \<and> tearing Ds D pin ps s u \<and>
    (\<forall>i. uslot i \<longrightarrow> \<not> present (entry u D i))"
proof -
  let ?P = "\<lambda>k u. tearing Ds D pin ps s u \<and> (\<forall>i < k. \<forall>T. \<not> is_tab u Ds D (of_nat i) T)"
  have "\<exists>u. foldK (env_free_pde e) [0..<955] t = Ret () u \<and> ?P 955 u"
  proof (rule foldK_upt)
    show "?P 0 t" using tr by simp
  next
    fix k u assume k: "k < 955" and u: "?P k u"
    have "envs u = envs t" using tearing_fields tr u by metis
    then obtain v where "env_free_pde e k u = Ret () v" "tearing Ds D pin ps s v"
      "\<forall>D' i' T'. is_tab v Ds D' i' T' \<longleftrightarrow> is_tab u Ds D' i' T' \<and> \<not> (D' = D \<and> i' = of_nat k)"
      using env_free_pde_step [of Ds D pin ps s u k e] u D k e by auto
    then show "\<exists>v. env_free_pde e k u = Ret () v \<and> ?P (Suc k) v" using u less_Suc_eq by auto
  qed
  then obtain u where u: "foldK (env_free_pde e) [0..<955] t = Ret () u" "?P 955 u" by blast
  have "\<not> present (entry u D i)" if "uslot i" for i
  proof -
    have "unat i < 955" "of_nat (unat i) = i" using that by (simp_all add: word_less_nat_alt)
    then have "\<not> is_tab u Ds D i T" for T using u(2) by metis
    then show ?thesis using that D unfolding is_tab_def by blast
  qed
  then show ?thesis using u by blast
qed

lemma env_free_inv:
  assumes inv: "memory_inv s Ds pin ps" and D: "D \<in> Ds" "env_pgdir (envs s e) = kpage D"
    and np: "npages s \<le> 0x10000" and K: "kern_pgdir s = kpage K" "K < npages s"
  shows "\<exists>t ps'. env_free e s = Ret () t \<and> memory_inv t (Ds - {D}) pin ps' \<and>
    (\<forall>q \<in> set ps'. q \<in> set ps \<or> refs s Ds q \<noteq> {}) \<and> (\<forall>q. refs t (Ds - {D}) q \<subseteq> refs s Ds q) \<and>
    (\<forall>a. plain s Ds (PGNUM a) \<longrightarrow> pmem t a = pmem s a) \<and>
    (\<forall>D' \<in> Ds - {D}. \<forall>va. uslot (PDX va) \<longrightarrow> pte t D' va = pte s D' va) \<and>
    (\<forall>D' \<in> Ds. \<forall>i < 1024. \<not> uslot i \<longrightarrow> entry t D' i = entry s D' i) \<and>
    envs t = (envs s)(e := (envs s e)\<lparr>env_pgdir := 0, env_status := ENV_FREE, env_link := env_free_list s\<rparr>) \<and>
    env_free_list t = Some e \<and> npages t = npages s \<and> kern_pgdir t = kern_pgdir s \<and> curenv t = curenv s"
proof -
  define s0 where "s0 = (if curenv s = Some e then lcr3 (page2pa K) s else s)"
  have s0: "pmem s0 = pmem s" "pages s0 = pages s" "npages s0 = npages s" "page_free_list s0 = page_free_list s"
    "envs s0 = envs s" "env_free_list s0 = env_free_list s" "kern_pgdir s0 = kern_pgdir s" "curenv s0 = curenv s"
    by (simp_all add: s0_def lcr3_def curenv_def)
  have e0: "entry s0 = entry s" using s0(1) by (rule entry_pmem_cong)
  have inv0: "memory_inv s0 Ds pin ps" using inv memory_inv_cong [OF s0(1-4)] by simp
  have small: "q < 0x10000" if "q < npages s" for q using np that by simp
  obtain t where t: "foldK (env_free_pde e) [0..<955] s0 = Ret () t" "tearing Ds D pin ps s0 t"
    "\<forall>i. uslot i \<longrightarrow> \<not> present (entry t D i)"
    using env_free_pdes [OF tearing_refl [OF inv0] D(1)] D(2) s0(5) by metis
  have fr: "space_frame Ds D s0 t" and om: "only_mem s0 t" using t(2) by (simp_all add: tearing_def space_frame_def)
  note ft = only_mem_fields [OF om]
  obtain ps1 where ps1: "memory_inv t Ds pin ps1" "\<forall>q \<in> set ps1. q \<in> set ps \<or> refs s0 Ds q \<noteq> {}"
    using t(2) by (auto simp: tearing_def)
  let ?u = "upd_env e (\<lambda>x. x\<lparr>env_pgdir := 0\<rparr>) t"
  have eu: "entry ?u = entry t" by (rule entry_pmem_cong) simp
  have u: "memory_inv ?u (Ds - {D}) (pin(D := pin D + 1)) ps1"
    using drop_dir(1) [OF ps1(1) D(1)] t(3) memory_inv_cong [of ?u t] by simp
  have Dn: "D < npages t" "D < npages s" using tables_okD(1) [OF memory_invD(2) [OF ps1(1)] D(1)] ft(1) s0(3) by simp_all
  obtain v where v: "page_decref D ?u = Ret () v"
    "memory_inv v (Ds - {D}) pin (if pp_ref (pages ?u D) = 1 then D # ps1 else ps1)" "pmem v = pmem ?u" "only_mem ?u v"
    using decref_inv [OF u] Dn by auto
  note fv = only_mem_fields [OF v(4)]
  let ?w = "(upd_env e (\<lambda>x. x\<lparr>env_status := ENV_FREE, env_link := env_free_list v\<rparr>) v)\<lparr>env_free_list := Some e\<rparr>"
  let ?ps = "if pp_ref (pages ?u D) = 1 then D # ps1 else ps1"
  have ew: "entry ?w = entry t" using v(3) eu by (intro entry_pmem_cong) simp
  have res: "env_free e s = Ret () ?w"
  proof -
    have "PADDR (kpage K) s = Ret (page2pa K) s" "PADDR (kpage D) t = Ret (page2pa D) t"
      using PADDR_kpage small K(2) Dn by auto
    moreover have "pa2page (page2pa D) ?u = Ret D ?u" using pa2page_page2pa Dn small_page [OF inv Dn(2)] by simp
    moreover have "unat (PDX UTOP) = 955" by (simp add: uslot_PDX_UTOP)
    ultimately show ?thesis using t(1) v(1) K(1) D(2) ft(2) s0(5) by (auto simp: env_free_def s0_def)
  qed
  have "memory_inv ?w (Ds - {D}) pin ?ps" using v(2) memory_inv_cong [of ?w v] by simp
  moreover have "RDir D \<in> refs s Ds D" using D(1) by (simp add: refs_def)
  then have "\<forall>q \<in> set ?ps. q \<in> set ps \<or> refs s Ds q \<noteq> {}" using ps1(2) refs_cong [OF e0] by auto
  moreover have "refs ?w (Ds - {D}) q \<subseteq> refs s Ds q" for q
    using drop_dir(3) [OF ps1(1) D(1)] t(2,3) refs_cong [OF ew] refs_cong [OF e0] by (auto simp: tearing_def)
  moreover have "pmem ?w a = pmem s a" if "plain s Ds (PGNUM a)" for a
    using fr that v(3) s0(1) plain_cong [OF e0] by (simp add: space_frame_def)
  moreover have "pte ?w D' va = pte s D' va" if "D' \<in> Ds - {D}" "uslot (PDX va)" for D' va
    using fr that pte_cong [OF e0] pte_cong [OF ew] by (simp add: space_frame_def)
  moreover have "entry ?w D' i = entry s D' i" if "D' \<in> Ds" "i < 1024" "\<not> uslot i" for D' i
    using fr that e0 ew by (simp add: space_frame_def)
  moreover have "curenv ?w = curenv s" using fv(4) ft(4) s0(8) by (simp add: curenv_def)
  moreover have "envs ?w = (envs s)(e := (envs s e)\<lparr>env_pgdir := 0, env_status := ENV_FREE, env_link := env_free_list s\<rparr>)"
    using fv(2,7) ft(2,7) s0(5,6) by auto
  moreover have "env_free_list ?w = Some e" "npages ?w = npages s" "kern_pgdir ?w = kern_pgdir s"
    using fv(1,3) ft(1,3) s0(3,7) by simp_all
  ultimately show ?thesis using res by blast
qed

section \<open>The invariant of the environment table\<close>

definition live :: "kstate \<Rightarrow> nat set" where
  "live s = {i. i < NENV \<and> env_status (envs s i) \<noteq> ENV_FREE}"

definition env_dir :: "kstate \<Rightarrow> nat \<Rightarrow> u32" where
  "env_dir s i = PGNUM (env_pgdir (envs s i) - KERNBASE)"

definition dirs :: "kstate \<Rightarrow> u32 set" where
  "dirs s = env_dir s ` live s"

text \<open>The free list holds exactly the free slots, and the id of a live slot names the slot.\<close>

definition env_ok :: "kstate \<Rightarrow> nat list \<Rightarrow> bool" where
  "env_ok s es \<longleftrightarrow> chain (\<lambda>i. env_link (envs s i)) (env_free_list s) es \<and> distinct es \<and>
     set es = {i. i < NENV \<and> env_status (envs s i) = ENV_FREE} \<and>
     (\<forall>i \<in> live s. ENVX (env_id (envs s i)) = i \<and> 0 < sint (env_id (envs s i)))"

text \<open>
  The invariant of the kernel: exact reference counts over the address spaces of the live
  environments, each with a directory of its own; the kernel's directory \<open>K\<close> and the other
  reserved pages \<open>R\<close> are neither free nor mapped; and the machine has at most 256MB, all
  the memory \<^const>\<open>KERNBASE\<close> leaves room for.
\<close>

definition kernel_inv :: "kstate \<Rightarrow> u32 \<Rightarrow> u32 set \<Rightarrow> (u32 \<Rightarrow> nat) \<Rightarrow> u32 list \<Rightarrow> nat list \<Rightarrow> bool" where
  "kernel_inv s K R pin ps es \<longleftrightarrow> memory_inv s (dirs s) pin ps \<and> inj_on (env_dir s) (live s) \<and>
     (\<forall>i \<in> live s. env_pgdir (envs s i) = kpage (env_dir s i)) \<and> env_ok s es \<and>
     kern_dir s K \<and> K \<in> R \<and> reserved s (dirs s) R ps \<and> npages s \<le> 0x10000"

lemma kernel_invD:
  assumes "kernel_inv s K R pin ps es"
  shows "memory_inv s (dirs s) pin ps" "inj_on (env_dir s) (live s)"
    "\<And>i. i \<in> live s \<Longrightarrow> env_pgdir (envs s i) = kpage (env_dir s i)" "env_ok s es" "kern_dir s K"
    "K \<in> R" "reserved s (dirs s) R ps" "npages s \<le> 0x10000"
    "\<And>i. i \<in> live s \<Longrightarrow> env_dir s i \<in> dirs s"
  using assms by (auto simp: kernel_inv_def dirs_def)

lemma kernel_inv_cong:
  assumes "pmem t = pmem s" "pages t = pages s" "npages t = npages s" "page_free_list t = page_free_list s"
    "kern_pgdir t = kern_pgdir s" "env_free_list t = env_free_list s"
    "\<And>i. i < NENV \<Longrightarrow> env_pgdir (envs t i) = env_pgdir (envs s i) \<and> env_id (envs t i) = env_id (envs s i) \<and>
       env_link (envs t i) = env_link (envs s i) \<and>
       (env_status (envs t i) = ENV_FREE \<longleftrightarrow> env_status (envs s i) = ENV_FREE)"
    and inv: "kernel_inv s K R pin ps es"
  shows "kernel_inv t K R pin ps es" "dirs t = dirs s" "live t = live s"
proof -
  note e = entry_pmem_cong [OF assms(1)]
  show lv: "live t = live s" using assms(7) by (auto simp: live_def)
  have ed: "env_dir t i = env_dir s i" if "i \<in> live s" for i using assms(7) that by (auto simp: env_dir_def live_def)
  then show ds: "dirs t = dirs s" by (simp add: dirs_def lv)
  note k = kernel_invD [OF inv]
  have "env_ok t es"
  proof -
    have sub: "set es \<subseteq> {..<NENV}" using k(4) by (auto simp: env_ok_def)
    have "chain (\<lambda>i. env_link (envs t i)) h es = chain (\<lambda>i. env_link (envs s i)) h es" for h
      by (rule chain_cong) (use sub assms(7) in auto)
    then show ?thesis using k(4) assms(6,7) lv by (auto simp: env_ok_def live_def)
  qed
  moreover have "inj_on (env_dir t) (live t)" using k(2) ed lv by (simp add: inj_on_def)
  moreover have "\<forall>i \<in> live t. env_pgdir (envs t i) = kpage (env_dir t i)"
    using k(3) ed lv assms(7) by (auto simp: live_def)
  ultimately show "kernel_inv t K R pin ps es"
    using k memory_inv_cong [OF assms(1-4)] refs_cong [OF e] e assms(3,5)
    by (simp add: kernel_inv_def ds kern_dir_def reserved_def)
qed

lemma env_dir_kpage: "p < 0x100000 \<Longrightarrow> PGNUM (kpage p - KERNBASE) = p"
  by (simp add: PGNUM_frame)

lemma env_ok_pop:
  assumes "env_ok s (e # es)"
  shows "e < NENV" "env_status (envs s e) = ENV_FREE" "env_free_list s = Some e" "e \<notin> set es" "e \<notin> live s"
    "env_link (envs s e) = (case es of [] \<Rightarrow> None | i # _ \<Rightarrow> Some i)"
  using assms by (auto simp: env_ok_def live_def split: list.split)

text \<open>Taking slot \<open>e\<close> off the free list.\<close>

lemma env_ok_alloc:
  assumes ok: "env_ok s (e # es)" and t: "envs t = (envs s)(e := x)" "env_free_list t = env_link (envs s e)"
    and x: "env_status x \<noteq> ENV_FREE" "ENVX (env_id x) = e" "0 < sint (env_id x)"
  shows "env_ok t es" "live t = insert e (live s)"
proof -
  note p = env_ok_pop [OF ok]
  show lv: "live t = insert e (live s)" using p x(1) by (auto simp: live_def t)
  have c: "chain (\<lambda>i. env_link (envs t i)) h es = chain (\<lambda>i. env_link (envs s i)) h es" for h
    by (rule chain_cong) (use p(4) t(1) in auto)
  have "chain (\<lambda>i. env_link (envs s i)) (env_link (envs s e)) es" using ok by (simp add: env_ok_def)
  moreover have "set es = {i. i < NENV \<and> env_status (envs t i) = ENV_FREE}"
    using ok p x(1) by (auto simp: env_ok_def t(1) set_eq_iff)
  ultimately show "env_ok t es" using ok p x lv c by (auto simp: env_ok_def t)
qed

lemma env_ok_free:
  assumes ok: "env_ok s es" and e: "e \<in> live s"
    and t: "envs t = (envs s)(e := x)" "env_free_list t = Some e"
    and x: "env_status x = ENV_FREE" "env_link x = env_free_list s"
  shows "env_ok t (e # es)" "live t = live s - {e}"
proof -
  have ne: "e \<notin> set es" "e < NENV" using ok e by (auto simp: env_ok_def live_def)
  show lv: "live t = live s - {e}" using x(1) by (auto simp: live_def t)
  have "chain (\<lambda>i. env_link (envs t i)) h es = chain (\<lambda>i. env_link (envs s i)) h es" for h
    by (rule chain_cong) (use ne t(1) in auto)
  moreover have "set (e # es) = {i. i < NENV \<and> env_status (envs t i) = ENV_FREE}"
    using ok ne x(1) by (auto simp: env_ok_def t(1) set_eq_iff)
  ultimately show "env_ok t (e # es)" using ok ne x lv by (auto simp: env_ok_def t)
qed

section \<open>Allocation and release keep the invariant\<close>

text \<open>The environment \<^const>\<open>env_alloc\<close> leaves in slot \<open>e\<close>, with directory \<open>p\<close>.\<close>

definition fresh_env :: "nat \<Rightarrow> u32 \<Rightarrow> u32 \<Rightarrow> env \<Rightarrow> env" where
  "fresh_env e parent_id p x = x\<lparr>env_pgdir := kpage p, env_id := next_env_id (env_id x) e,
     env_parent_id := parent_id, env_type := ENV_TYPE_USER, env_status := ENV_RUNNABLE,
     env_runs := 0, env_priority := P3,
     env_tf := zero_tf\<lparr>tf_ds := GD_UD OR 3, tf_es := GD_UD OR 3, tf_ss := GD_UD OR 3,
       tf_esp := USTACKTOP, tf_cs := GD_UT OR 3, tf_eflags := FL_IF\<rparr>,
     env_pgfault_upcall := 0, env_ipc_recving := False\<rparr>"

lemma env_alloc_fail:
  assumes "kernel_inv s K R pin ps es"
  shows "es = [] \<Longrightarrow> env_alloc parent_id s = Ret (- E_NO_FREE_ENV, None) s"
    "es = e # es' \<Longrightarrow> ps = [] \<Longrightarrow> env_alloc parent_id s = Ret (- E_NO_MEM, None) s"
proof -
  note k = kernel_invD [OF assms]
  show "env_alloc parent_id s = Ret (- E_NO_FREE_ENV, None) s" if "es = []"
    using k(4) that by (simp add: env_alloc_def env_ok_def)
  show "env_alloc parent_id s = Ret (- E_NO_MEM, None) s" if "es = e # es'" "ps = []"
    using k(4) that env_setup_vm_nomem memory_invD(1) [OF k(1)] by (simp add: env_alloc_def env_ok_def)
qed

lemma env_alloc_inv:
  assumes inv: "kernel_inv s K R pin (p # ps) (e # es)"
  shows "\<exists>t. env_alloc parent_id s = Ret (0, Some e) t \<and> kernel_inv t K R pin ps es \<and>
    envs t = (envs s)(e := fresh_env e parent_id p (envs s e)) \<and> live t = insert e (live s) \<and> curenv t = curenv s \<and>
    dirs t = insert p (dirs s) \<and> p \<notin> dirs s \<and>
    (\<forall>D \<in> dirs s. \<forall>va. uslot (PDX va) \<longrightarrow> pte t D va = pte s D va) \<and>
    (\<forall>va. uslot (PDX va) \<longrightarrow> \<not> present (pte t p va)) \<and>
    (\<forall>a. PGNUM a \<noteq> p \<longrightarrow> pmem t a = pmem s a) \<and> (\<forall>i. uslot i \<longrightarrow> \<not> present (entry t p i)) \<and>
    npages t = npages s \<and> cpus t = cpus s \<and> this_cpu t = this_cpu s \<and> nic t = nic s \<and> kernel_lock t = kernel_lock s"
proof -
  note k = kernel_invD [OF inv]
  note pop = env_ok_pop [OF k(4)]
  let ?v = "setup_state e p ps s"
  have p: "p < npages s" "plain s (dirs s) p" using page_alloc_inv(3,4) [OF k(1)] by auto
  then have p': "p < 0x100000" "p \<notin> dirs s" using small_page [OF k(1)] by (auto simp: plain_def)
  have Kp: "K \<noteq> p" "kern_pgdir s = kpage K" using k(5,6,7) by (auto simp: reserved_def kern_dir_def)
  define t where "t = (upd_env e (fresh_env e parent_id p) ?v)\<lparr>env_free_list := env_link (envs ?v e)\<rparr>"
  have res: "env_alloc parent_id s = Ret (0, Some e) t"
    using pop(3) env_setup_vm_eq [OF memory_invD(1) [OF k(1)] k(8), of e]
    by (simp add: env_alloc_def t_def fresh_env_def upd_env_def Let_def)
  have et: "envs t = (envs s)(e := fresh_env e parent_id p (envs s e))"
    by (auto simp: t_def fresh_env_def fun_upd_def)
  have pt: "pmem t = pmem ?v" "pages t = pages ?v" "npages t = npages ?v" "page_free_list t = page_free_list ?v"
    "kern_pgdir t = kern_pgdir ?v" by (simp_all add: t_def)
  note ev = entry_pmem_cong [OF pt(1)]
  note su = setup_state_inv [OF k(1,5) Kp(1) refl, where e = e]
  have ok: "env_ok t es" "live t = insert e (live s)"
    using env_ok_alloc [OF k(4) et] ENVX_next next_env_id_pos pop(1)
    by (simp_all add: t_def fresh_env_def NENV_def)
  have ed: "env_dir t e = p" "\<And>i. i \<noteq> e \<Longrightarrow> env_dir t i = env_dir s i"
    using env_dir_kpage [OF p'(1)] by (simp_all add: env_dir_def et fresh_env_def)
  have el: "env_dir t i = env_dir s i" if "i \<in> live s" for i using ed(2) pop(5) that by metis
  then have im: "env_dir t ` live s = env_dir s ` live s" by (simp cong: image_cong)
  then have ds: "dirs t = insert p (dirs s)" using ok(2) ed(1) by (simp add: dirs_def)
  have mi: "memory_inv t (dirs t) pin ps" using su(1) memory_inv_cong [OF pt(1-4)] ds by simp
  moreover have "inj_on (env_dir t) (live t)"
    using k(2) p'(2) ed(1) ok(2) el im inj_on_cong [of "live s" "env_dir t" "env_dir s"] pop(5)
    by (simp add: inj_on_insert dirs_def)
  moreover have "\<forall>i \<in> live t. env_pgdir (envs t i) = kpage (env_dir t i)"
    using k(3) ok(2) ed(1) el et by (auto simp: fresh_env_def)
  moreover have "kern_dir t K" using su(2) ev pt(3,5) by (simp add: kern_dir_def)
  moreover have "reserved t (dirs t) R ps"
    using k(7) su(4) refs_cong [OF ev] ds by (auto simp: reserved_def)
  ultimately have ki: "kernel_inv t K R pin ps es" using ok(1) k(6,8) pt(3) by (simp add: kernel_inv_def)
  have np: "\<not> present (entry t p i)" if "uslot i" for i
    using setup_state_entry [OF p'(1) _ Kp, of i e ps] k(5) small_page [OF k(1)] ev that
    by (auto simp: kern_dir_def PDX_UVPT word_less_nat_alt)
  then have "\<not> present (pte t p va)" if "uslot (PDX va)" for va using that by (auto simp: pte_def)
  moreover have "pte t D va = pte s D va" if "D \<in> dirs s" "uslot (PDX va)" for D va
    using su(3) [OF that] pte_cong [OF ev] by simp
  moreover have "pmem t a = pmem s a" if "PGNUM a \<noteq> p" for a
    using setup_state_byte [OF p'(1) Kp(2) that] pt(1) by simp
  moreover have fr: "npages t = npages s" "cpus t = cpus s" "this_cpu t = this_cpu s" "nic t = nic s" "kernel_lock t = kernel_lock s"
    by (simp_all add: t_def setup_state_def set_entry_def kmemcpy_def upd_env_def upd_page_def alloc_state_def)
  moreover from fr have "curenv t = curenv s" by (simp add: curenv_def)
  ultimately show ?thesis using res ki et ok(2) ds p'(2) np by blast
qed

lemma env_free_kernel_inv:
  assumes inv: "kernel_inv s K R pin ps es" and e: "e \<in> live s"
  shows "\<exists>t ps'. env_free e s = Ret () t \<and> kernel_inv t K R pin ps' (e # es) \<and> live t = live s - {e} \<and>
    dirs t = dirs s - {env_dir s e} \<and> curenv t = curenv s \<and> env_status (envs t e) = ENV_FREE \<and>
    (\<forall>i. i \<noteq> e \<longrightarrow> envs t i = envs s i) \<and>
    (\<forall>D \<in> dirs t. \<forall>va. uslot (PDX va) \<longrightarrow> pte t D va = pte s D va) \<and>
    (\<forall>a. plain s (dirs s) (PGNUM a) \<longrightarrow> pmem t a = pmem s a)"
proof -
  note k = kernel_invD [OF inv]
  let ?D = "env_dir s e"
  have K: "kern_pgdir s = kpage K" "K < npages s" using k(5) by (auto simp: kern_dir_def)
  obtain t ps' where t: "env_free e s = Ret () t" "memory_inv t (dirs s - {?D}) pin ps'"
    "\<forall>q \<in> set ps'. q \<in> set ps \<or> refs s (dirs s) q \<noteq> {}" "\<forall>q. refs t (dirs s - {?D}) q \<subseteq> refs s (dirs s) q"
    "\<forall>a. plain s (dirs s) (PGNUM a) \<longrightarrow> pmem t a = pmem s a"
    "\<forall>D' \<in> dirs s - {?D}. \<forall>va. uslot (PDX va) \<longrightarrow> pte t D' va = pte s D' va"
    "envs t = (envs s)(e := (envs s e)\<lparr>env_pgdir := 0, env_status := ENV_FREE, env_link := env_free_list s\<rparr>)"
    "env_free_list t = Some e" "npages t = npages s" "kern_pgdir t = kern_pgdir s" "curenv t = curenv s"
    using env_free_inv [OF k(1) k(9) [OF e] k(3) [OF e] k(8) K] by blast
  have ok: "env_ok t (e # es)" "live t = live s - {e}" using env_ok_free [OF k(4) e t(7,8)] by simp_all
  have ed: "env_dir t i = env_dir s i" if "i \<noteq> e" for i using that t(7) by (simp add: env_dir_def)
  then have ds: "dirs t = dirs s - {?D}" using ok(2) k(2) e by (auto simp: dirs_def inj_on_def)
  have Kp: "refs s (dirs s) K = {}" using k(6,7) by (simp add: reserved_def)
  have K20: "K < 0x100000" using small_page [OF k(1) K(2)] .
  have "entry t K i = entry s K i" if "i < 1024" for i
    unfolding entry_def
  proof (rule ld32_cong)
    fix j :: u32 assume "j < 4"
    then have "PGNUM (entry_pa K i + j) = K"
      using PGNUM_aligned_add [OF aligned4_entry_pa [OF that]] PGNUM_entry_pa [OF that K20] by simp
    then show "pmem t (entry_pa K i + j) = pmem s (entry_pa K i + j)" using t(5) Kp by (simp add: refs_empty_iff)
  qed
  then have "kern_dir t K" using k(5) uslot_1024 t(9,10) by (simp add: kern_dir_def)
  moreover have "inj_on (env_dir t) (live t)" using k(2) ok(2) ed by (auto simp: inj_on_def)
  moreover have "\<forall>i \<in> live t. env_pgdir (envs t i) = kpage (env_dir t i)" using k(3) ok(2) ed t(7) by auto
  moreover have "reserved t (dirs t) R ps'"
    unfolding reserved_def ds
  proof
    fix q assume "q \<in> R"
    then have "refs s (dirs s) q = {}" "q \<notin> set ps" using k(7) by (auto simp: reserved_def)
    then show "refs t (dirs s - {?D}) q = {} \<and> q \<notin> set ps'" using t(3,4) by blast
  qed
  ultimately have "kernel_inv t K R pin ps' (e # es)"
    using t(2,9) k(6,8) ok(1) ds by (simp add: kernel_inv_def)
  then show ?thesis using t ok(2) ds by auto
qed

section \<open>Resolving ids\<close>

text \<open>With the invariant, an id resolves to at most one slot, the one that holds it.\<close>

lemma envid2env_eq:
  assumes "envid \<noteq> 0" "curenv s = Some c"
  shows "envid2env envid checkperm s =
    (if env_status (envs s (ENVX envid)) \<noteq> ENV_FREE \<and> env_id (envs s (ENVX envid)) = envid \<and>
        (checkperm \<longrightarrow> c = ENVX envid \<or> env_parent_id (envs s (ENVX envid)) = env_id (envs s c))
     then Ret (0, Some (ENVX envid)) s else Ret (- E_BAD_ENV, None) s)"
  using assms by (auto simp: envid2env_def Let_def)

lemma ENVX_less: "ENVX envid < NENV"
proof -
  have "envid AND 1023 \<le> (1023 :: u32)" by (rule word_and_le1)
  then have "unat (envid AND 1023) \<le> 1023" by (simp add: word_le_nat_alt)
  then show ?thesis by (simp add: ENVX_def NENV_def)
qed

end
