(* ===== verification/Sched.thy ===== *)
theory Sched
  imports Env
begin

text \<open>
  The scheduler (\<^verbatim>\<open>kern/sched.c\<close>, the round-robin version that is compiled),
  \<^verbatim>\<open>env_destroy\<close> of \<^verbatim>\<open>kern/env.c\<close>, \<^verbatim>\<open>user_mem_assert\<close> of \<^verbatim>\<open>kern/pmap.c\<close> and the clock
  of \<^verbatim>\<open>kern/time.c\<close>. Neither \<^verbatim>\<open>sched_yield\<close> nor \<^verbatim>\<open>sched_halt\<close> returns: they leave the
  kernel by running an environment, by halting the CPU, or for the kernel monitor.
\<close>

section \<open>Choosing an environment\<close>

datatype sched_choice = Run nat | NoneRunnable

text \<open>
  The loop of \<^verbatim>\<open>sched_yield\<close>: \<open>None\<close> when it never ends. Running an environment does not
  return, so that reaching \<^verbatim>\<open>env_run\<close> ends the loop.
\<close>

partial_function (option) sched_loop :: "kstate \<Rightarrow> u32 \<Rightarrow> u32 \<Rightarrow> sched_choice option" where
  "sched_loop s initial i =
     (if i \<ge> 1024 \<and> i mod 1024 = initial then
        Some (case curenv s of
            Some c \<Rightarrow>
              if env_status (envs s c) = ENV_RUNNING \<and>
                 env_id (envs s (unat ((i - 1) mod 1024))) = env_id (envs s c)
              then Run c else NoneRunnable
          | None \<Rightarrow> NoneRunnable)
      else if env_status (envs s (unat (i mod 1024))) = ENV_RUNNABLE then Some (Run (unat (i mod 1024)))
      else sched_loop s initial (i + 1))"

definition sched_halt :: "kstate \<Rightarrow> (unit, kstate) kres" where
  "sched_halt s =
     (if \<forall>i < NENV. env_status (envs s i) \<notin> {ENV_RUNNABLE, ENV_RUNNING, ENV_DYING}
      then Leave MonitorLoop s
      else
        let s = set_curenv None s in
        bindK (PADDR (kern_pgdir s) s) (\<lambda>pa s.
        let s = lcr3 pa s;
            s = s\<lparr>cpus := (cpus s)(this_cpu s := (cpus s (this_cpu s))\<lparr>cpu_status := CPU_HALTED\<rparr>)\<rparr> in
        bindK (unlock_kernel s) (\<lambda>_ s. Leave HaltCpu s)))"

definition sched_initial :: "kstate \<Rightarrow> u32" where
  "sched_initial s = (case curenv s of None \<Rightarrow> 0 | Some c \<Rightarrow> of_nat (ENVX (env_id (envs s c))) + 1)"

definition sched_yield :: "kstate \<Rightarrow> (unit, kstate) kres" where
  "sched_yield s =
     (case sched_loop s (sched_initial s) (sched_initial s) of
        None \<Rightarrow> Leave SpinForever s
      | Some (Run e) \<Rightarrow> env_run e s
      | Some NoneRunnable \<Rightarrow> sched_halt s)"

section \<open>Destroying environments and checking user memory\<close>

definition env_destroy :: "nat \<Rightarrow> kstate \<Rightarrow> (unit, kstate) kres" where
  "env_destroy e s =
     (if env_status (envs s e) = ENV_RUNNING \<and> curenv s \<noteq> Some e
      then Ret () (upd_env e (\<lambda>x. x\<lparr>env_status := ENV_DYING\<rparr>) s)
      else bindK (env_free e s) (\<lambda>_ s.
        if curenv s = Some e then sched_yield (set_curenv None s) else Ret () s))"

definition user_mem_assert :: "nat \<Rightarrow> u32 \<Rightarrow> u32 \<Rightarrow> u32 \<Rightarrow> kstate \<Rightarrow> (unit, kstate) kres" where
  "user_mem_assert env va len perm s =
     bindK (user_mem_check env va len (perm OR PTE_U) s) (\<lambda>r s.
       if r < 0 then env_destroy env s else Ret () s)"

section \<open>The clock\<close>

definition time_init :: "kstate \<Rightarrow> kstate" where
  "time_init s = s\<lparr>ticks := 0\<rparr>"

definition time_tick :: "kstate \<Rightarrow> (unit, kstate) kres" where
  "time_tick s =
     (let s = s\<lparr>ticks := ticks s + 1\<rparr> in
      if ticks s * 10 < ticks s then Panic ''time_tick: time overflowed'' else Ret () s)"

definition time_msec :: "kstate \<Rightarrow> u32" where
  "time_msec s = ticks s * 10"

section \<open>What the loop chooses\<close>

definition runnable :: "kstate \<Rightarrow> nat \<Rightarrow> bool" where
  "runnable s j \<longleftrightarrow> env_status (envs s j) = ENV_RUNNABLE"

text \<open>The reference: the first runnable slot in circular order from \<open>n\<close>, else the current
  environment if it is still running and is the one that sits just before \<open>n\<close>.\<close>

definition sched_ref :: "kstate \<Rightarrow> nat \<Rightarrow> sched_choice" where
  "sched_ref s n = (case find (runnable s) (map (\<lambda>k. (n + k) mod 1024) [0..<1024]) of
       Some j \<Rightarrow> Run j
     | None \<Rightarrow> (case curenv s of
           Some c \<Rightarrow> if env_status (envs s c) = ENV_RUNNING \<and> env_id (envs s ((n + 1023) mod 1024)) = env_id (envs s c)
             then Run c else NoneRunnable
         | None \<Rightarrow> NoneRunnable))"

lemma find_append: "find P (xs @ ys) = (case find P xs of None \<Rightarrow> find P ys | Some x \<Rightarrow> Some x)"
  by (induction xs) auto

lemma unat_mod_1024: "unat (w mod 1024 :: u32) = unat w mod 1024"
  by (simp add: unat_mod)

lemma sched_loop_from:
  assumes n: "n < 1024" and m: "m \<le> 1024" "find (runnable s) (map (\<lambda>k. (n + k) mod 1024) [0..<m]) = None"
  shows "sched_loop s (of_nat n) (of_nat (n + m)) = Some (sched_ref s n)"
  using m
proof (induction "1024 - m" arbitrary: m)
  case 0
  then have m: "m = 1024" by simp
  let ?i = "of_nat (n + m) :: u32"
  have u: "unat ?i = n + m" "unat (of_nat n :: u32) = n" using n m by (intro unat_of_nat_u32, simp)+
  then have "(1024 :: u32) \<le> ?i" "?i mod 1024 = of_nat n"
    using n m by (simp_all only: word_le_nat_alt word_unat_eq_iff unat_mod_1024) auto
  moreover have "unat ((of_nat (n + m) - 1 :: u32) mod 1024) = (n + 1023) mod 1024"
  proof -
    have "(of_nat (n + m) - 1 :: u32) = of_nat (n + 1023)" using m by simp
    moreover have "unat (of_nat (n + 1023) :: u32) = n + 1023" using n by (intro unat_of_nat_u32) simp
    ultimately show ?thesis by (simp only: unat_mod_1024)
  qed
  ultimately show ?case using 0(3) m by (subst sched_loop.simps) (simp only: sched_ref_def if_True HOL.simp_thms option.case option.inject)
next
  case (Suc d)
  then have lt: "m < 1024" by simp
  let ?i = "of_nat (n + m) :: u32"
  have u: "unat ?i = n + m" "unat (of_nat n :: u32) = n" using n lt by (intro unat_of_nat_u32, simp)+
  have ne: "\<not> (?i \<ge> 1024 \<and> ?i mod 1024 = of_nat n)"
  proof
    assume a: "?i \<ge> 1024 \<and> ?i mod 1024 = of_nat n"
    then have "n + m \<ge> 1024" "(n + m) mod 1024 = n"
      using u n by (simp_all only: word_le_nat_alt word_unat_eq_iff unat_mod_1024) auto
    then show False using n lt by (auto simp: le_mod_geq)
  qed
  have um: "unat (?i mod 1024) = (n + m) mod 1024" using u(1) by (simp only: unat_mod_1024)
  have eq: "sched_loop s (of_nat n) ?i =
    (if runnable s ((n + m) mod 1024) then Some (Run ((n + m) mod 1024)) else sched_loop s (of_nat n) (?i + 1))"
    by (subst sched_loop.simps) (simp only: ne um runnable_def if_False)
  show ?case
  proof (cases "runnable s ((n + m) mod 1024)")
    case True
    have "[0..<1024] = [0..<m] @ m # [Suc m..<1024]" using lt by (metis less_imp_le_nat upt_add_eq_append upt_conv_Cons le_add_diff_inverse zero_le)
    then have "find (runnable s) (map (\<lambda>k. (n + k) mod 1024) [0..<1024]) = Some ((n + m) mod 1024)"
      using Suc.prems(2) True by (simp add: find_append)
    then show ?thesis using eq True by (simp add: sched_ref_def)
  next
    case False
    then have "find (runnable s) (map (\<lambda>k. (n + k) mod 1024) [0..<Suc m]) = None"
      using Suc.prems(2) by (auto simp: find_None_iff)
    then have "sched_loop s (of_nat n) (of_nat (n + Suc m)) = Some (sched_ref s n)"
      using Suc lt by (intro Suc.hyps) auto
    moreover have "(of_nat (n + Suc m) :: u32) = ?i + 1" by simp
    ultimately show ?thesis using eq False by metis
  qed
qed

lemma sched_loop_eq: "n < 1024 \<Longrightarrow> sched_loop s (of_nat n) (of_nat n) = Some (sched_ref s n)"
  using sched_loop_from [of n 0 s] by simp

text \<open>
  With the current environment in the last slot the start is 1024, which no remainder
  equals: without a runnable environment the loop does not end.
\<close>

lemma sched_loop_spins:
  assumes none: "\<And>j. j < 1024 \<Longrightarrow> \<not> runnable s j"
  shows "sched_loop s 1024 i = None"
proof -
  let ?P = "\<lambda>s (initial :: u32) (i :: u32) (y :: sched_choice). (\<forall>j < 1024. \<not> runnable s j) \<longrightarrow> initial \<noteq> 1024"
  have "?P s initial i y" if "sched_loop s initial i = Some y" for s initial i y
  proof (rule sched_loop.raw_induct [where P = ?P, OF _ that], goal_cases)
    case (1 loop s initial i y)
    have m: "unat (i mod 1024) < 1024" by (simp add: unat_mod_1024)
    then have "i mod 1024 \<noteq> 1024" by (auto simp: word_unat_eq_iff)
    then show ?case using 1 m by (auto simp: runnable_def split: if_splits)
  qed
  then show ?thesis using none by (cases "sched_loop s 1024 i") blast+
qed

section \<open>Leaving the kernel keeps the invariant\<close>

lemma set_curenv_fields [simp]:
  "envs (set_curenv e s) = envs s" "pmem (set_curenv e s) = pmem s" "pages (set_curenv e s) = pages s"
  "npages (set_curenv e s) = npages s" "page_free_list (set_curenv e s) = page_free_list s"
  "kern_pgdir (set_curenv e s) = kern_pgdir s" "env_free_list (set_curenv e s) = env_free_list s"
  "curenv (set_curenv e s) = e" "this_cpu (set_curenv e s) = this_cpu s" "kernel_lock (set_curenv e s) = kernel_lock s"
  by (simp_all add: set_curenv_def curenv_def)

lemma unlock_kernel_cases:
  "unlock_kernel s = (if holding (this_cpu s) (kernel_lock s)
     then Ret () (s\<lparr>kernel_lock := (kernel_lock s)\<lparr>lk_cpu := None, locked := 0\<rparr>\<rparr>) else Panic ''spin_unlock'')"
  by (simp add: unlock_kernel_def spin_unlock_def)

text \<open>The invariant with some choice of free lists and pins.\<close>

definition kernel_ok :: "u32 \<Rightarrow> u32 set \<Rightarrow> (u32 \<Rightarrow> nat) \<Rightarrow> kstate \<Rightarrow> bool" where
  "kernel_ok K R pin s \<longleftrightarrow> (\<exists>ps es. kernel_inv s K R pin ps es)"

lemma kernel_ok_cong:
  assumes "kernel_ok K R pin s" "pmem t = pmem s" "pages t = pages s" "npages t = npages s" "page_free_list t = page_free_list s"
    "kern_pgdir t = kern_pgdir s" "env_free_list t = env_free_list s"
    "\<And>i. i < NENV \<Longrightarrow> env_pgdir (envs t i) = env_pgdir (envs s i) \<and> env_id (envs t i) = env_id (envs s i) \<and>
       env_link (envs t i) = env_link (envs s i) \<and>
       (env_status (envs t i) = ENV_FREE \<longleftrightarrow> env_status (envs s i) = ENV_FREE)"
  shows "kernel_ok K R pin t"
proof -
  obtain ps es where "kernel_inv s K R pin ps es" using assms(1) by (auto simp: kernel_ok_def)
  then have "kernel_inv t K R pin ps es" using kernel_inv_cong(1) [OF assms(2-8)] by blast
  then show ?thesis by (auto simp: kernel_ok_def)
qed

lemma upd_env_ok:
  assumes "kernel_ok K R pin s" "\<And>x. env_pgdir (f x) = env_pgdir x" "\<And>x. env_id (f x) = env_id x"
    "\<And>x. env_link (f x) = env_link x" "env_status (f (envs s e)) = ENV_FREE \<longleftrightarrow> env_status (envs s e) = ENV_FREE"
  shows "kernel_ok K R pin (upd_env e f s)"
  by (rule kernel_ok_cong [OF assms(1)]) (use assms(2-5) in auto)

lemma env_run_ok:
  assumes "kernel_ok K R pin s" "env_status (envs s e) \<noteq> ENV_FREE"
  shows "wpK (\<lambda>_ _. False) (\<lambda>c t. c = RunEnv e \<and> kernel_ok K R pin t \<and> curenv t = Some e \<and>
    env_status (envs t e) = ENV_RUNNING \<and> cr3 t = env_pgdir (envs t e) - KERNBASE \<and>
    \<not> holding (this_cpu t) (kernel_lock t)) (env_run e s)"
proof -
  define s1 where "s1 = (case curenv s of
      Some c \<Rightarrow> if env_status (envs s c) = ENV_RUNNING then upd_env c (\<lambda>x. x\<lparr>env_status := ENV_RUNNABLE\<rparr>) s else s
    | None \<Rightarrow> s)"
  have s1: "kernel_ok K R pin s1" "env_status (envs s1 e) \<noteq> ENV_FREE" "env_pgdir (envs s1 i) = env_pgdir (envs s i)" for i
    using assms by (auto simp: s1_def split: option.split intro!: upd_env_ok)
  define s2 where "s2 = upd_env e (\<lambda>x. x\<lparr>env_status := ENV_RUNNING, env_runs := env_runs x + 1\<rparr>) (set_curenv (Some e) s1)"
  have "kernel_ok K R pin (set_curenv (Some e) s1)" by (rule kernel_ok_cong [OF s1(1)]) simp_all
  then have s2: "kernel_ok K R pin s2" using s1(2) unfolding s2_def by (intro upd_env_ok) auto
  have f2: "env_pgdir (envs s2 e) = env_pgdir (envs s e)" "curenv s2 = Some e" "env_status (envs s2 e) = ENV_RUNNING"
    using s1(3) by (simp_all add: s2_def)
  define t where "t = upd_env e (\<lambda>x. x\<lparr>env_cpunum := this_cpu s2\<rparr>)
    ((lcr3 (env_pgdir (envs s2 e) - KERNBASE) s2)\<lparr>kernel_lock := (kernel_lock s2)\<lparr>lk_cpu := None, locked := 0\<rparr>\<rparr>)"
  have "kernel_ok K R pin t" by (rule kernel_ok_cong [OF s2]) (simp_all add: t_def lcr3_def)
  moreover have "curenv t = Some e" "env_status (envs t e) = ENV_RUNNING" "cr3 t = env_pgdir (envs t e) - KERNBASE"
    "\<not> holding (this_cpu t) (kernel_lock t)"
    using f2 by (simp_all add: t_def lcr3_def curenv_def upd_env_def holding_def)
  moreover have "env_run e s = (if env_pgdir (envs s2 e) < KERNBASE then Panic ''PADDR called with invalid kva''
      else if holding (this_cpu s2) (kernel_lock s2) then Leave (RunEnv e) t else Panic ''spin_unlock'')"
    unfolding env_run_def Let_def s1_def [symmetric] s2_def [symmetric]
    using f2(2) by (simp add: PADDR_def unlock_kernel_cases env_pop_tf_def t_def lcr3_def curenv_def)
  ultimately show ?thesis by simp
qed

lemma sched_loop_status:
  assumes "sched_loop s initial i = Some (Run e)"
  shows "runnable s e \<and> e < 1024 \<or> curenv s = Some e \<and> env_status (envs s e) = ENV_RUNNING"
proof -
  let ?P = "\<lambda>s (initial :: u32) (i :: u32) y. \<forall>e. y = Run e \<longrightarrow>
    runnable s e \<and> e < 1024 \<or> curenv s = Some e \<and> env_status (envs s e) = ENV_RUNNING"
  have "?P s initial i (Run e)"
  proof (rule sched_loop.raw_induct [where P = ?P, OF _ assms], goal_cases)
    case (1 loop s initial i y)
    then show ?case by (auto simp: runnable_def unat_mod split: if_splits option.splits)
  qed
  then show ?thesis by simp
qed

lemma wpK_false: "wpK (\<lambda>_ _. False) R m \<Longrightarrow> (\<And>c s. R c s \<Longrightarrow> R' c s) \<Longrightarrow> wpK Q R' m"
  by (erule wpK_weaken) auto

lemma sched_halt_ok:
  assumes "kernel_ok K R pin s"
  shows "wpK (\<lambda>_ _. False) (\<lambda>_ t. kernel_ok K R pin t) (sched_halt s)"
proof -
  have "kernel_ok K R pin (set_curenv None s)" by (rule kernel_ok_cong [OF assms]) simp_all
  then have "kernel_ok K R pin ((lcr3 pa (set_curenv None s))\<lparr>cpus := c, kernel_lock := l\<rparr>)" for pa c l
    by (rule kernel_ok_cong) (simp_all add: lcr3_def)
  then show ?thesis using assms
    by (auto simp: sched_halt_def Let_def PADDR_def unlock_kernel_cases)
qed

lemma sched_yield_ok:
  assumes "kernel_ok K R pin s"
  shows "wpK (\<lambda>_ _. False) (\<lambda>_ t. kernel_ok K R pin t) (sched_yield s)"
proof (cases "sched_loop s (sched_initial s) (sched_initial s)")
  case None
  then show ?thesis using assms by (simp add: sched_yield_def)
next
  case (Some ch)
  show ?thesis
  proof (cases ch)
    case (Run e)
    then have "sched_loop s (sched_initial s) (sched_initial s) = Some (Run e)" using Some by simp
    from sched_loop_status [OF this] have "env_status (envs s e) \<noteq> ENV_FREE" by (auto simp: runnable_def)
    from wpK_false [OF env_run_ok [OF assms this]] show ?thesis using Some Run by (simp add: sched_yield_def)
  next
    case NoneRunnable
    then show ?thesis using Some sched_halt_ok [OF assms] by (simp add: sched_yield_def)
  qed
qed

lemma env_destroy_ok:
  assumes ok: "kernel_ok K R pin s" and e: "e \<in> live s"
  shows "wpK (\<lambda>_ t. kernel_ok K R pin t) (\<lambda>_ t. kernel_ok K R pin t) (env_destroy e s)"
proof (cases "env_status (envs s e) = ENV_RUNNING \<and> curenv s \<noteq> Some e")
  case True
  then have "kernel_ok K R pin (upd_env e (\<lambda>x. x\<lparr>env_status := ENV_DYING\<rparr>) s)" by (intro upd_env_ok [OF ok]) auto
  then show ?thesis using True by (simp add: env_destroy_def)
next
  case False
  obtain ps es where "kernel_inv s K R pin ps es" using ok by (auto simp: kernel_ok_def)
  from env_free_kernel_inv [OF this e] obtain t ps' where t: "env_free e s = Ret () t" "kernel_inv t K R pin ps' (e # es)"
    by blast
  then have ok': "kernel_ok K R pin t" by (auto simp: kernel_ok_def)
  have "kernel_ok K R pin (set_curenv None t)" by (rule kernel_ok_cong [OF ok']) simp_all
  from wpK_false [OF sched_yield_ok [OF this]] show ?thesis
    using False t(1) ok' by (auto simp: env_destroy_def)
qed

end
