(* ===== verification/E1000.thy ===== *)
theory E1000
  imports Sched
begin

text \<open>
  The network driver (\<^verbatim>\<open>kern/e1000.c\<close>). The card is its registers and the two descriptor
  rings it shares with the driver; what the card does to them is up to the environment of
  the model: \<open>eerd\<close> gives the content the EEPROM read register takes after a command,
  \<^term>\<open>None\<close> if the card does not answer.
\<close>

section \<open>Registers\<close>

text \<open>Register numbers: byte offsets divided by the size of a register.\<close>

definition reg_STATUS :: u32 where "reg_STATUS = 0x00008 div 4"
definition reg_EERD :: u32 where "reg_EERD = 0x00014 div 4"
definition reg_RCTL :: u32 where "reg_RCTL = 0x00100 div 4"
definition reg_TCTL :: u32 where "reg_TCTL = 0x00400 div 4"
definition reg_TIPG :: u32 where "reg_TIPG = 0x00410 div 4"
definition reg_RDBAL :: u32 where "reg_RDBAL = 0x02800 div 4"
definition reg_RDBAH :: u32 where "reg_RDBAH = 0x02804 div 4"
definition reg_RDLEN :: u32 where "reg_RDLEN = 0x02808 div 4"
definition reg_RDH :: u32 where "reg_RDH = 0x02810 div 4"
definition reg_RDT :: u32 where "reg_RDT = 0x02818 div 4"
definition reg_TDBAL :: u32 where "reg_TDBAL = 0x03800 div 4"
definition reg_TDBAH :: u32 where "reg_TDBAH = 0x03804 div 4"
definition reg_TDLEN :: u32 where "reg_TDLEN = 0x03808 div 4"
definition reg_TDH :: u32 where "reg_TDH = 0x03810 div 4"
definition reg_TDT :: u32 where "reg_TDT = 0x03818 div 4"
definition reg_MTA :: u32 where "reg_MTA = 0x05200 div 4"
definition reg_RAL :: u32 where "reg_RAL = 0x05400 div 4"
definition reg_RAH :: u32 where "reg_RAH = 0x05404 div 4"

lemmas reg_defs = reg_STATUS_def reg_EERD_def reg_RCTL_def reg_TCTL_def reg_TIPG_def reg_RDBAL_def
  reg_RDBAH_def reg_RDLEN_def reg_RDH_def reg_RDT_def reg_TDBAL_def reg_TDBAH_def reg_TDLEN_def
  reg_TDH_def reg_TDT_def reg_MTA_def reg_RAL_def reg_RAH_def

definition n_tx_desc :: nat where "n_tx_desc = 32"
definition n_rx_desc :: nat where "n_rx_desc = 256"
definition max_receive_size :: u32 where "max_receive_size = 2048"
definition max_packet_size :: u32 where "max_packet_size = 1518"

definition E1000_TXD_STAT_DD :: u8 where "E1000_TXD_STAT_DD = 1"
definition E1000_RXD_STAT_DD :: u8 where "E1000_RXD_STAT_DD = 1"
definition E1000_RXD_STAT_EOP :: u8 where "E1000_RXD_STAT_EOP = 2"

definition io_read :: "u32 \<Rightarrow> kstate \<Rightarrow> u32" where
  "io_read r s = e1000_io (nic s) r"

definition io_write :: "u32 \<Rightarrow> u32 \<Rightarrow> kstate \<Rightarrow> kstate" where
  "io_write r v s = s\<lparr>nic := (nic s)\<lparr>e1000_io := (e1000_io (nic s))(r := v)\<rparr>\<rparr>"

definition set_tx_desc :: "nat \<Rightarrow> tx_desc \<Rightarrow> kstate \<Rightarrow> kstate" where
  "set_tx_desc i d s = s\<lparr>nic := (nic s)\<lparr>tx_desc_list := (tx_desc_list (nic s))(i := d)\<rparr>\<rparr>"

definition set_rx_desc :: "nat \<Rightarrow> rx_desc \<Rightarrow> kstate \<Rightarrow> kstate" where
  "set_rx_desc i d s = s\<lparr>nic := (nic s)\<lparr>rx_desc_list := (rx_desc_list (nic s))(i := d)\<rparr>\<rparr>"

section \<open>The hardware address\<close>

text \<open>
  One turn of the loop of \<^verbatim>\<open>e1000_get_mac_addr\<close>: a read command, and waiting for the bit
  \<^verbatim>\<open>E1000_EERD_DONE\<close>. The caller's array receives the words in turn.
\<close>

definition read_mac_word :: "(u32 \<Rightarrow> u32 option) \<Rightarrow> nat \<Rightarrow> kstate \<Rightarrow> (u16, kstate) kres" where
  "read_mac_word eerd addr_n s =
     (let cmd = push_bit 8 (0 + of_nat addr_n) OR 1; s = io_write reg_EERD cmd s in
      case eerd cmd of
        None \<Rightarrow> Leave SpinForever s
      | Some v \<Rightarrow>
          let s = io_write reg_EERD v s in
          if v AND 0x10 \<noteq> 0 then Ret (ucast (drop_bit 16 v)) s else Leave SpinForever s)"

definition get_mac_step :: "(u32 \<Rightarrow> u32 option) \<Rightarrow> u32 \<Rightarrow> nat \<Rightarrow> kstate \<Rightarrow> (unit, kstate) kres" where
  "get_mac_step eerd mac_addr n s =
     bindK (read_mac_word eerd n s) (\<lambda>w s.
       vwrite (mac_addr + 2 * of_nat n) [ucast w, ucast (drop_bit 8 w)] s)"

definition e1000_get_mac_addr :: "(u32 \<Rightarrow> u32 option) \<Rightarrow> u32 \<Rightarrow> kstate \<Rightarrow> (int, kstate) kres" where
  "e1000_get_mac_addr eerd mac_addr s =
     bindK (foldK (get_mac_step eerd mac_addr) [0..<3] s) (\<lambda>_ s. Ret 0 s)"

section \<open>Initialisation\<close>

definition tx_desc_init :: "u32 \<Rightarrow> tx_desc" where
  "tx_desc_init pa = \<lparr>tx_addr_lower = pa, tx_addr_upper = 0, tx_length = 0, tx_cso = 0,
     tx_cmd = push_bit 3 1 OR 1, tx_status = E1000_TXD_STAT_DD, tx_css = 0, tx_special = 0\<rparr>"

definition rx_desc_init :: "u32 \<Rightarrow> rx_desc" where
  "rx_desc_init pa = \<lparr>rx_addr_lower = pa, rx_addr_upper = 0, rx_length = 0, rx_checksum = 0,
     rx_status = 0, rx_errors = 0, rx_special = 0\<rparr>"

definition init_transmit_step :: "nat \<Rightarrow> kstate \<Rightarrow> (unit, kstate) kres" where
  "init_transmit_step n s =
     bindK (page_alloc True s) (\<lambda>buffer_page s. case buffer_page of
       None \<Rightarrow> Panic ''init_transmit: page_alloc error while creating descriptors.''
     | Some p \<Rightarrow>
         Ret () (set_tx_desc n (tx_desc_init (page2pa p)) (upd_page p (\<lambda>q. q\<lparr>pp_ref := pp_ref q + 1\<rparr>) s)))"

definition init_transmit :: "u32 \<Rightarrow> kstate \<Rightarrow> (int, kstate) kres" where
  "init_transmit tx_list_va s =
     bindK (PADDR tx_list_va s) (\<lambda>pa s.
     bindK (assertK (pa mod 16 = 0) ''(PADDR(&tx_desc_list)%16) == 0'' s) (\<lambda>_ s.
     let s = io_write reg_TDBAL pa s;
         s = io_write reg_TDBAH 0 s;
         s = io_write reg_TDLEN (of_nat n_tx_desc * 16) s;
         s = io_write reg_TDH 0 s;
         s = io_write reg_TDT 0 s;
         s = io_write reg_TCTL (0x2 OR 0x8 OR 0x40000) s;
         s = io_write reg_TIPG (push_bit 0x14 0x0C OR push_bit 0x0A 0x08 OR push_bit 0 0x0A) s
     in bindK (foldK init_transmit_step [0..<n_tx_desc] s) (\<lambda>_ s. Ret 0 s)))"

definition init_receive_step :: "nat \<Rightarrow> kstate \<Rightarrow> (unit, kstate) kres" where
  "init_receive_step n s =
     bindK (page_alloc True s) (\<lambda>buffer_page s. case buffer_page of
       None \<Rightarrow> Panic ''init_receive: page_alloc error while creating descriptors.''
     | Some p \<Rightarrow>
         Ret () (set_rx_desc n (rx_desc_init (page2pa p)) (upd_page p (\<lambda>q. q\<lparr>pp_ref := pp_ref q + 1\<rparr>) s)))"

text \<open>The array \<^verbatim>\<open>mac_addr\<close> is a local variable here.\<close>

definition init_receive :: "(u32 \<Rightarrow> u32 option) \<Rightarrow> u32 \<Rightarrow> kstate \<Rightarrow> (int, kstate) kres" where
  "init_receive eerd rx_list_va s =
     bindK (read_mac_word eerd 0 s) (\<lambda>mac0 s.
     bindK (read_mac_word eerd 1 s) (\<lambda>mac1 s.
     bindK (read_mac_word eerd 2 s) (\<lambda>mac2 s.
     let s = io_write reg_RAL (push_bit 16 (ucast mac1) OR ucast mac0) s;
         s = io_write reg_RAH (push_bit 31 1 OR ucast mac2) s;
         s = fold (\<lambda>k. io_write (reg_MTA + of_nat k) 0) [0..<128] s
     in
     bindK (PADDR rx_list_va s) (\<lambda>pa s.
     bindK (assertK (pa mod 16 = 0) ''(PADDR(&rx_desc_list)%16) == 0'' s) (\<lambda>_ s.
     let s = io_write reg_RDBAL pa s;
         s = io_write reg_RDBAH 0 s;
         s = io_write reg_RDLEN (of_nat n_rx_desc * 16) s;
         s = io_write reg_RDH 1 s;
         s = io_write reg_RDT 0 s
     in
     bindK (foldK init_receive_step [0..<n_rx_desc] s) (\<lambda>_ s.
     Ret 0 (io_write reg_RCTL (0x4000000 OR 0 OR 0x8000 OR 0x2) s)))))))"

definition pci_attach_E1000 :: "u32 \<Rightarrow> u32 \<Rightarrow> (u32 \<Rightarrow> u32 option) \<Rightarrow> u32 \<Rightarrow> u32 \<Rightarrow> kstate \<Rightarrow> (int, kstate) kres" where
  \<comment> \<open>\<open>reg_base\<close> and \<open>reg_size\<close> are what \<^verbatim>\<open>pci_func_enable\<close> found in the first base register\<close>
  "pci_attach_E1000 reg_base reg_size eerd tx_list_va rx_list_va s =
     bindK (mmio_map_region reg_base reg_size s) (\<lambda>_ s.
     bindK (assertK (io_read reg_STATUS s = 0x80080783) ''e1000_io[reg_STATUS] == 0x80080783'' s) (\<lambda>_ s.
     bindK (init_transmit tx_list_va s) (\<lambda>r s.
     if r < 0 then Ret r s
     else bindK (init_receive eerd rx_list_va s) (\<lambda>r s. if r < 0 then Ret r s else Ret 0 s))))"

section \<open>Sending and receiving\<close>

text \<open>The packet is in the caller's memory, read and written through the page tables.\<close>

definition e1000_transmit_packet :: "u32 \<Rightarrow> u32 \<Rightarrow> kstate \<Rightarrow> (int, kstate) kres" where
  "e1000_transmit_packet packet sz s =
     (if sz > max_packet_size then Panic ''e1000_transmit_packet: Packet size is too large.''
      else bindK (assertK (sz \<le> 1000) ''size <= 1000'' s) (\<lambda>_ s.
        let desc_offset = unat (io_read reg_TDT s); d = tx_desc_list (nic s) desc_offset in
        if tx_status d AND E1000_TXD_STAT_DD = 0 then Ret (- E_TX_BUFF_FULL) s
        else
          let d = d\<lparr>tx_status := tx_status d AND NOT E1000_TXD_STAT_DD, tx_length := ucast sz\<rparr> in
          bindK (KADDR (tx_addr_lower d) s) (\<lambda>kva s.
          bindK (vread packet (unat sz) s) (\<lambda>bs s.
          let s = s\<lparr>pmem := (\<lambda>a. if a - (kva - KERNBASE) < sz then bs ! unat (a - (kva - KERNBASE)) else pmem s a)\<rparr>;
              s = set_tx_desc desc_offset d s
          in Ret 0 (io_write reg_TDT (if desc_offset = n_tx_desc - 1 then 0 else of_nat desc_offset + 1) s)))))"

definition e1000_receive_packet :: "u32 \<Rightarrow> u32 \<Rightarrow> kstate \<Rightarrow> (int, kstate) kres" where
  "e1000_receive_packet packet size_p s =
     bindK (assertK (packet \<noteq> 0) ''packet != NULL'' s) (\<lambda>_ s.
     bindK (assertK (size_p \<noteq> 0) ''size != NULL'' s) (\<lambda>_ s.
     let tail = unat (io_read reg_RDT s);
         nxt = (if tail = n_rx_desc - 1 then 0 else tail + 1);
         d = rx_desc_list (nic s) nxt
     in
     if rx_status d AND E1000_RXD_STAT_DD = 0 \<or> rx_status d AND E1000_RXD_STAT_EOP = 0
     then Ret (- E_RX_BUFF_FULL) s
     else
       let s = io_write reg_RDT (of_nat nxt) s in
       if rx_errors d \<noteq> 0 then Panic ''e1000_receive_packet: packed sent with error''
       else bindK (assertK (ucast (rx_length d) \<le> max_receive_size) ''current_desc.length <= max_receive_size'' s) (\<lambda>_ s.
         bindK (vwrite size_p (bytes32 (ucast (rx_length d))) s) (\<lambda>_ s.
         bindK (KADDR (rx_addr_lower d) s) (\<lambda>kva s.
         bindK (vwrite packet (map (\<lambda>k. kld8 s (kva + of_nat k)) [0..<unat (rx_length d)]) s) (\<lambda>_ s.
         Ret 0 (set_rx_desc nxt (d\<lparr>rx_length := 0, rx_status := 0, rx_errors := 0\<rparr>) s)))))))"

end
