(* ===== verification/Syscall.thy ===== *)
theory Syscall
  imports E1000
begin

text \<open>
  The system calls (\<^verbatim>\<open>kern/syscall.c\<close>), one definition for each \<^verbatim>\<open>sys_\<close> function and the
  dispatcher \<^verbatim>\<open>syscall\<close>. Return codes are the C \<^verbatim>\<open>int\<close> values. User memory is read and
  written through the page tables in force, which are those of the caller. The answers of
  the network card's EEPROM are the argument \<open>eerd\<close>, as in the driver.
\<close>

section \<open>Common steps\<close>

text \<open>
  \<^verbatim>\<open>envid2env\<close> followed by the test of its result; using a \<^verbatim>\<open>NULL\<close> environment is a page
  fault in kernel mode.
\<close>

definition with_env ::
    "u32 \<Rightarrow> bool \<Rightarrow> (nat \<Rightarrow> kstate \<Rightarrow> (int, kstate) kres) \<Rightarrow> kstate \<Rightarrow> (int, kstate) kres" where
  "with_env envid checkperm k s =
     bindK (envid2env envid checkperm s) (\<lambda>(r, e) s.
       if r < 0 then Ret r s
       else case e of None \<Rightarrow> Panic ''page fault in kernel mode'' | Some e \<Rightarrow> k e s)"

definition with_cur :: "(nat \<Rightarrow> kstate \<Rightarrow> ('a, kstate) kres) \<Rightarrow> kstate \<Rightarrow> ('a, kstate) kres" where
  "with_cur k s = (case curenv s of None \<Rightarrow> Panic ''page fault in kernel mode'' | Some c \<Rightarrow> k c s)"

text \<open>The current environment looked up by its id, which must succeed.\<close>

definition with_self :: "string \<Rightarrow> (nat \<Rightarrow> kstate \<Rightarrow> ('a, kstate) kres) \<Rightarrow> kstate \<Rightarrow> ('a, kstate) kres" where
  "with_self msg k s =
     with_cur (\<lambda>c s. bindK (envid2env (env_id (envs s c)) True s) (\<lambda>(r, e) s.
       if r < 0 then Panic msg
       else case e of None \<Rightarrow> Panic ''page fault in kernel mode'' | Some e \<Rightarrow> k e s)) s"

definition bad_perm :: "u32 \<Rightarrow> bool" where
  "bad_perm perm \<longleftrightarrow> perm AND NOT PTE_SYSCALL \<noteq> 0 \<or> perm AND (PTE_U OR PTE_P) \<noteq> PTE_U OR PTE_P"

definition bad_va :: "u32 \<Rightarrow> bool" where
  "bad_va va \<longleftrightarrow> va \<ge> UTOP \<or> va mod PGSIZE \<noteq> 0"

section \<open>The console\<close>

text \<open>
  The loop of \<^verbatim>\<open>vprintfmt\<close> for the conversion \<^verbatim>\<open>%.*s\<close>, from address \<open>p\<close> with the given
  precision. A negative precision stands for no limit. When \<open>2\<^sup>3\<^sup>2\<close> bytes in a row are not
  null the pointer has been through all addresses and the loop never ends.
\<close>

fun cputs_loop :: "nat \<Rightarrow> int \<Rightarrow> u32 \<Rightarrow> kstate \<Rightarrow> (unit, kstate) kres" where
  "cputs_loop 0 prec p s = Leave SpinForever s"
| "cputs_loop (Suc n) prec p s =
     bindK (vld8 p s) (\<lambda>ch s.
       if ch = 0 then Ret () s
       else if prec < 0 then cputs_loop n prec (p + 1) (s\<lparr>cons := cputchar (sint ch) (cons s)\<rparr>)
       else if prec - 1 \<ge> 0 then cputs_loop n (prec - 1) (p + 1) (s\<lparr>cons := cputchar (sint ch) (cons s)\<rparr>)
       else Ret () s)"

definition null_string :: "int list" where
  "null_string = [40, 110, 117, 108, 108, 41]"

text \<open>\<^verbatim>\<open>cprintf("%.*s", len, s)\<close>\<close>

definition cputs :: "u32 \<Rightarrow> u32 \<Rightarrow> kstate \<Rightarrow> (unit, kstate) kres" where
  "cputs p len s =
     (let precision = sint len in
      if p = 0
      then Ret () (s\<lparr>cons := fold cputchar
        (if precision < 0 then null_string else take (nat precision) null_string) (cons s)\<rparr>)
      else cputs_loop (2 ^ 32) precision p s)"

definition sys_cputs :: "u32 \<Rightarrow> u32 \<Rightarrow> kstate \<Rightarrow> (unit, kstate) kres" where
  "sys_cputs p len s =
     with_self ''sys_cputs: Correct environment cannot be found.'' (\<lambda>e s.
       bindK (user_mem_assert e p len (PTE_U OR PTE_P) s) (\<lambda>_ s. cputs p len s)) s"

definition sys_cgetc :: "kstate \<Rightarrow> (int, kstate) kres" where
  "sys_cgetc s = (case cons_getc (cons s) of
       None \<Rightarrow> Leave SpinForever s | Some (c, t) \<Rightarrow> Ret c (s\<lparr>cons := t\<rparr>))"

section \<open>Environments\<close>

definition sys_getenvid :: "kstate \<Rightarrow> (int, kstate) kres" where
  "sys_getenvid s = with_cur (\<lambda>c s. Ret (sint (env_id (envs s c))) s) s"

definition sys_env_destroy :: "u32 \<Rightarrow> kstate \<Rightarrow> (int, kstate) kres" where
  "sys_env_destroy envid s =
     with_env envid True (\<lambda>e s. bindK (env_destroy e s) (\<lambda>_ s. Ret 0 s)) s"

definition sys_yield :: "kstate \<Rightarrow> (unit, kstate) kres" where
  "sys_yield s = sched_yield s"

definition sys_exofork :: "kstate \<Rightarrow> (int, kstate) kres" where
  "sys_exofork s =
     with_cur (\<lambda>c s. bindK (env_alloc (env_id (envs s c)) s) (\<lambda>(error, newenv) s.
       if error < 0 then Ret error s
       else case newenv of
         None \<Rightarrow> Panic ''page fault in kernel mode''
       | Some n \<Rightarrow>
           let s = upd_env n (\<lambda>x. x\<lparr>env_status := ENV_NOT_RUNNABLE\<rparr>) s;
               s = upd_env n (\<lambda>x. x\<lparr>env_tf := env_tf (envs s c)\<rparr>) s;
               s = upd_env n (\<lambda>x. x\<lparr>env_tf := (env_tf x)\<lparr>tf_regs := (tf_regs (env_tf x))\<lparr>reg_eax := 0\<rparr>\<rparr>\<rparr>) s
           in Ret (sint (env_id (envs s n))) s)) s"

text \<open>The numbers of the two states that may be set.\<close>

definition status_of :: "int \<Rightarrow> env_status_t option" where
  "status_of status = (if status = 2 then Some ENV_RUNNABLE else if status = 4 then Some ENV_NOT_RUNNABLE else None)"

definition sys_env_set_status :: "u32 \<Rightarrow> int \<Rightarrow> kstate \<Rightarrow> (int, kstate) kres" where
  "sys_env_set_status envid status s =
     (case status_of status of
        None \<Rightarrow> Ret (- E_INVAL) s
      | Some st \<Rightarrow> with_env envid True (\<lambda>e s. Ret 0 (upd_env e (\<lambda>x. x\<lparr>env_status := st\<rparr>) s)) s)"

text \<open>A trap frame from the 68 bytes of its memory image.\<close>

definition tf_of_bytes :: "u8 list \<Rightarrow> trapframe" where
  "tf_of_bytes b = \<lparr>tf_regs = \<lparr>reg_edi = word32 b 0, reg_esi = word32 b 4, reg_ebp = word32 b 8,
       reg_oesp = word32 b 12, reg_ebx = word32 b 16, reg_edx = word32 b 20, reg_ecx = word32 b 24,
       reg_eax = word32 b 28\<rparr>,
     tf_es = word16 b 32, tf_padding1 = word16 b 34, tf_ds = word16 b 36, tf_padding2 = word16 b 38,
     tf_trapno = word32 b 40, tf_err = word32 b 44, tf_eip = word32 b 48, tf_cs = word16 b 52,
     tf_padding3 = word16 b 54, tf_eflags = word32 b 56, tf_esp = word32 b 60, tf_ss = word16 b 64,
     tf_padding4 = word16 b 66\<rparr>"

definition vor16 :: "u32 \<Rightarrow> u16 \<Rightarrow> kstate \<Rightarrow> (unit, kstate) kres" where
  \<comment> \<open>\<^verbatim>\<open>*(uint16_t * )va = *(uint16_t * )va | w\<close>\<close>
  "vor16 va w s =
     bindK (vread va 2 s) (\<lambda>b s. let v = word16 b 0 OR w in
       vwrite va [ucast v, ucast (drop_bit 8 v)] s)"

definition sys_env_set_trapframe :: "u32 \<Rightarrow> u32 \<Rightarrow> kstate \<Rightarrow> (int, kstate) kres" where
  "sys_env_set_trapframe envid tf s =
     with_env envid True (\<lambda>e s.
       bindK (user_mem_assert e tf 68 (PTE_W OR PTE_U OR PTE_P) s) (\<lambda>_ s.
       bindK (vwrite (tf + 56) (bytes32 (tf_eflags (env_tf (envs s e)) AND NOT FL_IOPL_0)) s) (\<lambda>_ s.
       bindK (vwrite (tf + 56) (bytes32 (tf_eflags (env_tf (envs s e)) OR FL_IF)) s) (\<lambda>_ s.
       bindK (vor16 (tf + 36) (GD_UD OR 3) s) (\<lambda>_ s.
       bindK (vor16 (tf + 32) (GD_UD OR 3) s) (\<lambda>_ s.
       bindK (vor16 (tf + 64) (GD_UD OR 3) s) (\<lambda>_ s.
       bindK (vor16 (tf + 52) (GD_UT OR 3) s) (\<lambda>_ s.
       bindK (vread tf 68 s) (\<lambda>b s.
         Ret 0 (upd_env e (\<lambda>x. x\<lparr>env_tf := tf_of_bytes b\<rparr>) s)))))))))) s"

definition sys_env_set_pgfault_upcall :: "u32 \<Rightarrow> u32 \<Rightarrow> kstate \<Rightarrow> (int, kstate) kres" where
  "sys_env_set_pgfault_upcall envid func s =
     with_env envid True (\<lambda>e s. Ret 0 (upd_env e (\<lambda>x. x\<lparr>env_pgfault_upcall := func\<rparr>) s)) s"

definition sys_change_priority :: "int \<Rightarrow> kstate \<Rightarrow> (int, kstate) kres" where
  "sys_change_priority priority s =
     (if priority < 0 \<or> priority > P3 then Ret (- E_INVAL) s
      else with_cur (\<lambda>c s. Ret 0 (upd_env c (\<lambda>x. x\<lparr>env_priority := priority\<rparr>) s)) s)"

definition sys_time_msec :: "kstate \<Rightarrow> (int, kstate) kres" where
  "sys_time_msec s = Ret (sint (time_msec s)) s"

section \<open>Memory\<close>

definition sys_page_alloc :: "u32 \<Rightarrow> u32 \<Rightarrow> u32 \<Rightarrow> kstate \<Rightarrow> (int, kstate) kres" where
  "sys_page_alloc envid va perm s =
     with_env envid True (\<lambda>e s.
       if bad_perm perm then Ret (- E_INVAL) s
       else if bad_va va then Ret (- E_INVAL) s
       else bindK (page_alloc True s) (\<lambda>newpage s. case newpage of
           None \<Rightarrow> Ret (- E_NO_MEM) s
         | Some p \<Rightarrow>
             bindK (page_insert (env_pgdir (envs s e)) p va perm s) (\<lambda>error s.
               if error \<noteq> 0 then bindK (page_free p s) (\<lambda>_ s. Ret error s) else Ret 0 s))) s"

text \<open>
  The common end of \<^verbatim>\<open>sys_page_map\<close> and of a page transfer: look the page up in one address
  space, check write permission, and insert it into another one.
\<close>

definition share_page :: "u32 \<Rightarrow> u32 \<Rightarrow> u32 \<Rightarrow> u32 \<Rightarrow> u32 \<Rightarrow> kstate \<Rightarrow> (int, kstate) kres" where
  "share_page srcdir srcva dstdir dstva perm s =
     bindK (page_lookup srcdir srcva s) (\<lambda>r s. case r of
         None \<Rightarrow> Ret (- E_INVAL) s
       | Some (page_src, pte_src) \<Rightarrow>
           if kld32 s pte_src AND PTE_W = 0 \<and> perm AND PTE_W \<noteq> 0 then Ret (- E_INVAL) s
           else page_insert dstdir page_src dstva perm s)"

definition sys_page_map :: "u32 \<Rightarrow> u32 \<Rightarrow> u32 \<Rightarrow> u32 \<Rightarrow> u32 \<Rightarrow> kstate \<Rightarrow> (int, kstate) kres" where
  "sys_page_map srcenvid srcva dstenvid dstva perm s =
     with_env srcenvid True (\<lambda>src s.
     with_env dstenvid True (\<lambda>dst s.
       if bad_va srcva then Ret (- E_INVAL) s
       else if bad_va dstva then Ret (- E_INVAL) s
       else if bad_perm perm then Ret (- E_INVAL) s
       else bindK (share_page (env_pgdir (envs s src)) srcva (env_pgdir (envs s dst)) dstva perm s)
         (\<lambda>error s. if error < 0 then Ret error s else Ret 0 s)) s) s"

definition sys_page_unmap :: "u32 \<Rightarrow> u32 \<Rightarrow> kstate \<Rightarrow> (int, kstate) kres" where
  "sys_page_unmap envid va s =
     with_env envid True (\<lambda>e s.
       if bad_va va then Ret (- E_INVAL) s
       else bindK (page_remove (env_pgdir (envs s e)) va s) (\<lambda>_ s. Ret 0 s)) s"

section \<open>Messages\<close>

definition ipc_send_page :: "nat \<Rightarrow> u32 \<Rightarrow> u32 \<Rightarrow> kstate \<Rightarrow> (int, kstate) kres" where
  "ipc_send_page t srcva perm s =
     (if srcva mod PGSIZE \<noteq> 0 then Ret (- E_INVAL) s
      else if bad_perm perm then Ret (- E_INVAL) s
      else with_cur (\<lambda>c s.
        bindK (share_page (env_pgdir (envs s c)) srcva (env_pgdir (envs s t)) (env_ipc_dstva (envs s t)) perm s)
          (\<lambda>error s. if error < 0 then Ret error s
             else Ret 0 (upd_env t (\<lambda>x. x\<lparr>env_ipc_perm := perm\<rparr>) s))) s)"

definition ipc_deliver :: "nat \<Rightarrow> u32 \<Rightarrow> kstate \<Rightarrow> (int, kstate) kres" where
  "ipc_deliver t value s =
     with_cur (\<lambda>c s. Ret 0 (upd_env t (\<lambda>x. x\<lparr>env_ipc_recving := False,
        env_ipc_from := env_id (envs s c), env_ipc_value := value, env_status := ENV_RUNNABLE,
        env_tf := (env_tf x)\<lparr>tf_regs := (tf_regs (env_tf x))\<lparr>reg_eax := 0\<rparr>\<rparr>\<rparr>) s)) s"

definition sys_ipc_try_send :: "u32 \<Rightarrow> u32 \<Rightarrow> u32 \<Rightarrow> u32 \<Rightarrow> kstate \<Rightarrow> (int, kstate) kres" where
  "sys_ipc_try_send envid value srcva perm s =
     with_env envid False (\<lambda>t s.
       if \<not> env_ipc_recving (envs s t) then Ret (- E_IPC_NOT_RECV) s
       else
         let s = upd_env t (\<lambda>x. x\<lparr>env_ipc_perm := 0\<rparr>) s in
         bindK (if srcva < UTOP \<and> env_ipc_dstva (envs s t) < UTOP then ipc_send_page t srcva perm s else Ret 0 s)
           (\<lambda>error s. if error < 0 then Ret error s else ipc_deliver t value s)) s"

definition sys_ipc_recv :: "u32 \<Rightarrow> kstate \<Rightarrow> (int, kstate) kres" where
  "sys_ipc_recv dstva s =
     with_self ''sys_ipc_recv: Current environment cannot be found.'' (\<lambda>_ s.
       if dstva < UTOP \<and> dstva mod PGSIZE \<noteq> 0 then Ret (- E_INVAL) s
       else with_cur (\<lambda>c s.
         bindK (sched_yield (upd_env c (\<lambda>x. x\<lparr>env_ipc_recving := True, env_ipc_dstva := dstva,
                 env_status := ENV_NOT_RUNNABLE\<rparr>) s)) (\<lambda>_ s.
           Panic ''The sys_ipc_recv function should not return on success (only on error).'')) s) s"

section \<open>The network\<close>

definition sys_transmit_packet :: "u32 \<Rightarrow> u32 \<Rightarrow> kstate \<Rightarrow> (int, kstate) kres" where
  "sys_transmit_packet packet sz s =
     with_self ''sys_cputs: Correct environment cannot be found.'' (\<lambda>e s.
       bindK (user_mem_assert e packet sz (PTE_W OR PTE_U OR PTE_P) s) (\<lambda>_ s.
         e1000_transmit_packet packet sz s)) s"

definition sys_receive_packet :: "u32 \<Rightarrow> u32 \<Rightarrow> kstate \<Rightarrow> (int, kstate) kres" where
  "sys_receive_packet packet size_p s =
     with_self ''sys_cputs: Correct environment cannot be found.'' (\<lambda>e s.
       bindK (user_mem_assert e packet max_receive_size (PTE_W OR PTE_U OR PTE_P) s) (\<lambda>_ s.
       bindK (user_mem_assert e size_p 4 (PTE_W OR PTE_U OR PTE_P) s) (\<lambda>_ s.
         e1000_receive_packet packet size_p s))) s"

definition sys_get_mac_addr :: "(u32 \<Rightarrow> u32 option) \<Rightarrow> u32 \<Rightarrow> kstate \<Rightarrow> (int, kstate) kres" where
  "sys_get_mac_addr eerd mac_addr s = e1000_get_mac_addr eerd mac_addr s"

section \<open>Dispatch\<close>

definition syscall ::
    "(u32 \<Rightarrow> u32 option) \<Rightarrow> u32 \<Rightarrow> u32 \<Rightarrow> u32 \<Rightarrow> u32 \<Rightarrow> u32 \<Rightarrow> u32 \<Rightarrow> kstate \<Rightarrow> (int, kstate) kres" where
  "syscall eerd syscallno a1 a2 a3 a4 a5 s =
     (if syscallno = 0 then bindK (sys_cputs a1 a2 s) (\<lambda>_ s. Ret 0 s)
      else if syscallno = 1 then sys_cgetc s
      else if syscallno = 2 then sys_getenvid s
      else if syscallno = 3 then sys_env_destroy a1 s
      else if syscallno = 4 then sys_page_alloc a1 a2 a3 s
      else if syscallno = 5 then sys_page_map a1 a2 a3 a4 a5 s
      else if syscallno = 6 then sys_page_unmap a1 a2 s
      else if syscallno = 7 then sys_exofork s
      else if syscallno = 8 then sys_env_set_status a1 (sint a2) s
      else if syscallno = 9 then sys_env_set_trapframe a1 a2 s
      else if syscallno = 10 then sys_env_set_pgfault_upcall a1 a2 s
      else if syscallno = 11 then bindK (sys_yield s) (\<lambda>_ s. Ret 0 s)
      else if syscallno = 12 then sys_ipc_try_send a1 a2 a3 a4 s
      else if syscallno = 13 then sys_ipc_recv a1 s
      else if syscallno = 14 then sys_time_msec s
      else if syscallno = 15 then sys_change_priority (sint a1) s
      else if syscallno = 16 then sys_transmit_packet a1 a2 s
      else if syscallno = 17 then sys_receive_packet a1 a2 s
      else if syscallno = 18 then sys_get_mac_addr eerd a1 s
      else Ret (- E_INVAL) s)"

end
