(* ===== verification/SysInv.thy ===== *)
theory SysInv
  imports Syscall
begin

text \<open>
  The system calls keep the invariant of the kernel: exact reference counts over private
  address spaces, and free lists of pages and environments that agree with them.
\<close>

section \<open>The invariant between system calls\<close>

text \<open>The current environment, if there is one, is not a free slot.\<close>

definition cur_ok :: "kstate \<Rightarrow> bool" where
  "cur_ok s \<longleftrightarrow> (\<forall>c. curenv s = Some c \<longrightarrow> c \<in> live s)"

definition sys_inv :: "u32 \<Rightarrow> u32 set \<Rightarrow> (u32 \<Rightarrow> nat) \<Rightarrow> kstate \<Rightarrow> bool" where
  "sys_inv K R pin s \<longleftrightarrow> kernel_ok K R pin s \<and> cur_ok s"

lemma kern_dir_bytes:
  assumes k: "kern_dir s K" "K < 0x100000" and t: "\<And>a. PGNUM a = K \<Longrightarrow> pmem t a = pmem s a"
    "npages t = npages s" "kern_pgdir t = kern_pgdir s"
  shows "kern_dir t K"
proof -
  have "entry t K i = entry s K i" if "i < 1024" for i
    unfolding entry_def
  proof (rule ld32_cong)
    fix j :: u32 assume "j < 4"
    then have "PGNUM (entry_pa K i + j) = K"
      using PGNUM_aligned_add [OF aligned4_entry_pa [OF that]] PGNUM_entry_pa [OF that k(2)] by simp
    then show "pmem t (entry_pa K i + j) = pmem s (entry_pa K i + j)" by (rule t(1))
  qed
  then show ?thesis using k(1) uslot_1024 t(2,3) by (simp add: kern_dir_def)
qed

lemma env_cong:
  assumes "envs t = envs s"
  shows "live t = live s" "env_dir t = env_dir s" "dirs t = dirs s"
    "env_free_list t = env_free_list s \<Longrightarrow> env_ok t es = env_ok s es"
  using assms by (auto simp: live_def env_dir_def dirs_def env_ok_def)

text \<open>A change of one mapping below \<^const>\<open>UTOP\<close> that does not touch the reserved pages.\<close>

lemma kernel_inv_remap:
  assumes inv: "kernel_inv s K R pin ps es" and mi: "memory_inv t (dirs s) pin ps'"
    and rm: "remapped (dirs s) D va e s t" "pool_grows (dirs s) D va ps ps' s t"
    and D: "D \<in> dirs s" "uslot (PDX va)" and e: "present e \<Longrightarrow> PGNUM e \<notin> R"
  shows "kernel_inv t K R pin ps' es" "live t = live s" "curenv t = curenv s" "envs t = envs s"
proof -
  note k = kernel_invD [OF inv]
  have fr: "mem_frame (dirs s) s t" using rm(1) by (simp add: remapped_def)
  note f = mem_frame_fields [OF fr]
  note c = env_cong [OF f(2)]
  have K: "K < 0x100000" using k(5) small_page [OF k(1)] by (simp add: kern_dir_def)
  have res: "reserved t (dirs s) R ps'" by (rule reserved_remapped [OF k(7) rm D e])
  then have "plain t (dirs s) K" using k(6) by (simp add: reserved_def refs_empty_iff)
  then have "kern_dir t K" using kern_dir_bytes [OF k(5) K] fr f by (simp add: mem_frame_def)
  then show "kernel_inv t K R pin ps' es" using k mi res c f by (simp add: kernel_inv_def)
  show "live t = live s" "curenv t = curenv s" "envs t = envs s" using c f by simp_all
qed

lemma sys_inv_remap:
  assumes "kernel_inv s K R pin ps es" "cur_ok s" "memory_inv t (dirs s) pin ps'"
    "remapped (dirs s) D va e s t" "pool_grows (dirs s) D va ps ps' s t"
    "D \<in> dirs s" "uslot (PDX va)" "present e \<Longrightarrow> PGNUM e \<notin> R"
  shows "sys_inv K R pin t"
  using kernel_inv_remap [OF assms(1,3-8)] assms(2) by (auto simp: sys_inv_def kernel_ok_def cur_ok_def)

lemma unat_PDX: "unat (PDX va) = unat va div 4194304"
proof -
  have "PDX va = drop_bit 22 va"
    by (rule bit_word_eqI) (auto simp: bit_PDX bit_drop_bit_eq dest: bit_imp_le_length)
  then show ?thesis using unat_drop_bit_eq [of 22 va] by (simp add: drop_bit_eq_div)
qed

lemma uslot_iff: "uslot (PDX va) \<longleftrightarrow> va < UTOP"
  by (simp add: word_less_nat_alt unat_PDX layout_values less_mult_imp_div_less div_less_iff_less_mult)

lemma and_not_eq_0: "x AND NOT m = 0 \<Longrightarrow> x AND m = x" for x m :: u32
proof -
  assume "x AND NOT m = 0"
  moreover have "x = (x AND m) OR (x AND NOT m)" by (simp flip: bit.conj_disj_distrib)
  ultimately show ?thesis by simp
qed

lemma bad_perm_less: "\<not> bad_perm perm \<Longrightarrow> perm < 4096"
proof -
  assume "\<not> bad_perm perm"
  then have "perm AND NOT PTE_SYSCALL = 0" by (simp add: bad_perm_def)
  then have "perm AND PTE_SYSCALL = perm" by (rule and_not_eq_0)
  moreover have "perm AND PTE_SYSCALL \<le> PTE_SYSCALL" by (rule word_and_le1)
  moreover have "PTE_SYSCALL < 4096" by (simp add: layout_defs)
  ultimately show ?thesis by simp
qed

section \<open>Giving the processor away\<close>

text \<open>
  A state in which the kernel has left for an environment: it is the current one and is
  marked running, its address space is in force, and this CPU does not hold the kernel lock.
\<close>

definition ran :: "nat \<Rightarrow> kstate \<Rightarrow> bool" where
  "ran e t \<longleftrightarrow> curenv t = Some e \<and> env_status (envs t e) = ENV_RUNNING \<and>
     cr3 t = page2pa (env_dir t e) \<and> \<not> holding (this_cpu t) (kernel_lock t)"

definition left_inv :: "u32 \<Rightarrow> u32 set \<Rightarrow> (u32 \<Rightarrow> nat) \<Rightarrow> control \<Rightarrow> kstate \<Rightarrow> bool" where
  "left_inv K R pin c t \<longleftrightarrow> sys_inv K R pin t \<and> (\<forall>e. c = RunEnv e \<longrightarrow> ran e t)"

lemma left_inv_other [simp]:
  "left_inv K R pin HaltCpu t \<longleftrightarrow> sys_inv K R pin t" "left_inv K R pin SpinForever t \<longleftrightarrow> sys_inv K R pin t"
  "left_inv K R pin MonitorLoop t \<longleftrightarrow> sys_inv K R pin t"
  by (simp_all add: left_inv_def)

lemma env_run_keeps:
  assumes "kernel_ok K R pin s" "e \<in> live s"
  shows "wpK (\<lambda>_ _. False) (left_inv K R pin) (env_run e s)"
proof -
  have "env_status (envs s e) \<noteq> ENV_FREE" using assms(2) by (simp add: live_def)
  from env_run_ok [OF assms(1) this] show ?thesis
  proof (rule wpK_weaken)
    fix c t
    assume t: "c = RunEnv e \<and> kernel_ok K R pin t \<and> curenv t = Some e \<and> env_status (envs t e) = ENV_RUNNING \<and>
      cr3 t = env_pgdir (envs t e) - KERNBASE \<and> \<not> holding (this_cpu t) (kernel_lock t)"
    then have l: "e \<in> live t" using assms(2) by (auto simp: live_def)
    obtain ps es where "kernel_inv t K R pin ps es" using t by (auto simp: kernel_ok_def)
    then have "env_pgdir (envs t e) = kpage (env_dir t e)" using kernel_invD(3) l by blast
    then have "cr3 t = page2pa (env_dir t e)" using t by (simp add: page2pa_def)
    then show "left_inv K R pin c t" using t l by (simp add: left_inv_def sys_inv_def cur_ok_def ran_def)
  qed simp
qed

lemma sched_halt_cur:
  "cur_ok s \<Longrightarrow> wpK (\<lambda>_ _. False) (\<lambda>c t. cur_ok t \<and> (\<forall>e. c \<noteq> RunEnv e)) (sched_halt s)"
  by (auto simp: sched_halt_def Let_def PADDR_def unlock_kernel_cases cur_ok_def curenv_def lcr3_def set_curenv_def)

lemma wpK_conj: "wpK Q R m \<Longrightarrow> wpK Q' R' m \<Longrightarrow> wpK (\<lambda>a s. Q a s \<and> Q' a s) (\<lambda>c s. R c s \<and> R' c s) m"
  by (cases m) simp_all

lemma sched_yield_keeps:
  assumes "sys_inv K R pin s"
  shows "wpK (\<lambda>_ _. False) (left_inv K R pin) (sched_yield s)"
proof -
  have ok: "kernel_ok K R pin s" "cur_ok s" using assms by (simp_all add: sys_inv_def)
  show ?thesis
  proof (cases "sched_loop s (sched_initial s) (sched_initial s)")
    case None
    then show ?thesis using assms by (simp add: sched_yield_def)
  next
    case (Some ch)
    show ?thesis
    proof (cases ch)
      case (Run e)
      from sched_loop_status [OF Some [unfolded Run]] have "e \<in> live s"
        using ok(2) by (auto simp: runnable_def live_def cur_ok_def NENV_def)
      from env_run_keeps [OF ok(1) this] show ?thesis using Some Run by (simp add: sched_yield_def)
    next
      case NoneRunnable
      then show ?thesis using Some wpK_conj [OF sched_halt_ok [OF ok(1)] sched_halt_cur [OF ok(2)]]
        by (simp add: sched_yield_def) (erule wpK_weaken, simp_all add: left_inv_def sys_inv_def)
    qed
  qed
qed

lemma env_destroy_keeps:
  assumes s: "sys_inv K R pin s" and e: "e \<in> live s"
  shows "wpK (\<lambda>_ t. sys_inv K R pin t \<and> curenv s \<noteq> Some e) (left_inv K R pin) (env_destroy e s)"
proof (cases "env_status (envs s e) = ENV_RUNNING \<and> curenv s \<noteq> Some e")
  case True
  then have "kernel_ok K R pin (upd_env e (\<lambda>x. x\<lparr>env_status := ENV_DYING\<rparr>) s)"
    using s by (intro upd_env_ok) (auto simp: sys_inv_def)
  then show ?thesis using True s by (auto simp: env_destroy_def sys_inv_def cur_ok_def live_def)
next
  case False
  obtain ps es where "kernel_inv s K R pin ps es" using s by (auto simp: sys_inv_def kernel_ok_def)
  from env_free_kernel_inv [OF this e] obtain t ps' where t: "env_free e s = Ret () t" "kernel_inv t K R pin ps' (e # es)"
    "live t = live s - {e}" "curenv t = curenv s"
    by blast
  then have ok': "kernel_ok K R pin t" by (auto simp: kernel_ok_def)
  have "kernel_ok K R pin (set_curenv None t)" by (rule kernel_ok_cong [OF ok']) simp_all
  then have "sys_inv K R pin (set_curenv None t)" by (simp add: sys_inv_def cur_ok_def)
  from wpK_false [OF sched_yield_keeps [OF this]] show ?thesis
    using False t ok' s by (auto simp: env_destroy_def sys_inv_def cur_ok_def)
qed

section \<open>Looking environments up\<close>

lemma envid2env_cases:
  assumes "cur_ok s"
  shows "envid2env envid checkperm s = Ret (- E_BAD_ENV, None) s \<or>
    (\<exists>m. envid2env envid checkperm s = Panic m) \<or> envid2env envid checkperm s = Ret (0, None) s \<or>
    (\<exists>e. envid2env envid checkperm s = Ret (0, Some e) s \<and> e \<in> live s)"
proof (cases "envid = 0")
  case True
  then show ?thesis using assms by (cases "curenv s") (auto simp: envid2env_def cur_ok_def)
next
  case False
  have "ENVX envid \<in> live s" if "env_status (envs s (ENVX envid)) \<noteq> ENV_FREE"
    using that ENVX_less by (simp add: live_def)
  then show ?thesis using False by (simp add: envid2env_def Let_def split: option.split)
qed

lemma with_env_wp:
  assumes "cur_ok s" "Q (- E_BAD_ENV) s" "\<And>e. e \<in> live s \<Longrightarrow> wpK Q R (k e s)"
  shows "wpK Q R (with_env envid checkperm k s)"
  using envid2env_cases [OF assms(1), of envid checkperm] assms(2,3) by (auto simp: with_env_def)

lemma with_cur_wp:
  assumes "cur_ok s" "\<And>c. curenv s = Some c \<Longrightarrow> c \<in> live s \<Longrightarrow> wpK Q R (k c s)"
  shows "wpK Q R (with_cur k s)"
  using assms by (cases "curenv s") (auto simp: with_cur_def cur_ok_def)

text \<open>The current environment finds itself.\<close>

lemma envid2env_self:
  assumes "env_ok s es" "curenv s = Some c" "c \<in> live s"
  shows "envid2env (env_id (envs s c)) True s = Ret (0, Some c) s"
proof -
  have i: "ENVX (env_id (envs s c)) = c" "0 < sint (env_id (envs s c))" using assms by (auto simp: env_ok_def)
  then have "env_id (envs s c) \<noteq> 0" by auto
  then show ?thesis using assms(2,3) i(1) by (simp add: envid2env_def live_def)
qed

lemma with_self_wp:
  assumes "sys_inv K R pin s" "\<And>c. curenv s = Some c \<Longrightarrow> c \<in> live s \<Longrightarrow> wpK Q P (k c s)"
  shows "wpK Q P (with_self msg k s)"
  unfolding with_self_def
proof (rule with_cur_wp)
  show "cur_ok s" using assms(1) by (simp add: sys_inv_def)
  fix c assume c: "curenv s = Some c" "c \<in> live s"
  obtain ps es where "kernel_inv s K R pin ps es" using assms(1) by (auto simp: sys_inv_def kernel_ok_def)
  then have "env_ok s es" by (rule kernel_invD)
  from envid2env_self [OF this c]
  show "wpK Q P (bindK (envid2env (env_id (envs s c)) True s) (\<lambda>(r, e) s.
      if r < 0 then Panic msg
      else case e of None \<Rightarrow> Panic ''page fault in kernel mode'' | Some e \<Rightarrow> k e s))"
    using assms(2) [OF c] by simp
qed

section \<open>Pages taken from and returned to the free list\<close>

lemma alloc_kernel_inv:
  assumes inv: "kernel_inv s K R pin (p # ps) es"
  shows "kernel_inv (alloc_state z p ps s) K R pin ps es" (is "kernel_inv ?t _ _ _ _ _")
    "curenv (alloc_state z p ps s) = curenv s" "envs (alloc_state z p ps s) = envs s"
proof -
  note k = kernel_invD [OF inv]
  note al = page_alloc_inv [OF k(1)]
  have ev: "envs ?t = envs s" "env_free_list ?t = env_free_list s" "curenv ?t = curenv s"
    "kern_pgdir ?t = kern_pgdir s" "npages ?t = npages s"
    by (simp_all add: alloc_state_def upd_page_def curenv_def)
  note c = env_cong [OF ev(1)]
  have K: "K < 0x100000" "K \<noteq> p" using k(5-7) small_page [OF k(1)] by (auto simp: kern_dir_def reserved_def)
  have p: "p < 0x100000" using al(4) small_page [OF k(1)] by blast
  have "kern_dir ?t K" using kern_dir_bytes [OF k(5) K(1)] alloc_state_byte [OF p] K(2) ev by simp
  moreover have "reserved ?t (dirs s) R ps" using k(7) al(7) by (simp add: reserved_def)
  ultimately show "kernel_inv ?t K R pin ps es" using k al(1) c ev by (simp add: kernel_inv_def)
  show "curenv ?t = curenv s" "envs ?t = envs s" using ev by simp_all
qed

lemma free_kernel_inv:
  assumes inv: "kernel_inv s K R pin ps es"
    and p: "p < npages s" "p \<notin> set ps" "p \<notin> R" "pp_ref (pages s p) = 0"
  shows "\<exists>t. page_free p s = Ret () t \<and> kernel_inv t K R pin (p # ps) es \<and> curenv t = curenv s \<and> envs t = envs s"
proof -
  note k = kernel_invD [OF inv]
  let ?t = "(upd_page p (\<lambda>i. i\<lparr>pp_link := page_free_list s\<rparr>) s)\<lparr>page_free_list := Some p\<rparr>"
  obtain t where t: "page_free p s = Ret () t" "page_fl t (p # ps)" "pmem t = pmem s"
    "\<forall>q. pp_ref (pages t q) = pp_ref (pages s q)" "npages t = npages s"
    using page_free_fl [OF memory_invD(1) [OF k(1)] p(2,1,4)] by blast
  have "t = ?t" using t(1) by (auto simp: page_free_def split: if_splits)
  then have ev: "envs t = envs s" "env_free_list t = env_free_list s" "curenv t = curenv s" "kern_pgdir t = kern_pgdir s"
    by (simp_all add: upd_page_def curenv_def)
  note e = entry_pmem_cong [OF t(3)]
  have "memory_inv t (dirs s) pin (p # ps)"
    using t(2,4,5) memory_invD(2,3) [OF k(1)] tables_ok_cong [OF e t(5)] refs_cong [OF e]
    by (simp add: memory_inv_def refcounts_def)
  moreover have "kern_dir t K" using k(5) e t(5) ev(4) by (simp add: kern_dir_def)
  moreover have "reserved t (dirs s) R (p # ps)" using k(7) p(3) refs_cong [OF e] by (auto simp: reserved_def)
  ultimately have "kernel_inv t K R pin (p # ps) es"
    using k env_cong [OF ev(1)] ev(1,2) t(5) by (simp add: kernel_inv_def)
  then show ?thesis using t(1) ev by blast
qed

section \<open>Mapping and unmapping\<close>

lemma page_insert_sys:
  assumes inv: "kernel_inv s K R pin ps es" "cur_ok s" and e: "e \<in> live s" "va < UTOP"
    and pp: "pp < npages s" "pp \<notin> set ps" "plain s (dirs s) pp" "pp_ref (pages s pp) \<noteq> 0xFFFF" "pp \<notin> R"
    and perm: "perm < 4096"
  shows "page_insert (env_pgdir (envs s e)) pp va perm s = Ret (- E_NO_MEM) s \<and> ps = [] \<and>
      \<not> present (entry s (env_dir s e) (PDX va)) \<or>
    (\<exists>t. page_insert (env_pgdir (envs s e)) pp va perm s = Ret 0 t \<and> sys_inv K R pin t \<and>
      envs t = envs s \<and> curenv t = curenv s \<and> remapped (dirs s) (env_dir s e) va (mkpte pp perm) s t)"
proof -
  note k = kernel_invD [OF inv(1)]
  have D: "env_dir s e \<in> dirs s" "uslot (PDX va)" using k(9) e uslot_iff by simp_all
  have mk: "PGNUM (mkpte pp perm) = pp" using mkpte_simps(1) [OF small_page [OF k(1) pp(1)] perm] .
  from page_insert_inv [OF k(1) D pp(1-4) perm] show ?thesis
  proof (elim disjE exE conjE, goal_cases)
    case 1
    then show ?thesis using k(3) e(1) by simp
  next
    case (2 t ps')
    note r = kernel_inv_remap [OF inv(1) 2(2-4) D]
    have "sys_inv K R pin t" by (rule sys_inv_remap [OF inv 2(2-4) D]) (use mk pp(5) in simp)
    moreover have "envs t = envs s" "curenv t = curenv s" using mem_frame_fields 2(3) by (auto simp: remapped_def)
    ultimately show ?thesis using 2 k(3) e(1) by auto
  qed
qed

text \<open>What is mapped below \<^const>\<open>UTOP\<close> of an environment.\<close>

lemma mapped_page:
  assumes inv: "kernel_inv s K R pin ps es" and e: "e \<in> live s" "va < UTOP"
    and pr: "present (pte s (env_dir s e) va)"
  defines "pp \<equiv> PGNUM (pte s (env_dir s e) va)"
  shows "pp < npages s" "plain s (dirs s) pp" "pp \<notin> set ps" "pp \<notin> R" "table s (env_dir s e) va < npages s"
    "pp_ref (pages s pp) \<noteq> 0"
proof -
  note k = kernel_invD [OF inv]
  let ?D = "env_dir s e"
  have D: "?D \<in> dirs s" "uslot (PDX va)" using k(9) e uslot_iff by simp_all
  have "\<exists>T. is_tab s (dirs s) ?D (PDX va) T"
  proof (rule ccontr)
    assume "\<nexists>T. is_tab s (dirs s) ?D (PDX va) T"
    then have "pte s ?D va = 0" using pte_no_tab [OF D] by blast
    then show False using pr by (simp add: present_def)
  qed
  then obtain T where T: "is_tab s (dirs s) ?D (PDX va) T" by blast
  note pt = pte_is_tab [OF T]
  have pj: "present (entry s T (PTX va))" using pr pt by simp
  note ok = memory_invD(2) [OF k(1)]
  show pl: "pp < npages s" "plain s (dirs s) pp"
    using tables_okD(5) [OF ok T PTX_less pj] pt by (simp_all add: pp_def)
  have "RMap ?D (PDX va) (PTX va) \<in> refs s (dirs s) pp"
    using T pj PTX_less pt by (auto simp: refs_def pp_def)
  then have ne: "refs s (dirs s) pp \<noteq> {}" by blast
  then show "pp \<notin> set ps" using free_not_referenced(1) [OF k(1)] by blast
  show "pp \<notin> R" using ne k(7) by (auto simp: reserved_def)
  show "table s ?D va < npages s" using tables_okD(2) [OF ok T] pt by simp
  show "pp_ref (pages s pp) \<noteq> 0"
    using ne pl(1) memory_invD(3) [OF k(1)] finite_refs [of s "dirs s" pp] by (auto simp: refcounts_def)
qed

lemma page_lookup_sys:
  assumes inv: "kernel_inv s K R pin ps es" and e: "e \<in> live s" "va < UTOP"
  shows "page_lookup (env_pgdir (envs s e)) va s =
    Ret (if present (pte s (env_dir s e) va)
         then Some (PGNUM (pte s (env_dir s e) va), kpage (table s (env_dir s e) va) + 4 * PTX va) else None) s"
proof -
  note k = kernel_invD [OF inv]
  have D: "env_dir s e \<in> dirs s" "uslot (PDX va)" using k(9) e uslot_iff by simp_all
  show ?thesis
  proof (cases "present (pte s (env_dir s e) va)")
    case True
    then show ?thesis using page_lookup_present mapped_page [OF inv e True] k(3) [OF e(1)] by simp
  next
    case False
    have "table s (env_dir s e) va < npages s" if "present (entry s (env_dir s e) (PDX va))"
      using tables_okD(2) [OF memory_invD(2) [OF k(1)], of "env_dir s e" "PDX va"] that D
      by (simp add: is_tab_def table_def)
    then show ?thesis using page_lookup_absent [OF False] k(3) [OF e(1)] False by simp
  qed
qed

lemma page_remove_sys:
  assumes inv: "kernel_inv s K R pin ps es" "cur_ok s" and e: "e \<in> live s" "va < UTOP"
  shows "\<exists>t. page_remove (env_pgdir (envs s e)) va s = Ret () t \<and> sys_inv K R pin t \<and>
    (\<exists>x. \<not> present x \<and> remapped (dirs s) (env_dir s e) va x s t)"
proof (cases "present (pte s (env_dir s e) va)")
  case True
  note k = kernel_invD [OF inv(1)]
  have D: "env_dir s e \<in> dirs s" "uslot (PDX va)" using k(9) e uslot_iff by simp_all
  obtain t ps' where t: "page_remove (kpage (env_dir s e)) va s = Ret () t" "memory_inv t (dirs s) pin ps'"
    "remapped (dirs s) (env_dir s e) va 0 s t"
    "ps' = (if pp_ref (pages s (PGNUM (pte s (env_dir s e) va))) = 1
      then PGNUM (pte s (env_dir s e) va) # ps else ps)" "is_tab t (dirs s) = is_tab s (dirs s)"
    using page_remove_inv [OF k(1) D True] by blast
  have "pool_grows (dirs s) (env_dir s e) va ps ps' s t"
    using True t(4,5) by (simp add: pool_grows_def plain_def)
  from sys_inv_remap [OF inv t(2,3) this D] have "sys_inv K R pin t" by (simp add: present_def)
  moreover have "\<not> present 0" by (simp add: present_def)
  ultimately show ?thesis unfolding k(3) [OF e(1)] using t(1,3) by blast
next
  case False
  then have "page_remove (env_pgdir (envs s e)) va s = Ret () s"
    using page_lookup_sys [OF inv(1) e] by (simp add: page_remove_def)
  moreover have "remapped (dirs s) (env_dir s e) va (pte s (env_dir s e) va) s s" by (simp add: remapped_def)
  ultimately show ?thesis using inv False by (auto simp: sys_inv_def kernel_ok_def)
qed

section \<open>Every system call keeps the invariant\<close>

abbreviation keeps :: "u32 \<Rightarrow> u32 set \<Rightarrow> (u32 \<Rightarrow> nat) \<Rightarrow> ('a, kstate) kres \<Rightarrow> bool" where
  "keeps K R pin m \<equiv> wpK (\<lambda>_. sys_inv K R pin) (left_inv K R pin) m"

lemma sys_invD:
  assumes "sys_inv K R pin s"
  shows "cur_ok s" "kernel_ok K R pin s" "\<exists>ps es. kernel_inv s K R pin ps es"
  using assms by (auto simp: sys_inv_def kernel_ok_def)

lemma sys_page_alloc_keeps:
  assumes "sys_inv K R pin s"
  shows "keeps K R pin (sys_page_alloc envid va perm s)"
  unfolding sys_page_alloc_def
proof (rule with_env_wp)
  show "cur_ok s" "sys_inv K R pin s" using assms sys_invD by simp_all
  fix e assume e: "e \<in> live s"
  obtain ps es where inv: "kernel_inv s K R pin ps es" using sys_invD(3) [OF assms] by blast
  note k = kernel_invD [OF inv]
  show "keeps K R pin (if bad_perm perm then Ret (- E_INVAL) s else if bad_va va then Ret (- E_INVAL) s
     else bindK (page_alloc True s) (\<lambda>newpage s. case newpage of None \<Rightarrow> Ret (- E_NO_MEM) s
         | Some p \<Rightarrow> bindK (page_insert (env_pgdir (envs s e)) p va perm s) (\<lambda>error s.
               if error \<noteq> 0 then bindK (page_free p s) (\<lambda>_ s. Ret error s) else Ret 0 s)))"
  proof (cases "bad_perm perm \<or> bad_va va \<or> ps = []")
    case True
    then show ?thesis using assms page_alloc_empty memory_invD(1) [OF k(1)] by auto
  next
    case False
    then obtain p qs where ps: "ps = p # qs" and ok: "perm < 4096" "va < UTOP"
      using bad_perm_less by (cases ps) (auto simp: bad_va_def)
    let ?t = "alloc_state True p qs s"
    have al: "page_alloc True s = Ret (Some p) ?t" using page_alloc_cons memory_invD(1) [OF k(1)] ps by blast
    note inv' = inv [unfolded ps]
    note t = alloc_kernel_inv [OF inv', of True] and pa = page_alloc_inv [OF k(1) [unfolded ps]]
    have c: "live ?t = live s" "dirs ?t = dirs s" using env_cong [OF t(3)] by simp_all
    have cur: "cur_ok ?t" using sys_invD(1) [OF assms] t(2) c by (simp add: cur_ok_def)
    have R: "p \<notin> R" using kernel_invD(7) [OF inv'] by (auto simp: reserved_def)
    have pl: "plain ?t (dirs ?t) p" using pa(2,3) c by simp
    from page_insert_sys [OF t(1) cur _ ok(2) _ pa(5) pl _ R ok(1), of e] e c pa
    consider "page_insert (env_pgdir (envs ?t e)) p va perm ?t = Ret (- E_NO_MEM) ?t"
      | u where "page_insert (env_pgdir (envs ?t e)) p va perm ?t = Ret 0 u" "sys_inv K R pin u" by auto
    then show ?thesis
    proof cases
      case 1
      obtain u where "page_free p ?t = Ret () u" "kernel_inv u K R pin (p # qs) es" "curenv u = curenv ?t" "envs u = envs ?t"
        using free_kernel_inv [OF t(1) _ pa(5) R] pa(4,6) by auto
      moreover from this have "sys_inv K R pin u"
        using cur env_cong(1) [of u ?t] by (auto simp: sys_inv_def kernel_ok_def cur_ok_def)
      ultimately show ?thesis using False al 1 by simp
    next
      case 2
      then show ?thesis using False al by simp
    qed
  qed
qed

lemma share_page_keeps:
  assumes s: "sys_inv K R pin s" and e: "src \<in> live s" "dst \<in> live s" "srcva < UTOP" "dstva < UTOP"
    and perm: "perm < 4096" and nov: "\<forall>p < npages s. pp_ref (pages s p) \<noteq> 0xFFFF"
  shows "wpK (\<lambda>r t. sys_inv K R pin t \<and> envs t = envs s \<and> curenv t = curenv s) (\<lambda>_ _. False)
    (share_page (env_pgdir (envs s src)) srcva (env_pgdir (envs s dst)) dstva perm s)"
proof -
  obtain ps es where inv: "kernel_inv s K R pin ps es" using sys_invD(3) [OF s] by blast
  let ?e = "pte s (env_dir s src) srcva"
  show ?thesis
  proof (cases "present ?e")
    case True
    note m = mapped_page [OF inv e(1,3) True]
    from page_insert_sys [OF inv sys_invD(1) [OF s] e(2,4) m(1,3,2) _ m(4) perm] nov m(1)
    show ?thesis using page_lookup_sys [OF inv e(1,3)] True s by (auto simp: share_page_def)
  next
    case False
    then show ?thesis using page_lookup_sys [OF inv e(1,3)] s by (simp add: share_page_def)
  qed
qed

lemma sys_page_map_keeps:
  assumes s: "sys_inv K R pin s" and nov: "\<forall>p < npages s. pp_ref (pages s p) \<noteq> 0xFFFF"
  shows "keeps K R pin (sys_page_map srcenvid srcva dstenvid dstva perm s)"
  unfolding sys_page_map_def
proof (intro with_env_wp)
  fix src dst assume e: "src \<in> live s" "dst \<in> live s"
  show "keeps K R pin (if bad_va srcva then Ret (- E_INVAL) s else if bad_va dstva then Ret (- E_INVAL) s
      else if bad_perm perm then Ret (- E_INVAL) s
      else bindK (share_page (env_pgdir (envs s src)) srcva (env_pgdir (envs s dst)) dstva perm s)
         (\<lambda>error s. if error < 0 then Ret error s else Ret 0 s))"
  proof (cases "bad_va srcva \<or> bad_va dstva \<or> bad_perm perm")
    case False
    then have "srcva < UTOP" "dstva < UTOP" "perm < 4096" using bad_perm_less by (auto simp: bad_va_def)
    from wpK_weaken [OF share_page_keeps [OF s e this nov]] show ?thesis
      using False by (auto simp: wpK_bind elim: wpK_weaken)
  qed (use s in auto)
qed (use s sys_invD in auto)

lemma sys_page_unmap_keeps:
  assumes s: "sys_inv K R pin s"
  shows "keeps K R pin (sys_page_unmap envid va s)"
  unfolding sys_page_unmap_def
proof (rule with_env_wp)
  fix e assume e: "e \<in> live s"
  obtain ps es where inv: "kernel_inv s K R pin ps es" using sys_invD(3) [OF s] by blast
  show "keeps K R pin (if bad_va va then Ret (- E_INVAL) s
     else bindK (page_remove (env_pgdir (envs s e)) va s) (\<lambda>_ s. Ret 0 s))"
  proof (cases "bad_va va")
    case False
    then have "va < UTOP" by (simp add: bad_va_def not_le)
    from page_remove_sys [OF inv sys_invD(1) [OF s] e this] False show ?thesis by auto
  qed (use s in simp)
qed (use s sys_invD in auto)

text \<open>Changing fields of an environment that the invariant does not mention.\<close>

lemma upd_env_keeps:
  assumes "sys_inv K R pin s" "\<And>x. env_pgdir (f x) = env_pgdir x" "\<And>x. env_id (f x) = env_id x"
    "\<And>x. env_link (f x) = env_link x" "env_status (f (envs s e)) = ENV_FREE \<longleftrightarrow> env_status (envs s e) = ENV_FREE"
  shows "sys_inv K R pin (upd_env e f s)"
  using upd_env_ok [of K R pin s f e] assms by (auto simp: sys_inv_def cur_ok_def live_def)

lemma cons_keeps: "sys_inv K R pin s \<Longrightarrow> sys_inv K R pin (s\<lparr>cons := c\<rparr>)"
  using kernel_ok_cong [of K R pin s "s\<lparr>cons := c\<rparr>"] by (simp add: sys_inv_def cur_ok_def curenv_def live_def)

lemma sys_exofork_keeps:
  assumes s: "sys_inv K R pin s"
  shows "keeps K R pin (sys_exofork s)"
  unfolding sys_exofork_def
proof (rule with_cur_wp)
  fix c assume c: "curenv s = Some c" "c \<in> live s"
  obtain ps es where inv: "kernel_inv s K R pin ps es" using sys_invD(3) [OF s] by blast
  show "keeps K R pin (bindK (env_alloc (env_id (envs s c)) s) (\<lambda>(error, newenv) s.
       if error < 0 then Ret error s
       else case newenv of
         None \<Rightarrow> Panic ''page fault in kernel mode''
       | Some n \<Rightarrow>
           let s = upd_env n (\<lambda>x. x\<lparr>env_status := ENV_NOT_RUNNABLE\<rparr>) s;
               s = upd_env n (\<lambda>x. x\<lparr>env_tf := env_tf (envs s c)\<rparr>) s;
               s = upd_env n (\<lambda>x. x\<lparr>env_tf := (env_tf x)\<lparr>tf_regs := (tf_regs (env_tf x))\<lparr>reg_eax := 0\<rparr>\<rparr>\<rparr>) s
           in Ret (sint (env_id (envs s n))) s))"
  proof (cases "ps = [] \<or> es = []")
    case True
    then show ?thesis using env_alloc_fail [OF inv] s by (cases es) auto
  next
    case False
    then obtain p ps' e es' where l: "ps = p # ps'" "es = e # es'" by (cases ps; cases es) auto
    obtain t where t: "env_alloc (env_id (envs s c)) s = Ret (0, Some e) t" "kernel_inv t K R pin ps' es'"
      "live t = insert e (live s)" "curenv t = curenv s"
      using env_alloc_inv [OF inv [unfolded l], of "env_id (envs s c)"] by blast
    then have "sys_inv K R pin t" "e \<in> live t" using s by (auto simp: sys_inv_def kernel_ok_def cur_ok_def)
    then show ?thesis using t(1) by (auto simp: Let_def live_def intro!: upd_env_keeps)
  qed
qed (use s sys_invD in auto)

section \<open>Checking user memory\<close>

lemma pgdir_walk_nocreate: "wpK (\<lambda>_ t. t = s) (\<lambda>_ _. False) (pgdir_walk pgdir va False s)"
  by (simp add: pgdir_walk_def page2kva_def KADDR_def Let_def)

lemma user_mem_loop_frame:
  "wpK (\<lambda>_ t. \<exists>x. t = s\<lparr>user_mem_check_addr := x\<rparr>) (\<lambda>_ _. False) (user_mem_loop pgdir va len perm addr s)"
proof (induction pgdir va len perm addr s rule: user_mem_loop.induct)
  case (1 pgdir va len perm addr s)
  have same: "\<exists>x. s = s\<lparr>user_mem_check_addr := x\<rparr>" by (rule exI [of _ "user_mem_check_addr s"]) simp
  show ?case
  proof (cases "addr < va + len \<and> addr < ULIM")
    case False
    then show ?thesis using same by (subst user_mem_loop.simps) auto
  next
    case True
    show ?thesis
    proof (cases "pgdir_walk pgdir addr False s")
      case (Ret r t)
      then have t: "t = s" using pgdir_walk_nocreate [of s pgdir addr] by simp
      show ?thesis
      proof (cases r)
        case None
        then show ?thesis using True Ret t by (subst user_mem_loop.simps) auto
      next
        case (Some pt)
        then show ?thesis using True Ret t 1 [OF _ _ Ret Some] by (subst user_mem_loop.simps) auto
      qed
    next
      case (Panic m)
      then show ?thesis using True by (subst user_mem_loop.simps) auto
    next
      case (Leave c t)
      then show ?thesis using pgdir_walk_nocreate [of s pgdir addr] by simp
    qed
  qed
qed

lemma check_addr_keeps: "sys_inv K R pin s \<Longrightarrow> sys_inv K R pin (s\<lparr>user_mem_check_addr := x\<rparr>)"
  using kernel_ok_cong [of K R pin s "s\<lparr>user_mem_check_addr := x\<rparr>"]
  by (simp add: sys_inv_def cur_ok_def curenv_def live_def)

lemma user_mem_assert_keeps:
  assumes s: "sys_inv K R pin s" and e: "e \<in> live s"
  shows "wpK (\<lambda>_ t. sys_inv K R pin t) (left_inv K R pin) (user_mem_assert e va len perm s)"
proof -
  have "wpK (\<lambda>r t. wpK (\<lambda>_ t. sys_inv K R pin t) (left_inv K R pin)
      (if r < 0 then env_destroy e t else Ret () t)) (left_inv K R pin) (user_mem_check e va len (perm OR PTE_U) s)"
  proof (rule wpK_weaken [OF user_mem_loop_frame [of s "env_pgdir (envs s e)" va len "perm OR PTE_U" va,
        folded user_mem_check_def]])
    fix r t assume "\<exists>x. t = s\<lparr>user_mem_check_addr := x\<rparr>"
    then have "sys_inv K R pin t" "e \<in> live t" using check_addr_keeps [OF s] e by (auto simp: live_def)
    from this wpK_weaken [OF env_destroy_keeps [OF this]]
    show "wpK (\<lambda>_ t. sys_inv K R pin t) (left_inv K R pin) (if r < 0 then env_destroy e t else Ret () t)"
      by auto
  qed simp
  then show ?thesis by (simp add: user_mem_assert_def wpK_bind)
qed

section \<open>The remaining calls\<close>

lemma sys_env_destroy_keeps:
  assumes "sys_inv K R pin s"
  shows "keeps K R pin (sys_env_destroy envid s)"
  unfolding sys_env_destroy_def
  by (rule with_env_wp) (use assms sys_invD in \<open>auto simp: wpK_bind intro: wpK_weaken [OF env_destroy_keeps]\<close>)

lemma sys_env_set_status_keeps:
  assumes "sys_inv K R pin s"
  shows "keeps K R pin (sys_env_set_status envid status s)"
proof -
  have "sys_inv K R pin (upd_env e (\<lambda>x. x\<lparr>env_status := st\<rparr>) s)" if "status_of status = Some st" "e \<in> live s" for st e
    using that assms by (intro upd_env_keeps) (auto simp: status_of_def live_def split: if_splits)
  then show ?thesis using assms sys_invD(1) [OF assms]
    by (auto simp: sys_env_set_status_def intro!: with_env_wp split: option.split)
qed

lemma sys_env_set_pgfault_upcall_keeps:
  assumes "sys_inv K R pin s"
  shows "keeps K R pin (sys_env_set_pgfault_upcall envid func s)"
  unfolding sys_env_set_pgfault_upcall_def
  by (rule with_env_wp) (use assms sys_invD in \<open>auto intro!: upd_env_keeps\<close>)

lemma sys_change_priority_keeps:
  assumes "sys_inv K R pin s"
  shows "keeps K R pin (sys_change_priority priority s)"
  using assms sys_invD(1) [OF assms]
  by (auto simp: sys_change_priority_def intro!: with_cur_wp upd_env_keeps)

lemma vld8_frame: "wpK (\<lambda>_ t. t = s) (\<lambda>_ _. False) (vld8 p s)"
  by (simp add: vld8_def split: option.split)

lemma cputs_loop_keeps: "sys_inv K R pin s \<Longrightarrow> keeps K R pin (cputs_loop n prec p s)"
proof (induction n prec p s rule: cputs_loop.induct)
  case (2 n prec p s)
  show ?case
  proof (cases "vld8 p s")
    case (Ret ch t)
    then have "t = s" using vld8_frame [of s p] by simp
    then show ?thesis using 2 Ret cons_keeps by auto
  next
    case (Leave c t)
    then show ?thesis using vld8_frame [of s p] by simp
  qed simp
qed simp

lemma sys_cputs_keeps:
  assumes s: "sys_inv K R pin s"
  shows "keeps K R pin (sys_cputs p len s)"
  unfolding sys_cputs_def
proof (rule with_self_wp [OF s])
  fix c assume c: "c \<in> live s"
  have "keeps K R pin (cputs p len t)" if "sys_inv K R pin t" for t
    using that cputs_loop_keeps cons_keeps by (auto simp: cputs_def Let_def)
  then show "keeps K R pin (bindK (user_mem_assert c p len (PTE_U OR PTE_P) s) (\<lambda>_. cputs p len))"
    using wpK_weaken [OF user_mem_assert_keeps [OF s c]] by (auto simp: wpK_bind)
qed

lemma sys_ipc_recv_keeps:
  assumes s: "sys_inv K R pin s"
  shows "keeps K R pin (sys_ipc_recv dstva s)"
  unfolding sys_ipc_recv_def
proof (rule with_self_wp [OF s])
  fix c assume c: "curenv s = Some c" "c \<in> live s"
  let ?t = "upd_env c (\<lambda>x. x\<lparr>env_ipc_recving := True, env_ipc_dstva := dstva, env_status := ENV_NOT_RUNNABLE\<rparr>) s"
  have "sys_inv K R pin ?t" using s c by (intro upd_env_keeps) (auto simp: live_def)
  from wpK_weaken [OF sched_yield_keeps [OF this]]
  show "keeps K R pin (if dstva < UTOP \<and> dstva mod PGSIZE \<noteq> 0 then Ret (- E_INVAL) s
       else with_cur (\<lambda>c s. bindK (sched_yield (upd_env c (\<lambda>x. x\<lparr>env_ipc_recving := True, env_ipc_dstva := dstva,
                 env_status := ENV_NOT_RUNNABLE\<rparr>) s)) (\<lambda>_ s.
           Panic ''The sys_ipc_recv function should not return on success (only on error).'')) s)"
    using s c by (auto simp: with_cur_def wpK_bind)
qed

text \<open>A receiver's address has been checked by \<^verbatim>\<open>sys_ipc_recv\<close>, and is only used below \<^const>\<open>UTOP\<close>.\<close>

lemma ipc_send_page_keeps:
  assumes s: "sys_inv K R pin s" and t: "t \<in> live s" "srcva < UTOP" "env_ipc_dstva (envs s t) < UTOP"
    and nov: "\<forall>p < npages s. pp_ref (pages s p) \<noteq> 0xFFFF"
  shows "wpK (\<lambda>_ u. sys_inv K R pin u \<and> live u = live s) (\<lambda>_ _. False) (ipc_send_page t srcva perm s)"
proof (cases "srcva mod PGSIZE \<noteq> 0 \<or> bad_perm perm")
  case False
  have "wpK (\<lambda>_ u. sys_inv K R pin u \<and> live u = live s) (\<lambda>_ _. False) (with_cur (\<lambda>c s.
        bindK (share_page (env_pgdir (envs s c)) srcva (env_pgdir (envs s t)) (env_ipc_dstva (envs s t)) perm s)
          (\<lambda>error s. if error < 0 then Ret error s
             else Ret 0 (upd_env t (\<lambda>x. x\<lparr>env_ipc_perm := perm\<rparr>) s))) s)"
  proof (rule with_cur_wp [OF sys_invD(1) [OF s]])
    fix c assume "c \<in> live s"
    moreover have "perm < 4096" using False bad_perm_less by simp
    ultimately have "wpK (\<lambda>r u. sys_inv K R pin u \<and> envs u = envs s \<and> curenv u = curenv s) (\<lambda>_ _. False)
        (share_page (env_pgdir (envs s c)) srcva (env_pgdir (envs s t)) (env_ipc_dstva (envs s t)) perm s)"
      using share_page_keeps [OF s _ t(1,2,3) _ nov] by blast
    then show "wpK (\<lambda>_ u. sys_inv K R pin u \<and> live u = live s) (\<lambda>_ _. False)
        (bindK (share_page (env_pgdir (envs s c)) srcva (env_pgdir (envs s t)) (env_ipc_dstva (envs s t)) perm s)
          (\<lambda>error s. if error < 0 then Ret error s
             else Ret 0 (upd_env t (\<lambda>x. x\<lparr>env_ipc_perm := perm\<rparr>) s)))"
      by (simp add: wpK_bind) (erule wpK_weaken, auto simp: live_def intro!: upd_env_keeps)
  qed
  then show ?thesis using False by (simp add: ipc_send_page_def)
qed (use s in \<open>auto simp: ipc_send_page_def\<close>)

lemma ipc_deliver_keeps:
  assumes "sys_inv K R pin s" "t \<in> live s"
  shows "keeps K R pin (ipc_deliver t value s)"
  unfolding ipc_deliver_def
  by (rule with_cur_wp) (use assms sys_invD in \<open>auto simp: live_def intro!: upd_env_keeps\<close>)

lemma sys_ipc_try_send_keeps:
  assumes s: "sys_inv K R pin s" and nov: "\<forall>p < npages s. pp_ref (pages s p) \<noteq> 0xFFFF"
  shows "keeps K R pin (sys_ipc_try_send envid value srcva perm s)"
  unfolding sys_ipc_try_send_def
proof (rule with_env_wp)
  fix t assume t: "t \<in> live s"
  let ?u = "upd_env t (\<lambda>x. x\<lparr>env_ipc_perm := 0\<rparr>) s"
  let ?m = "if srcva < UTOP \<and> env_ipc_dstva (envs ?u t) < UTOP then ipc_send_page t srcva perm ?u else Ret 0 ?u"
  have u: "sys_inv K R pin ?u" using s by (intro upd_env_keeps) auto
  have tu: "t \<in> live ?u" using t by (simp add: live_def)
  have nu: "\<forall>p < npages ?u. pp_ref (pages ?u p) \<noteq> 0xFFFF" using nov by simp
  have "wpK (\<lambda>_ v. sys_inv K R pin v \<and> live v = live ?u) (\<lambda>_ _. False) ?m"
    using ipc_send_page_keeps [OF u tu _ _ nu] u by simp
  then have "keeps K R pin (bindK ?m (\<lambda>error s. if error < 0 then Ret error s else ipc_deliver t value s))"
    unfolding wpK_bind by (rule wpK_weaken) (use ipc_deliver_keeps tu in auto)
  then show "keeps K R pin (if \<not> env_ipc_recving (envs s t) then Ret (- E_IPC_NOT_RECV) s
       else let s = upd_env t (\<lambda>x. x\<lparr>env_ipc_perm := 0\<rparr>) s in
         bindK (if srcva < UTOP \<and> env_ipc_dstva (envs s t) < UTOP then ipc_send_page t srcva perm s else Ret 0 s)
           (\<lambda>error s. if error < 0 then Ret error s else ipc_deliver t value s))"
    using s unfolding Let_def by simp
qed (use s sys_invD in auto)

section \<open>Sending packets\<close>

text \<open>The buffers of the transmit ring are reserved pages other than the kernel's directory.\<close>

definition tx_ring_ok :: "u32 \<Rightarrow> u32 set \<Rightarrow> kstate \<Rightarrow> bool" where
  "tx_ring_ok K R s \<longleftrightarrow> io_read reg_TDT s < 32 \<and>
     (\<forall>i < n_tx_desc. \<exists>p \<in> R - {K}. p < npages s \<and> tx_addr_lower (tx_desc_list (nic s) i) = page2pa p)"

lemma write_plain_keeps:
  assumes s: "sys_inv K R pin s" and p: "plain s (dirs s) p" "p \<noteq> K"
    and t: "t = s\<lparr>pmem := pmem t, nic := nic t\<rparr>" "\<And>a. PGNUM a \<noteq> p \<Longrightarrow> pmem t a = pmem s a"
  shows "sys_inv K R pin t"
proof -
  obtain ps es where inv: "kernel_inv s K R pin ps es" using sys_invD(3) [OF s] by blast
  note k = kernel_invD [OF inv]
  note w = plain_write [OF k(1) p(1), of t]
  have f: "npages t = npages s" "pages t = pages s" "page_free_list t = page_free_list s" "envs t = envs s"
    "env_free_list t = env_free_list s" "kern_pgdir t = kern_pgdir s" "curenv t = curenv s"
    by (subst t(1), simp add: curenv_def)+
  note c = env_cong [OF f(4)]
  have K: "K < 0x100000" using k(5) small_page [OF k(1)] by (simp add: kern_dir_def)
  have "memory_inv t (dirs s) pin ps" "refs t (dirs s) = refs s (dirs s)" using w f t(2) by simp_all
  moreover have "kern_dir t K" using kern_dir_bytes [OF k(5) K] f p(2) t(2) by simp
  ultimately have "kernel_inv t K R pin ps es" using k c f by (simp add: kernel_inv_def reserved_def)
  then show ?thesis using sys_invD(1) [OF s] c(1) f(7) by (auto simp: sys_inv_def kernel_ok_def cur_ok_def)
qed

lemma reserved_plain: "sys_inv K R pin s \<Longrightarrow> p \<in> R \<Longrightarrow> plain s (dirs s) p"
  by (auto simp: sys_inv_def kernel_ok_def kernel_inv_def reserved_def refs_empty_iff)

lemma vread_frame: "wpK (\<lambda>bs t. t = s \<and> length bs = n) (\<lambda>_ _. False) (vread va n s)"
proof (induction va n s rule: vread.induct)
  case (2 va n s)
  then show ?case
    by (simp add: vld8_def wpK_bind split: option.split)
qed simp

lemma e1000_transmit_keeps:
  assumes s: "sys_inv K R pin s" and ring: "tx_ring_ok K R s"
  shows "wpK (\<lambda>_. sys_inv K R pin) (\<lambda>_ _. False) (e1000_transmit_packet packet sz s)"
proof (cases "sz \<le> 1000")
  case False
  then show ?thesis by (simp add: e1000_transmit_packet_def)
next
  case True
  have tdt: "unat (io_read reg_TDT s) < n_tx_desc"
    using ring by (simp add: tx_ring_ok_def word_less_nat_alt n_tx_desc_def)
  let ?i = "unat (io_read reg_TDT s)"
  let ?d = "tx_desc_list (nic s) ?i"
  let ?e = "?d\<lparr>tx_status := tx_status ?d AND NOT E1000_TXD_STAT_DD, tx_length := ucast sz\<rparr>"
  obtain p where p: "p \<in> R" "p \<noteq> K" "p < npages s" "tx_addr_lower ?d = page2pa p"
    using ring tdt by (auto simp: tx_ring_ok_def)
  obtain ps es where inv: "kernel_inv s K R pin ps es" using sys_invD(3) [OF s] by blast
  have p20: "p < 0x100000" using small_page [OF kernel_invD(1) [OF inv] p(3)] .
  have ka: "KADDR (page2pa p) s = Ret (page2pa p + KERNBASE) s"
    using p20 p(3) by (simp add: KADDR_def page2pa_def PGNUM_frame)
  have sz: "sz < 4096" using True by (rule order.strict_trans1) simp
  have buf: "\<not> a - page2pa p < sz" if "PGNUM a \<noteq> p" for a
    using page_region_iff [OF p20, of a] that order.strict_trans [OF _ sz, of "a - page2pa p"]
    by (auto simp: page2pa_def)
  have "sys_inv K R pin (io_write reg_TDT v (set_tx_desc ?i ?e (s\<lparr>pmem :=
      (\<lambda>a. if a - page2pa p < sz then f a else pmem s a)\<rparr>)))" for v f
    by (rule write_plain_keeps [OF s reserved_plain [OF s p(1)] p(2)]) (use buf in \<open>auto simp: io_write_def set_tx_desc_def\<close>)
  then show ?thesis
    using True s vread_frame [of s "unat sz" packet] ka p(4)
    by (cases "vread packet (unat sz) s") (auto simp: e1000_transmit_packet_def max_packet_size_def Let_def wpK_bind not_le)
qed

lemma user_mem_assert_self:
  assumes s: "sys_inv K R pin s" and e: "e \<in> live s" "curenv s = Some e"
  shows "wpK (\<lambda>_ t. \<exists>x. t = s\<lparr>user_mem_check_addr := x\<rparr>) (left_inv K R pin) (user_mem_assert e va len perm s)"
proof -
  let ?Q = "\<lambda>_ t. \<exists>x. t = s\<lparr>user_mem_check_addr := x\<rparr>"
  have "wpK (\<lambda>r t. wpK ?Q (left_inv K R pin) (if r < 0 then env_destroy e t else Ret () t))
      (left_inv K R pin) (user_mem_check e va len (perm OR PTE_U) s)"
  proof (rule wpK_weaken [OF user_mem_loop_frame [of s "env_pgdir (envs s e)" va len "perm OR PTE_U" va,
        folded user_mem_check_def]])
    fix r t assume t: "\<exists>x. t = s\<lparr>user_mem_check_addr := x\<rparr>"
    then have st: "sys_inv K R pin t" "e \<in> live t" "curenv t = Some e"
      using check_addr_keeps [OF s] e by (auto simp: live_def curenv_def)
    have "wpK (\<lambda>_ _. False) (left_inv K R pin) (env_destroy e t)"
      by (rule wpK_weaken [OF env_destroy_keeps [OF st(1,2)]]) (use st(3) in auto)
    then show "wpK ?Q (left_inv K R pin) (if r < 0 then env_destroy e t else Ret () t)"
      using t by (auto intro: wpK_false)
  qed simp
  then show ?thesis by (simp add: user_mem_assert_def wpK_bind)
qed

lemma sys_transmit_packet_keeps:
  assumes s: "sys_inv K R pin s" and ring: "tx_ring_ok K R s"
  shows "keeps K R pin (sys_transmit_packet packet sz s)"
  unfolding sys_transmit_packet_def
proof (rule with_self_wp [OF s])
  fix c assume c: "curenv s = Some c" "c \<in> live s"
  have "keeps K R pin (e1000_transmit_packet packet sz t)" if "\<exists>x. t = s\<lparr>user_mem_check_addr := x\<rparr>" for t
  proof -
    have "sys_inv K R pin t" "tx_ring_ok K R t"
      using that check_addr_keeps [OF s] ring by (auto simp: tx_ring_ok_def io_read_def)
    from e1000_transmit_keeps [OF this] show ?thesis by (rule wpK_weaken) auto
  qed
  then show "keeps K R pin (bindK (user_mem_assert c packet sz (PTE_W OR PTE_U OR PTE_P) s)
      (\<lambda>_. e1000_transmit_packet packet sz))"
    unfolding wpK_bind by (rule wpK_weaken [OF user_mem_assert_self [OF s c(2,1)]])
qed

section \<open>The dispatcher\<close>

lemma syscall_keeps:
  assumes s: "sys_inv K R pin s" and nov: "\<forall>p < npages s. pp_ref (pages s p) \<noteq> 0xFFFF"
    and ring: "tx_ring_ok K R s" and no: "syscallno \<notin> {9, 17, 18}"
  shows "keeps K R pin (syscall eerd syscallno a1 a2 a3 a4 a5 s)"
proof -
  have "keeps K R pin (sys_cgetc s)" using s cons_keeps by (auto simp: sys_cgetc_def split: option.split)
  moreover have "keeps K R pin (bindK (sys_cputs a1 a2 s) (\<lambda>_. Ret (0 :: int)))"
    using sys_cputs_keeps [OF s] by (simp add: wpK_bind)
  moreover have "keeps K R pin (bindK (sys_yield s) (\<lambda>_. Ret (0 :: int)))"
    using sched_yield_keeps [OF s] by (auto simp: wpK_bind sys_yield_def intro: wpK_false)
  moreover have "keeps K R pin (sys_getenvid s)"
    using s sys_invD(1) [OF s] by (auto simp: sys_getenvid_def intro: with_cur_wp)
  moreover have "keeps K R pin (sys_time_msec s)" using s by (simp add: sys_time_msec_def)
  ultimately show ?thesis
    using no s sys_env_destroy_keeps [OF s] sys_page_alloc_keeps [OF s] sys_page_map_keeps [OF s nov]
      sys_page_unmap_keeps [OF s] sys_exofork_keeps [OF s] sys_env_set_status_keeps [OF s]
      sys_env_set_pgfault_upcall_keeps [OF s] sys_ipc_try_send_keeps [OF s nov] sys_ipc_recv_keeps [OF s]
      sys_change_priority_keeps [OF s] sys_transmit_packet_keeps [OF s ring]
    by (simp add: syscall_def)
qed

end
