(* ===== verification/Start.thy ===== *)
theory Start
  imports SysInv
begin

text \<open>
  The all-zero kernel state, the contents of the kernel's data section before it runs, and
  the concrete states built from it on which the properties are evaluated.
\<close>

definition zero_cpu :: cpuinfo where
  "zero_cpu = \<lparr>cpu_id = 0, cpu_status = CPU_UNUSED, cpu_env = None, ts_esp0 = 0, ts_ss0 = 0\<rparr>"

definition zero_console :: console where
  "zero_console = \<lparr>cons_buf = (\<lambda>_. 0), cons_rpos = 0, cons_wpos = 0, kbd_shift = 0, kbd_rx = [],
     serial_exists = False, serial_rx = [], serial_tx = [], lpt_tx = [], crt_buf = (\<lambda>_. 0), crt_pos = 0,
     reboot_req = False\<rparr>"

definition zero_nic :: e1000 where
  "zero_nic = \<lparr>e1000_io = (\<lambda>_. 0),
     tx_desc_list = (\<lambda>_. \<lparr>tx_addr_lower = 0, tx_addr_upper = 0, tx_length = 0, tx_cso = 0, tx_cmd = 0,
        tx_status = 0, tx_css = 0, tx_special = 0\<rparr>),
     rx_desc_list = (\<lambda>_. \<lparr>rx_addr_lower = 0, rx_addr_upper = 0, rx_length = 0, rx_checksum = 0,
        rx_status = 0, rx_errors = 0, rx_special = 0\<rparr>)\<rparr>"

definition zero_state :: kstate where
  "zero_state = \<lparr>pmem = (\<lambda>_. 0), npages = 0, npages_basemem = 0, nextfree = 0, kern_pgdir = 0,
     pages_va = 0, envs_va = 0, pages = (\<lambda>_. \<lparr>pp_link = None, pp_ref = 0\<rparr>), page_free_list = None,
     mmio_base = 0, user_mem_check_addr = 0, cr3 = 0, cr2 = 0, invlpgs = [], envs = (\<lambda>_. zero_env),
     env_free_list = None, cpus = (\<lambda>_. zero_cpu), this_cpu = 0, bootcpu = 0,
     kernel_lock = \<lparr>locked = 0, lk_name = [], lk_cpu = None\<rparr>, panicstr = False, ticks = 0,
     cons = zero_console, nic = zero_nic\<rparr>"

end
