(* ===== verification/Cstring.thy ===== *)
theory Cstring
  imports Memory
begin

text \<open>
  The string library (\<^verbatim>\<open>lib/string.c\<close>), which the kernel and the user programs share. The
  functions that only read a null-terminated string take the bytes before its terminator
  as a list; those that write work on the memory, with addresses as in the source. The
  x86 string instructions are loops over the index of the moved unit.
\<close>

section \<open>Reading strings\<close>

text \<open>The first byte of a string, which is the terminator when the list is empty.\<close>

definition hd0 :: "u8 list \<Rightarrow> u8" where
  "hd0 s = (case s of [] \<Rightarrow> 0 | c # _ \<Rightarrow> c)"

fun atohex_digits :: "u32 \<Rightarrow> u8 list \<Rightarrow> u32" where
  "atohex_digits result [] = result"
| "atohex_digits result (ch # s) =
     (let result = push_bit 4 result; c = sint ch in
      if 0 \<le> c - 48 \<and> c - 48 \<le> 9 then atohex_digits (result OR word_of_int (c - 48)) s
      else if 0 \<le> c - 65 \<and> c - 65 \<le> 5 then atohex_digits (result OR word_of_int (c - 65 + 10)) s
      else if 0 \<le> c - 97 \<and> c - 97 \<le> 5 then atohex_digits (result OR word_of_int (c - 97 + 10)) s
      else result)"

definition atohex :: "u8 list \<Rightarrow> u32" where
  "atohex s = (case s of c0 # c1 # s \<Rightarrow> if c0 = 48 \<and> c1 = 120 then atohex_digits 0 s else 0 | _ \<Rightarrow> 0)"

fun strcmp :: "u8 list \<Rightarrow> u8 list \<Rightarrow> int" where
  "strcmp (p # ps) (q # qs) = (if p = q then strcmp ps qs else uint p - uint q)"
| "strcmp ps qs = uint (hd0 ps) - uint (hd0 qs)"

fun strncmp :: "u8 list \<Rightarrow> u8 list \<Rightarrow> nat \<Rightarrow> int" where
  "strncmp ps qs 0 = 0"
| "strncmp (p # ps) (q # qs) (Suc n) = (if p = q then strncmp ps qs n else uint p - uint q)"
| "strncmp ps qs (Suc n) = uint (hd0 ps) - uint (hd0 qs)"

text \<open>The offset of the first occurrence; \<^term>\<open>None\<close> for a null pointer.\<close>

fun strchr :: "u8 list \<Rightarrow> u8 \<Rightarrow> nat option" where
  "strchr [] c = None"
| "strchr (x # s) c = (if x = c then Some 0 else map_option Suc (strchr s c))"

fun strfind :: "u8 list \<Rightarrow> u8 \<Rightarrow> nat" where
  "strfind [] c = 0"
| "strfind (x # s) c = (if x = c then 0 else Suc (strfind s c))"

fun memcmp :: "mem \<Rightarrow> u32 \<Rightarrow> u32 \<Rightarrow> nat \<Rightarrow> int" where
  "memcmp m s1 s2 0 = 0"
| "memcmp m s1 s2 (Suc n) = (if m s1 \<noteq> m s2 then uint (m s1) - uint (m s2) else memcmp m (s1 + 1) (s2 + 1) n)"

section \<open>Numbers\<close>

definition strtol_digit :: "u8 \<Rightarrow> int option" where
  "strtol_digit c =
     (let c = sint c in
      if 48 \<le> c \<and> c \<le> 57 then Some (c - 48)
      else if 97 \<le> c \<and> c \<le> 122 then Some (c - 97 + 10)
      else if 65 \<le> c \<and> c \<le> 90 then Some (c - 65 + 10)
      else None)"

text \<open>The digits, with the 32-bit accumulator, and the rest of the string for \<^verbatim>\<open>endptr\<close>.\<close>

fun strtol_digits :: "int \<Rightarrow> u32 \<Rightarrow> u8 list \<Rightarrow> u32 \<times> u8 list" where
  "strtol_digits base val [] = (val, [])"
| "strtol_digits base val (c # s) = (case strtol_digit c of
       None \<Rightarrow> (val, c # s)
     | Some dig \<Rightarrow> if dig \<ge> base then (val, c # s)
         else strtol_digits base (val * word_of_int base + word_of_int dig) s)"

definition strtol :: "u8 list \<Rightarrow> int \<Rightarrow> int \<times> u8 list" where
  "strtol s base =
     (let s = dropWhile (\<lambda>c. c = 32 \<or> c = 9) s;
          (neg, s) = (if hd0 s = 43 then (False, tl s) else if hd0 s = 45 then (True, tl s) else (False, s));
          (base, s) = (if (base = 0 \<or> base = 16) \<and> hd0 s = 48 \<and> hd0 (tl s) = 120 then (16, drop 2 s)
                       else if base = 0 \<and> hd0 s = 48 then (8, tl s)
                       else if base = 0 then (10, s) else (base, s));
          (val, rest) = strtol_digits base 0 s
      in (sint (if neg then - val else val), rest))"

section \<open>Strings in memory\<close>

text \<open>The loops that stop at a terminator, which need not exist.\<close>

partial_function (option) strlen_from :: "mem \<Rightarrow> u32 \<Rightarrow> nat \<Rightarrow> nat option" where
  "strlen_from m s n = (if m s = 0 then Some n else strlen_from m (s + 1) (n + 1))"

definition strlen :: "mem \<Rightarrow> u32 \<Rightarrow> nat option" where
  "strlen m s = strlen_from m s 0"

fun strnlen :: "mem \<Rightarrow> u32 \<Rightarrow> nat \<Rightarrow> nat" where
  "strnlen m s 0 = 0"
| "strnlen m s (Suc n) = (if m s = 0 then 0 else Suc (strnlen m (s + 1) n))"

partial_function (option) strcpy :: "mem \<Rightarrow> u32 \<Rightarrow> u32 \<Rightarrow> mem option" where
  "strcpy m dst src =
     (let m = m(dst := m src) in if m dst = 0 then Some m else strcpy m (dst + 1) (src + 1))"

definition strcat :: "mem \<Rightarrow> u32 \<Rightarrow> u32 \<Rightarrow> mem option" where
  "strcat m dst src = (case strlen m dst of None \<Rightarrow> None | Some len \<Rightarrow> strcpy m (dst + of_nat len) src)"

fun strncpy :: "mem \<Rightarrow> u32 \<Rightarrow> u32 \<Rightarrow> nat \<Rightarrow> mem" where
  "strncpy m dst src 0 = m"
| "strncpy m dst src (Suc n) =
     (let m = m(dst := m src) in strncpy m (dst + 1) (if m src \<noteq> 0 then src + 1 else src) n)"

text \<open>The loop of \<^verbatim>\<open>strlcpy\<close> with \<open>n\<close> bytes left before the last one; it returns the end of the copy.\<close>

fun strlcpy_loop :: "mem \<Rightarrow> u32 \<Rightarrow> u32 \<Rightarrow> nat \<Rightarrow> mem \<times> u32" where
  "strlcpy_loop m dst src 0 = (m, dst)"
| "strlcpy_loop m dst src (Suc n) =
     (if m src \<noteq> 0 then strlcpy_loop (m(dst := m src)) (dst + 1) (src + 1) n else (m, dst))"

definition strlcpy :: "mem \<Rightarrow> u32 \<Rightarrow> u32 \<Rightarrow> nat \<Rightarrow> mem \<times> u32" where
  "strlcpy m dst src sz =
     (if sz > 0 then let (m, d) = strlcpy_loop m dst src (sz - 1) in (m(d := 0), d - dst)
      else (m, dst - dst))"

section \<open>Bulk operations\<close>

definition rep_stosb :: "mem \<Rightarrow> u32 \<Rightarrow> u8 \<Rightarrow> nat \<Rightarrow> mem" where
  "rep_stosb m d c n = fold (\<lambda>i m. m(d + of_nat i := c)) [0..<n] m"

definition rep_stosl :: "mem \<Rightarrow> u32 \<Rightarrow> u32 \<Rightarrow> nat \<Rightarrow> mem" where
  "rep_stosl m d c n = fold (\<lambda>i m. st32 m (d + of_nat (4 * i)) c) [0..<n] m"

text \<open>Four copies of the low byte.\<close>

definition bytes4 :: "u32 \<Rightarrow> u32" where
  "bytes4 c = (let c = c AND 0xFF in push_bit 24 c OR push_bit 16 c OR push_bit 8 c OR c)"

definition memset :: "mem \<Rightarrow> u32 \<Rightarrow> u32 \<Rightarrow> u32 \<Rightarrow> mem" where
  "memset m v c n =
     (if n = 0 then m
      else if v mod 4 = 0 \<and> n mod 4 = 0 then
        rep_stosl m v (bytes4 c) (unat (n div 4))
      else rep_stosb m v (ucast c) (unat n))"

text \<open>The direction flag is clear in the first two and set in the last two.\<close>

definition rep_movsb :: "mem \<Rightarrow> u32 \<Rightarrow> u32 \<Rightarrow> nat \<Rightarrow> mem" where
  "rep_movsb m d s n = fold (\<lambda>i m. m(d + of_nat i := m (s + of_nat i))) [0..<n] m"

definition rep_movsl :: "mem \<Rightarrow> u32 \<Rightarrow> u32 \<Rightarrow> nat \<Rightarrow> mem" where
  "rep_movsl m d s n = fold (\<lambda>i m. st32 m (d + of_nat (4 * i)) (ld32 m (s + of_nat (4 * i)))) [0..<n] m"

definition std_movsb :: "mem \<Rightarrow> u32 \<Rightarrow> u32 \<Rightarrow> nat \<Rightarrow> mem" where
  "std_movsb m d s n = fold (\<lambda>i m. m(d - of_nat i := m (s - of_nat i))) [0..<n] m"

definition std_movsl :: "mem \<Rightarrow> u32 \<Rightarrow> u32 \<Rightarrow> nat \<Rightarrow> mem" where
  "std_movsl m d s n = fold (\<lambda>i m. st32 m (d - of_nat (4 * i)) (ld32 m (s - of_nat (4 * i)))) [0..<n] m"

definition memmove :: "mem \<Rightarrow> u32 \<Rightarrow> u32 \<Rightarrow> u32 \<Rightarrow> mem" where
  "memmove m dst src n =
     (if src < dst \<and> src + n > dst then
        let s = src + n; d = dst + n in
        if s mod 4 = 0 \<and> d mod 4 = 0 \<and> n mod 4 = 0 then std_movsl m (d - 4) (s - 4) (unat (n div 4))
        else std_movsb m (d - 1) (s - 1) (unat n)
      else
        if src mod 4 = 0 \<and> dst mod 4 = 0 \<and> n mod 4 = 0 then rep_movsl m dst src (unat (n div 4))
        else rep_movsb m dst src (unat n))"

definition memcpy :: "mem \<Rightarrow> u32 \<Rightarrow> u32 \<Rightarrow> u32 \<Rightarrow> mem" where
  "memcpy m dst src n = memmove m dst src n"

section \<open>Moving is copying at once\<close>

lemma region_iff:
  fixes x d :: u32
  assumes "unat d + n \<le> 2 ^ 32" "n < 2 ^ 32"
  shows "x - d < of_nat n \<longleftrightarrow> unat d \<le> unat x \<and> unat x < unat d + n"
proof (cases "d \<le> x")
  case True
  then have "unat (x - d) = unat x - unat d" "unat d \<le> unat x" by (simp_all add: unat_sub word_le_nat_alt)
  then show ?thesis using assms(2) by (auto simp: word_less_nat_alt unat_of_nat_u32)
next
  case False
  then have lt: "unat x < unat d" by (simp add: word_le_nat_alt)
  then have "unat (x - d) = 2 ^ 32 + unat x - unat d"
    using unat_u32_less [of d] by (simp add: unat_sub_if')
  then show ?thesis using assms lt by (simp add: word_less_nat_alt unat_of_nat_u32)
qed

lemma unat_add_of_nat: "unat d + n < 2 ^ 32 \<Longrightarrow> unat (d + of_nat n :: u32) = unat d + n"
  by (simp add: unat_word_ariths unat_of_nat_u32)

lemma mem_copy_iff:
  assumes "unat dst + n \<le> 2 ^ 32" "n < 2 ^ 32"
  shows "mem_copy m dst src (of_nat n) x =
    (if unat dst \<le> unat x \<and> unat x < unat dst + n then m (src + (x - dst)) else m x)"
  by (simp add: mem_copy_def region_iff [OF assms])

lemma unat_src_offset:
  assumes "unat dst \<le> unat x" "unat src + (unat x - unat dst) < 2 ^ 32"
  shows "unat (src + (x - dst) :: u32) = unat src + (unat x - unat dst)"
proof -
  have "unat (x - dst) = unat x - unat dst" using assms(1) by (simp add: unat_sub word_le_nat_alt)
  then show ?thesis using assms(2) by (simp add: unat_word_ariths)
qed

text \<open>One unit of \<open>w\<close> bytes moved at the end, or at the front, of a region moved before.\<close>

lemma mem_copy_append:
  fixes dst src :: u32
  assumes b: "unat dst + (a + w) \<le> 2 ^ 32" "unat src + (a + w) \<le> 2 ^ 32" "a + w < 2 ^ 32"
    and dir: "unat dst \<le> unat src \<or> unat src + (a + w) \<le> unat dst"
  shows "mem_copy (mem_copy m dst src (of_nat a)) (dst + of_nat a) (src + of_nat a) (of_nat w)
    = mem_copy m dst src (of_nat (a + w))"
proof (cases "w = 0")
  case True
  then show ?thesis by (simp add: mem_copy_def)
next
  case False
  then have da: "unat (dst + of_nat a) = unat dst + a" using b by (intro unat_add_of_nat) simp
  show ?thesis
  proof (rule ext)
    fix x
    let ?y = "src + of_nat a + (x - (dst + of_nat a))"
    have y: "?y = src + (x - dst)" by simp
    have "mem_copy m dst src (of_nat a) ?y = m ?y"
      if "unat dst + a \<le> unat x" "unat x < unat dst + a + w"
    proof -
      have "unat ?y = unat src + (unat x - unat dst)"
        unfolding y by (rule unat_src_offset) (use that b in linarith)+
      then show ?thesis using dir that mem_copy_iff [of dst a m src ?y] b by auto
    qed
    then show "mem_copy (mem_copy m dst src (of_nat a)) (dst + of_nat a) (src + of_nat a) (of_nat w) x
        = mem_copy m dst src (of_nat (a + w)) x"
      using b da mem_copy_iff [of "dst + of_nat a" w _ "src + of_nat a" x] mem_copy_iff [of dst a m src x]
        mem_copy_iff [of dst "a + w" m src x] y by auto
  qed
qed

lemma mem_copy_prepend:
  fixes dst src :: u32
  assumes b: "unat dst + (w + a) \<le> 2 ^ 32" "unat src + (w + a) \<le> 2 ^ 32" "w + a < 2 ^ 32"
    and dir: "unat src \<le> unat dst"
  shows "mem_copy (mem_copy m (dst + of_nat w) (src + of_nat w) (of_nat a)) dst src (of_nat w)
    = mem_copy m dst src (of_nat (w + a))"
proof (cases "a = 0")
  case True
  then show ?thesis by (simp add: mem_copy_def)
next
  case False
  then have da: "unat (dst + of_nat w) = unat dst + w" using b by (intro unat_add_of_nat) simp
  show ?thesis
  proof (rule ext)
    fix x
    let ?c = "mem_copy m (dst + of_nat w) (src + of_nat w) (of_nat a)"
    have "?c (src + (x - dst)) = m (src + (x - dst))" if "unat dst \<le> unat x" "unat x < unat dst + w"
    proof -
      have "unat (src + (x - dst)) = unat src + (unat x - unat dst)"
        by (rule unat_src_offset) (use that b in linarith)+
      then show ?thesis using dir that da mem_copy_iff [of "dst + of_nat w" a m "src + of_nat w" "src + (x - dst)"] b
        by auto
    qed
    moreover have "src + of_nat w + (x - (dst + of_nat w)) = src + (x - dst)" by simp
    ultimately show "mem_copy ?c dst src (of_nat w) x = mem_copy m dst src (of_nat (w + a)) x"
      using b da mem_copy_iff [of dst w ?c src x] mem_copy_iff [of "dst + of_nat w" a m "src + of_nat w" x]
        mem_copy_iff [of dst "w + a" m src x] by auto
  qed
qed

lemma fold_copy_up:
  fixes dst src :: u32
  assumes b: "unat dst + w * n \<le> 2 ^ 32" "unat src + w * n \<le> 2 ^ 32" "w * n < 2 ^ 32"
    and dir: "unat dst \<le> unat src \<or> unat src + w * n \<le> unat dst"
  shows "k \<le> n \<Longrightarrow> fold (\<lambda>i m. mem_copy m (dst + of_nat (w * i)) (src + of_nat (w * i)) (of_nat w)) [0..<k] m
    = mem_copy m dst src (of_nat (w * k))"
proof (induction k)
  case (Suc k)
  have "w * Suc k \<le> w * n" using Suc.prems by (rule mult_le_mono2)
  then have "unat dst + (w * k + w) \<le> 2 ^ 32" "unat src + (w * k + w) \<le> 2 ^ 32" "w * k + w < 2 ^ 32"
    "unat dst \<le> unat src \<or> unat src + (w * k + w) \<le> unat dst"
    using b dir by auto
  note mem_copy_append [OF this]
  moreover have "w * Suc k = w * k + w" by simp
  ultimately show ?case using Suc.IH Suc.prems by (simp only: upt_Suc_append le0 fold_append) simp
qed (simp add: mem_copy_def)

lemma fold_copy_down:
  fixes dst src :: u32
  assumes b: "unat dst + w * n \<le> 2 ^ 32" "unat src + w * n \<le> 2 ^ 32" "w * n < 2 ^ 32"
    and dir: "unat src \<le> unat dst"
  shows "k \<le> n \<Longrightarrow>
    fold (\<lambda>i m. mem_copy m (dst + of_nat (w * (n - Suc i))) (src + of_nat (w * (n - Suc i))) (of_nat w)) [0..<k] m
    = mem_copy m (dst + of_nat (w * (n - k))) (src + of_nat (w * (n - k))) (of_nat (w * k))"
proof (induction k)
  case (Suc k)
  define a where "a = w * (n - Suc k)"
  have "n - k = Suc (n - Suc k)" using Suc.prems by simp
  then have e: "w * (n - k) = a + w" by (simp add: a_def)
  have tot: "a + (w + w * k) = w * n"
  proof -
    have "n = (n - Suc k) + Suc k" using Suc.prems by simp
    then have "w * n = w * ((n - Suc k) + Suc k)" by simp
    then show ?thesis by (simp add: a_def distrib_left)
  qed
  show ?case
  proof (cases "w = 0")
    case True
    then show ?thesis using Suc by (simp add: mem_copy_def)
  next
    case False
    have d: "unat (dst + of_nat a) = unat dst + a" "unat (src + of_nat a) = unat src + a"
      using b tot False by (auto intro!: unat_add_of_nat)
    have "mem_copy (mem_copy m (dst + of_nat a + of_nat w) (src + of_nat a + of_nat w) (of_nat (w * k)))
        (dst + of_nat a) (src + of_nat a) (of_nat w) = mem_copy m (dst + of_nat a) (src + of_nat a) (of_nat (w + w * k))"
      by (rule mem_copy_prepend) (use d b tot dir in auto)
    then show ?thesis using Suc.IH Suc.prems e
      by (simp only: upt_Suc_append le0 fold_append) (simp add: a_def add.assoc)
  qed
qed (simp add: mem_copy_def)

lemma copy_1: "mem_copy m d s 1 = m(d := m s)"
proof (rule ext)
  fix x :: u32
  have "x - d < 1 \<longleftrightarrow> x = d" by (simp add: word_less_nat_alt unat_eq_zero)
  then show "mem_copy m d s 1 x = (m(d := m s)) x" by (simp add: mem_copy_def)
qed

lemma less_4_cases: "i < 4 \<longleftrightarrow> i = 0 \<or> i = 1 \<or> i = 2 \<or> i = 3" for i :: u32
proof -
  have "unat i < 4 \<longleftrightarrow> unat i = 0 \<or> unat i = 1 \<or> unat i = 2 \<or> unat i = 3" by auto
  then show ?thesis by (simp add: word_less_nat_alt word_unat_eq_iff)
qed

lemma ld32_bytes:
  "ucast (ld32 m a) = m a" "ucast (drop_bit 8 (ld32 m a)) = m (a + 1)"
  "ucast (drop_bit 16 (ld32 m a)) = m (a + 2)" "ucast (drop_bit 24 (ld32 m a)) = m (a + 3)"
proof -
  have "bit (ld32 m a) n = (if n < 8 then bit (m a) n else if n < 16 then bit (m (a + 1)) (n - 8)
      else if n < 24 then bit (m (a + 2)) (n - 16) else bit (m (a + 3)) (n - 24))" if "n < 32" for n
    unfolding ld32_def by (rule bit_bytes_u32 [OF that])
  then show "ucast (ld32 m a) = m a" "ucast (drop_bit 8 (ld32 m a)) = m (a + 1)"
    "ucast (drop_bit 16 (ld32 m a)) = m (a + 2)" "ucast (drop_bit 24 (ld32 m a)) = m (a + 3)"
    by (auto intro!: bit_word_eqI simp: bit_ucast_iff bit_drop_bit_eq)
qed

lemma copy_4: "mem_copy m d s 4 = st32 m d (ld32 m s)"
proof (rule ext)
  fix x :: u32
  have "x - d = k \<longleftrightarrow> x = d + k" for k by (auto simp: algebra_simps)
  then show "mem_copy m d s 4 x = st32 m d (ld32 m s) x"
    by (auto simp: mem_copy_def less_4_cases st32_def ld32_bytes)
qed

text \<open>\<^verbatim>\<open>memmove\<close> copies as if through a buffer, whatever the overlap and the unit it chose.\<close>

lemma memmove_eq:
  assumes b: "unat dst + unat n \<le> 2 ^ 32" "unat src + unat n \<le> 2 ^ 32"
  shows "memmove m dst src n = mem_copy m dst src n"
proof -
  have n32: "unat n < 2 ^ 32" by (rule unat_u32_less)
  have n4: "4 * unat (n div 4) = unat n" if "n mod 4 = 0"
  proof -
    have "unat n mod 4 = 0" using that by (simp add: unat_mod word_unat_eq_iff)
    then show ?thesis by (simp add: unat_div dvd_eq_mod_eq_0)
  qed
  show ?thesis
  proof (cases "src < dst \<and> src + n > dst")
    case True
    then have dir: "unat src \<le> unat dst" by (simp add: word_less_nat_alt)
    have bytes: "std_movsb m (dst + n - 1) (src + n - 1) (unat n) = mem_copy m dst src n"
    proof -
      have ix: "d + n - 1 - of_nat i = d + of_nat (1 * (unat n - Suc i))" if "i < unat n" for d i
      proof -
        have "of_nat (unat n - Suc i) = n - of_nat (Suc i)" using that by (subst of_nat_diff) simp_all
        then show ?thesis by simp
      qed
      have "std_movsb m (dst + n - 1) (src + n - 1) (unat n) =
          fold (\<lambda>i m. mem_copy m (dst + of_nat (1 * (unat n - Suc i))) (src + of_nat (1 * (unat n - Suc i))) (of_nat 1)) [0..<unat n] m"
        unfolding std_movsb_def by (rule fold_cong) (simp_all add: ix copy_1)
      then show ?thesis using fold_copy_down [of dst 1 "unat n" src "unat n" m] b n32 dir by simp
    qed
    have words: "std_movsl m (dst + n - 4) (src + n - 4) (unat (n div 4)) = mem_copy m dst src n" if "n mod 4 = 0"
    proof -
      note q = n4 [OF that]
      have ix: "d + n - 4 - of_nat (4 * i) = d + of_nat (4 * (unat (n div 4) - Suc i))" if "i < unat (n div 4)" for d i
      proof -
        have "4 * (unat (n div 4) - Suc i) = unat n - 4 * Suc i" using q by (simp add: diff_mult_distrib2)
        moreover have "of_nat (unat n - 4 * Suc i) = n - of_nat (4 * Suc i)" using that q by (subst of_nat_diff) auto
        ultimately show ?thesis by simp
      qed
      have "std_movsl m (dst + n - 4) (src + n - 4) (unat (n div 4)) =
          fold (\<lambda>i m. mem_copy m (dst + of_nat (4 * (unat (n div 4) - Suc i)))
            (src + of_nat (4 * (unat (n div 4) - Suc i))) (of_nat 4)) [0..<unat (n div 4)] m"
        unfolding std_movsl_def by (rule fold_cong) (simp_all only: ix copy_4 [symmetric] atLeastLessThan_iff set_upt of_nat_numeral)
      then show ?thesis using fold_copy_down [of dst 4 "unat (n div 4)" src "unat (n div 4)" m] b n32 dir q by simp
    qed
    show ?thesis using True bytes words by (simp add: memmove_def Let_def)
  next
    case False
    have dir: "unat dst \<le> unat src \<or> unat src + unat n \<le> unat dst"
    proof (cases "src < dst")
      case True
      then have "unat src < unat dst" by (simp add: word_less_nat_alt)
      then have "unat (src + n) = unat src + unat n" using b by (simp add: unat_word_ariths)
      moreover have "\<not> dst < src + n" using True False by simp
      ultimately show ?thesis by (simp add: word_less_nat_alt)
    qed (simp add: word_less_nat_alt)
    have bytes: "rep_movsb m dst src (unat n) = mem_copy m dst src n"
      using fold_copy_up [of dst 1 "unat n" src "unat n" m] b n32 dir by (simp add: rep_movsb_def copy_1)
    have words: "rep_movsl m dst src (unat (n div 4)) = mem_copy m dst src n" if "n mod 4 = 0"
      using fold_copy_up [of dst 4 "unat (n div 4)" src "unat (n div 4)" m] b n32 dir n4 [OF that]
      by (simp add: rep_movsl_def copy_4)
    show ?thesis using False bytes words by (auto simp: memmove_def)
  qed
qed

section \<open>Filling\<close>

lemma mem_set_iff:
  assumes "unat d + n \<le> 2 ^ 32" "n < 2 ^ 32"
  shows "mem_set m d c (of_nat n) x = (if unat d \<le> unat x \<and> unat x < unat d + n then c else m x)"
  by (simp add: mem_set_def region_iff [OF assms])

lemma mem_set_append:
  fixes d :: u32
  assumes b: "unat d + (a + w) \<le> 2 ^ 32" "a + w < 2 ^ 32"
  shows "mem_set (mem_set m d c (of_nat a)) (d + of_nat a) c (of_nat w) = mem_set m d c (of_nat (a + w))"
proof (cases "w = 0")
  case True
  then show ?thesis by (simp add: mem_set_def)
next
  case False
  then have da: "unat (d + of_nat a) = unat d + a" using b by (intro unat_add_of_nat) simp
  show ?thesis
    by (rule ext) (use b da mem_set_iff [of "d + of_nat a" w _ c] mem_set_iff [of d a m c]
      mem_set_iff [of d "a + w" m c] in auto)
qed

lemma fold_set:
  fixes d :: u32
  assumes b: "unat d + w * n \<le> 2 ^ 32" "w * n < 2 ^ 32"
  shows "k \<le> n \<Longrightarrow> fold (\<lambda>i m. mem_set m (d + of_nat (w * i)) c (of_nat w)) [0..<k] m = mem_set m d c (of_nat (w * k))"
proof (induction k)
  case (Suc k)
  have "w * Suc k \<le> w * n" using Suc.prems by (rule mult_le_mono2)
  then have "unat d + (w * k + w) \<le> 2 ^ 32" "w * k + w < 2 ^ 32" using b by auto
  note mem_set_append [OF this]
  moreover have "w * Suc k = w * k + w" by simp
  ultimately show ?case using Suc.IH Suc.prems by (simp only: upt_Suc_append le0 fold_append) simp
qed (simp add: mem_set_def)

lemma bytes4_bytes:
  "ucast (bytes4 c) = (ucast c :: u8)" "ucast (drop_bit 8 (bytes4 c)) = (ucast c :: u8)"
  "ucast (drop_bit 16 (bytes4 c)) = (ucast c :: u8)" "ucast (drop_bit 24 (bytes4 c)) = (ucast c :: u8)"
proof -
  define d where "d = c AND 0xFF"
  have d: "bytes4 c = push_bit 24 d OR push_bit 16 d OR push_bit 8 d OR d"
    by (simp only: bytes4_def Let_def d_def)
  have m: "bit d n \<longleftrightarrow> bit c n \<and> n < 8" for n
  proof -
    have "(0xFF :: u32) = mask 8" by (simp add: mask_eq_exp_minus_1)
    then show ?thesis using bit_imp_le_length [of c n]
      by (auto simp only: d_def bit_and_iff bit_mask_iff possible_bit_word)
  qed
  have "bit (bytes4 c) n = bit c (if n < 8 then n else if n < 16 then n - 8 else if n < 24 then n - 16 else n - 24)"
    if "n < 32" for n
    using that by (auto simp: d bit_or_iff bit_push_bit_iff m)
  then show "ucast (bytes4 c) = (ucast c :: u8)" "ucast (drop_bit 8 (bytes4 c)) = (ucast c :: u8)"
    "ucast (drop_bit 16 (bytes4 c)) = (ucast c :: u8)" "ucast (drop_bit 24 (bytes4 c)) = (ucast c :: u8)"
    by (auto intro!: bit_word_eqI simp: bit_ucast_iff bit_drop_bit_eq)
qed

lemma set_1: "mem_set m d c 1 = m(d := c)"
proof (rule ext)
  fix x :: u32
  have "x - d < 1 \<longleftrightarrow> x = d" by (simp add: word_less_nat_alt unat_eq_zero)
  then show "mem_set m d c 1 x = (m(d := c)) x" by (simp add: mem_set_def)
qed

lemma set_4: "mem_set m d (ucast c) 4 = st32 m d (bytes4 c)"
proof (rule ext)
  fix x :: u32
  have "x - d = k \<longleftrightarrow> x = d + k" for k by (auto simp: algebra_simps)
  then show "mem_set m d (ucast c) 4 x = st32 m d (bytes4 c) x"
    by (auto simp: mem_set_def less_4_cases st32_def bytes4_bytes)
qed

lemma memset_eq:
  assumes b: "unat v + unat n \<le> 2 ^ 32"
  shows "memset m v c n = mem_set m v (ucast c) n"
proof -
  have n32: "unat n < 2 ^ 32" by (rule unat_u32_less)
  have bytes: "rep_stosb m v (ucast c) (unat n) = mem_set m v (ucast c) n"
    using fold_set [of v 1 "unat n" "unat n" "ucast c" m] b n32 by (simp add: rep_stosb_def set_1)
  have words: "rep_stosl m v (bytes4 c) (unat (n div 4)) = mem_set m v (ucast c) n" if "n mod 4 = 0"
  proof -
    have "unat n mod 4 = 0" using that by (simp add: unat_mod word_unat_eq_iff)
    then have "4 * unat (n div 4) = unat n" by (simp add: unat_div dvd_eq_mod_eq_0)
    then show ?thesis using fold_set [of v 4 "unat (n div 4)" "unat (n div 4)" "ucast c" m] b n32
      by (simp add: rep_stosl_def set_4)
  qed
  show ?thesis
    using bytes words by (simp add: memset_def mem_set_def)
qed

section \<open>Bounded copies of strings\<close>

text \<open>\<open>str_at m p bs\<close>: the string \<open>bs\<close> with its terminator is at \<open>p\<close>.\<close>

definition str_at :: "mem \<Rightarrow> u32 \<Rightarrow> u8 list \<Rightarrow> bool" where
  "str_at m p bs \<longleftrightarrow> 0 \<notin> set bs \<and> (\<forall>i < length bs. m (p + of_nat i) = bs ! i) \<and> m (p + of_nat (length bs)) = 0"

lemma str_at_Cons: "str_at m p (b # bs) \<longleftrightarrow> b \<noteq> 0 \<and> m p = b \<and> str_at m (p + 1) bs"
  by (auto simp: str_at_def nth_Cons' All_less_Suc2 add.assoc)

lemma str_at_Nil: "str_at m p [] \<longleftrightarrow> m p = 0"
  by (simp add: str_at_def)

lemma strlen_from_str: "str_at m p bs \<Longrightarrow> strlen_from m p n = Some (n + length bs)"
proof (induction bs arbitrary: p n)
  case Nil
  then show ?case by (simp add: strlen_from.simps str_at_Nil)
next
  case (Cons b bs)
  then show ?case by (subst strlen_from.simps) (simp add: str_at_Cons)
qed

lemma strlen_str: "str_at m p bs \<Longrightarrow> strlen m p = Some (length bs)"
  by (simp add: strlen_def strlen_from_str)

lemma str_at_upd:
  assumes "str_at m p bs" "\<And>i. i \<le> length bs \<Longrightarrow> p + of_nat i \<noteq> a"
  shows "str_at (m(a := v)) p bs"
  using assms by (auto simp: str_at_def)

text \<open>
  \<^verbatim>\<open>strlcpy\<close> writes at most \<open>size\<close> bytes and always a terminator: the longest prefix of the
  source that fits, when source and destination do not overlap.
\<close>

lemma strlcpy_loop_str:
  assumes "str_at m src bs" "k = min n (length bs)" "length bs < 2 ^ 32"
    and "\<And>i j. i < n \<Longrightarrow> j \<le> length bs \<Longrightarrow> dst + of_nat i \<noteq> src + of_nat j"
  shows "strlcpy_loop m dst src n =
    ((\<lambda>x. if x - dst < of_nat k then bs ! unat (x - dst) else m x), dst + of_nat k)"
  using assms
proof (induction m dst src n arbitrary: bs k rule: strlcpy_loop.induct)
  case (2 m dst src n)
  show ?case
  proof (cases bs)
    case Nil
    then show ?thesis using 2 by (simp add: str_at_Nil)
  next
    case (Cons b bs')
    have b: "b \<noteq> 0" "m src = b" "str_at m (src + 1) bs'" using 2(2) Cons by (simp_all add: str_at_Cons)
    let ?m = "m(dst := m src)"
    have ov: "dst + of_nat i \<noteq> src + of_nat j" if "i < Suc n" "j \<le> Suc (length bs')" for i j
      using 2(5) [of i j] that Cons by simp
    have s: "str_at ?m (src + 1) bs'"
    proof (rule str_at_upd [OF b(3)])
      fix i assume "i \<le> length bs'"
      then show "src + 1 + of_nat i \<noteq> dst" using ov [of 0 "Suc i"] by (simp add: add.assoc)
    qed
    have "strlcpy_loop ?m (dst + 1) (src + 1) n =
        ((\<lambda>x. if x - (dst + 1) < of_nat (min n (length bs')) then bs' ! unat (x - (dst + 1)) else ?m x),
          dst + 1 + of_nat (min n (length bs')))"
    proof (rule 2(1))
      show "m src \<noteq> 0" using b by simp
      show "str_at (m(dst := m src)) (src + 1) bs'" using s b by simp
      show "dst + 1 + of_nat i \<noteq> src + 1 + of_nat j" if "i < n" "j \<le> length bs'" for i j
        using ov [of "Suc i" "Suc j"] that by (simp add: add.assoc)
    qed (use 2(4) Cons b in simp_all)
    moreover have "(if x - (dst + 1) < of_nat (min n (length bs')) then bs' ! unat (x - (dst + 1)) else ?m x) =
        (if x - dst < of_nat (Suc (min n (length bs'))) then bs ! unat (x - dst) else m x)" for x
    proof -
      let ?k = "min n (length bs')"
      have k: "?k + 1 < 2 ^ 32" using 2(4) Cons by (simp add: min_def)
      show ?thesis
      proof (cases "x = dst")
        case True
        have "\<not> (- 1 :: u32) < of_nat ?k" using k
          by (simp add: word_less_nat_alt unat_of_nat_u32 unsigned_minus_1_eq_mask mask_eq_exp_minus_1 min_def split: if_splits)
        moreover have "(0 :: u32) < of_nat (Suc ?k)" using k by (simp only: word_less_nat_alt unat_of_nat_u32) simp
        ultimately show ?thesis using True Cons b by simp
      next
        case False
        then have u: "unat (x - dst) = Suc (unat (x - (dst + 1)))"
        proof -
          have "x - dst \<noteq> 0" using False by simp
          then have "unat (x - dst - 1) = unat (x - dst) - 1" by (rule unat_minus_one)
          moreover have "unat (x - dst) \<noteq> 0" using \<open>x - dst \<noteq> 0\<close> unat_eq_zero by blast
          ultimately show ?thesis by (simp add: diff_diff_eq)
        qed
        have "x - (dst + 1) < of_nat ?k \<longleftrightarrow> unat (x - (dst + 1)) < ?k"
          using k by (simp add: word_less_nat_alt unat_of_nat_u32)
        moreover have "x - dst < of_nat (Suc ?k) \<longleftrightarrow> unat (x - dst) < Suc ?k"
          using k by (simp only: word_less_nat_alt unat_of_nat_u32 Suc_eq_plus1)
        ultimately show ?thesis using u False Cons by simp
      qed
    qed
    ultimately show ?thesis using b 2(3) Cons by (simp add: min_Suc_Suc add.assoc)
  qed
qed simp

lemma strlcpy_str:
  assumes s: "str_at m src bs" and n: "length bs < 2 ^ 32" "0 < sz" "sz < 2 ^ 32"
    and ov: "\<And>i j. i < sz \<Longrightarrow> j \<le> length bs \<Longrightarrow> dst + of_nat i \<noteq> src + of_nat j"
    and res: "strlcpy m dst src sz = (m', r)"
  defines "k \<equiv> min (sz - 1) (length bs)"
  shows "r = of_nat k" "str_at m' dst (take k bs)" "\<And>x. \<not> x - dst < of_nat sz \<Longrightarrow> m' x = m x"
proof -
  have k: "k < 2 ^ 32" "k < sz" "k \<le> length bs" using n by (auto simp: k_def)
  let ?c = "\<lambda>x. if x - dst < of_nat k then bs ! unat (x - dst) else m x"
  have "strlcpy_loop m dst src (sz - 1) = (?c, dst + of_nat k)"
    by (rule strlcpy_loop_str [OF s _ n(1)]) (use ov in \<open>auto simp: k_def\<close>)
  then have e: "m' = ?c(dst + of_nat k := 0)" "r = of_nat k" using res n(2) by (auto simp: strlcpy_def)
  show "r = of_nat k" by (rule e(2))
  have "m' (dst + of_nat i) = bs ! i" if "i < k" for i
  proof -
    have "(of_nat i :: u32) < of_nat k" "(of_nat i :: u32) \<noteq> of_nat k" "unat (of_nat i :: u32) = i"
      using that k by (simp_all add: of_nat_u32_less of_nat_u32_inject unat_of_nat_u32)
    then show ?thesis by (simp add: e(1))
  qed
  moreover have "0 \<notin> set (take k bs)" using s set_take_subset [of k bs] by (auto simp: str_at_def)
  ultimately show "str_at m' dst (take k bs)" using k e(1) by (simp add: str_at_def min_def)
  show "m' x = m x" if "\<not> x - dst < of_nat sz" for x
  proof -
    have "(of_nat k :: u32) < of_nat sz" using k n(3) by (simp add: of_nat_u32_less)
    then have "\<not> x - dst < of_nat k" "x \<noteq> dst + of_nat k" using that by (auto dest: order.strict_trans)
    then show ?thesis by (simp add: e(1))
  qed
qed

end
