(* ===== verification/Printfmt.thy ===== *)
theory Printfmt
  imports Cstring
begin

text \<open>
  Formatted output (\<^verbatim>\<open>lib/printfmt.c\<close>). The output of \<^verbatim>\<open>vprintfmt\<close> is the list of the
  values passed to \<^verbatim>\<open>putch\<close>. The variable arguments are the 32-bit words of the argument
  area, so that a \<^verbatim>\<open>long long\<close> takes two of them; strings are read from a memory. A call that
  reads more arguments than there are, or a string that never ends, has no result.
\<close>

section \<open>Error messages\<close>

definition MAXERROR :: int where "MAXERROR = 19"

definition codes :: "string \<Rightarrow> int list" where
  "codes = map of_char"

definition error_string :: "int \<Rightarrow> string option" where
  "error_string = map_of
    [(1, ''unspecified error''), (2, ''bad environment''), (3, ''invalid parameter''),
     (4, ''out of memory''), (5, ''out of environments''), (6, ''segmentation fault''),
     (7, ''env is not recving''), (8, ''unexpected end of file''), (9, ''no free space on disk''),
     (10, ''too many files are open''), (11, ''file or block not found''), (12, ''invalid path''),
     (13, ''file already exists''), (14, ''file is not a valid executable''),
     (15, ''operation not supported'')]"

section \<open>Numbers and strings\<close>

definition digit :: "nat \<Rightarrow> int" where
  "digit k = (if k < 10 then 48 + int k else 87 + int k)"

text \<open>Only the bases 8, 10 and 16 occur.\<close>

function printnum :: "nat \<Rightarrow> nat \<Rightarrow> int \<Rightarrow> int \<Rightarrow> int list" where
  "printnum num base width padc =
     (if num \<ge> base \<and> base > 1 then printnum (num div base) base (width - 1) padc
      else replicate (nat (width - 1)) padc) @ [digit (num mod base)]"
  by pat_completeness auto
termination
  by (relation "measure (\<lambda>(num, _). num)") auto

declare printnum.simps [simp del]

definition getuint :: "u32 list \<Rightarrow> nat \<Rightarrow> (nat \<times> u32 list) option" where
  "getuint ap lflag = (case ap of
       lo # hi # ap' \<Rightarrow> if lflag \<ge> 2 then Some (unat lo + 2 ^ 32 * unat hi, ap') else Some (unat lo, hi # ap')
     | [a] \<Rightarrow> if lflag \<ge> 2 then None else Some (unat a, [])
     | [] \<Rightarrow> None)"

definition getint :: "u32 list \<Rightarrow> nat \<Rightarrow> (int \<times> u32 list) option" where
  "getint ap lflag = (case ap of
       lo # hi # ap' \<Rightarrow> if lflag \<ge> 2 then Some (uint lo + 2 ^ 32 * sint hi, ap') else Some (sint lo, hi # ap')
     | [a] \<Rightarrow> if lflag \<ge> 2 then None else Some (sint a, [])
     | [] \<Rightarrow> None)"

text \<open>The characters of \<^verbatim>\<open>%d\<close>.\<close>

definition print_signed :: "int \<Rightarrow> int \<Rightarrow> int \<Rightarrow> int list" where
  "print_signed num width padc =
     (if num < 0 then 45 # printnum (nat (- num)) 10 width padc else printnum (nat num) 10 width padc)"

text \<open>
  The copying loop of \<^verbatim>\<open>%s\<close>: the characters and what is left of the width. After \<open>2\<^sup>3\<^sup>2\<close> bytes
  without a terminator the pointer is back where it started.
\<close>

fun str_loop :: "mem \<Rightarrow> nat \<Rightarrow> u32 \<Rightarrow> int \<Rightarrow> int \<Rightarrow> bool \<Rightarrow> (int list \<times> int) option" where
  "str_loop rd 0 p precision width altflag = None"
| "str_loop rd (Suc n) p precision width altflag =
     (let ch = sint (rd p) in
      if ch = 0 \<or> precision = 0 then Some ([], width)
      else case str_loop rd n (p + 1) (if precision < 0 then precision else precision - 1) (width - 1) altflag of
          None \<Rightarrow> None
        | Some (out, w) \<Rightarrow> Some ((if altflag \<and> (ch < 32 \<or> ch > 126) then 63 else ch) # out, w))"

text \<open>The string printed for a null pointer, as a memory of its own at address 1.\<close>

definition null_mem :: mem where
  "null_mem a = (if a = 1 then 40 else if a = 2 then 110 else if a = 3 then 117 else if a = 4 then 108
     else if a = 5 then 108 else if a = 6 then 41 else 0)"

definition print_string :: "mem \<Rightarrow> u32 \<Rightarrow> int \<Rightarrow> int \<Rightarrow> int \<Rightarrow> bool \<Rightarrow> int list option" where
  "print_string rd p precision width padc altflag =
     (let (rd, p) = (if p = 0 then (null_mem, 1) else (rd, p));
          left = width > 0 \<and> padc \<noteq> 45;
          room = width - int (strnlen rd p (unat (word_of_int precision :: u32)));
          pad = (if left then replicate (nat room) padc else []);
          width = (if left then min room 0 else width)
      in case str_loop rd (2 ^ 32) p precision width altflag of
           None \<Rightarrow> None
         | Some (out, w) \<Rightarrow> Some (pad @ out @ replicate (nat w) 32))"

definition print_error :: "int \<Rightarrow> int list option" where
  "print_error err =
     (let err = (if err < 0 then sint (word_of_int (- err) :: u32) else err) in
      if err < 0 then None
      else case (if err \<ge> MAXERROR then None else error_string err) of
          None \<Rightarrow> Some (codes ''error '' @ print_signed err (- 1) 32)
        | Some p \<Rightarrow> Some (codes p))"

section \<open>Conversions\<close>

fun fmt_digits :: "int \<Rightarrow> u8 list \<Rightarrow> int \<times> u8 list" where
  "fmt_digits n [] = (n, [])"
| "fmt_digits n (c # s) = (if 48 \<le> c \<and> c \<le> 57 then fmt_digits (n * 10 + uint c - 48) s else (n, c # s))"

lemma fmt_digits_length: "(n', s') = fmt_digits n s \<Longrightarrow> length s' \<le> length s"
  by (induction n s rule: fmt_digits.induct) (auto split: if_splits)

text \<open>
  What follows a \<^verbatim>\<open>%\<close>: the characters printed, the rest of the format and of the arguments,
  or that the sequence is not a conversion and is printed literally.
\<close>

datatype conversion = Done "int list" "u8 list" "u32 list" | Literally | Undefined

function (sequential) escape ::
    "mem \<Rightarrow> u8 list \<Rightarrow> u32 list \<Rightarrow> int \<Rightarrow> int \<Rightarrow> int \<Rightarrow> nat \<Rightarrow> bool \<Rightarrow> conversion" where
  "escape rd [] ap padc width precision lflag altflag = Literally"
| "escape rd (ch # fmt) ap padc width precision lflag altflag =
     (if ch = 45 then escape rd fmt ap 45 width precision lflag altflag
      else if ch = 48 then escape rd fmt ap 48 width precision lflag altflag
      else if 49 \<le> ch \<and> ch \<le> 57 then
        let (n, fmt) = fmt_digits (uint ch - 48) fmt in
        if width < 0 then escape rd fmt ap padc n (- 1) lflag altflag
        else escape rd fmt ap padc width n lflag altflag
      else if ch = 42 then (case ap of
          [] \<Rightarrow> Undefined
        | a # ap \<Rightarrow> if width < 0 then escape rd fmt ap padc (sint a) (- 1) lflag altflag
            else escape rd fmt ap padc width (sint a) lflag altflag)
      else if ch = 46 then escape rd fmt ap padc (if width < 0 then 0 else width) precision lflag altflag
      else if ch = 35 then escape rd fmt ap padc width precision lflag True
      else if ch = 108 then escape rd fmt ap padc width precision (lflag + 1) altflag
      else if ch = 99 then (case ap of [] \<Rightarrow> Undefined | a # ap \<Rightarrow> Done [sint a] fmt ap)
      else if ch = 101 then (case ap of
          [] \<Rightarrow> Undefined
        | a # ap \<Rightarrow> (case print_error (sint a) of None \<Rightarrow> Undefined | Some out \<Rightarrow> Done out fmt ap))
      else if ch = 115 then (case ap of
          [] \<Rightarrow> Undefined
        | a # ap \<Rightarrow> (case print_string rd a precision width padc altflag of
              None \<Rightarrow> Undefined | Some out \<Rightarrow> Done out fmt ap))
      else if ch = 100 then (case getint ap lflag of
          None \<Rightarrow> Undefined | Some (num, ap) \<Rightarrow> Done (print_signed num width padc) fmt ap)
      else if ch = 117 then (case getuint ap lflag of
          None \<Rightarrow> Undefined | Some (num, ap) \<Rightarrow> Done (printnum num 10 width padc) fmt ap)
      else if ch = 111 then (case getuint ap lflag of
          None \<Rightarrow> Undefined | Some (num, ap) \<Rightarrow> Done (printnum num 8 width padc) fmt ap)
      else if ch = 112 then (case ap of
          [] \<Rightarrow> Undefined
        | a # ap \<Rightarrow> Done (48 # 120 # printnum (unat a) 16 width padc) fmt ap)
      else if ch = 120 then (case getuint ap lflag of
          None \<Rightarrow> Undefined | Some (num, ap) \<Rightarrow> Done (printnum num 16 width padc) fmt ap)
      else if ch = 37 then Done [37] fmt ap
      else Literally)"
  by pat_completeness auto
termination
  by (relation "measure (\<lambda>(_, fmt, _). length fmt)") (auto dest: fmt_digits_length)

declare escape.simps [simp del]

lemma escape_length:
  "escape rd fmt ap padc width precision lflag altflag = Done out fmt' ap' \<Longrightarrow> length fmt' \<le> length fmt"
proof (induction rd fmt ap padc width precision lflag altflag rule: escape.induct)
  case (2 rd ch fmt ap padc width precision lflag altflag)
  obtain n s where d: "fmt_digits (uint ch - 48) fmt = (n, s)" by (cases "fmt_digits (uint ch - 48) fmt")
  then have "length s \<le> length fmt" using fmt_digits_length [OF d [symmetric]] by simp
  then have s: "length fmt' \<le> length s \<Longrightarrow> length fmt' \<le> Suc (length fmt)" by simp
  from 2 show ?case
    unfolding escape.simps(2) d
    by (auto simp: Let_def intro: s le_SucI split: if_splits list.splits option.splits)
qed (simp add: escape.simps)

text \<open>The whole format; what cannot be converted is printed from the \<^verbatim>\<open>%\<close> on.\<close>

function vprintfmt :: "mem \<Rightarrow> u8 list \<Rightarrow> u32 list \<Rightarrow> int list option" where
  "vprintfmt rd [] ap = Some []"
| "vprintfmt rd (ch # fmt) ap =
     (if ch \<noteq> 37 then map_option (Cons (uint ch)) (vprintfmt rd fmt ap)
      else case escape rd fmt ap 32 (- 1) (- 1) 0 False of
          Done out fmt' ap' \<Rightarrow> map_option ((@) out) (vprintfmt rd fmt' ap')
        | Literally \<Rightarrow> map_option (Cons 37) (vprintfmt rd fmt ap)
        | Undefined \<Rightarrow> None)"
  by pat_completeness auto
termination
  by (relation "measure (\<lambda>(_, fmt, _). length fmt)") (auto dest: escape_length)

section \<open>Printing into a buffer\<close>

record sprintbuf =
  sp_buf :: u32
  sp_ebuf :: u32
  sp_cnt :: int

definition sprintputch :: "int \<Rightarrow> sprintbuf \<times> mem \<Rightarrow> sprintbuf \<times> mem" where
  "sprintputch ch = (\<lambda>(b, m).
     let b = b\<lparr>sp_cnt := sp_cnt b + 1\<rparr> in
     if sp_buf b < sp_ebuf b then (b\<lparr>sp_buf := sp_buf b + 1\<rparr>, m(sp_buf b := word_of_int ch)) else (b, m))"

text \<open>
  The strings among the arguments are read from the memory before the call: the buffer may
  not overlap them.
\<close>

definition vsnprintf :: "mem \<Rightarrow> u32 \<Rightarrow> int \<Rightarrow> u8 list \<Rightarrow> u32 list \<Rightarrow> (int \<times> mem) option" where
  "vsnprintf m buf n fmt ap =
     (if buf = 0 \<or> n < 1 then Some (- E_INVAL, m)
      else case vprintfmt m fmt ap of
          None \<Rightarrow> None
        | Some out \<Rightarrow>
            let (b, m) = fold sprintputch out
              (\<lparr>sp_buf = buf, sp_ebuf = buf + word_of_int n - 1, sp_cnt = 0\<rparr>, m)
            in Some (sp_cnt b, m(sp_buf b := 0)))"

section \<open>Numbers are printed in full\<close>

text \<open>The digits of a number, most significant first.\<close>

function digits_of :: "nat \<Rightarrow> nat \<Rightarrow> nat list" where
  "digits_of base num = (if num \<ge> base \<and> base > 1 then digits_of base (num div base) else []) @ [num mod base]"
  by pat_completeness auto
termination
  by (relation "measure snd") auto

declare digits_of.simps [simp del]

lemma digits_of_small: "num < base \<Longrightarrow> digits_of base num = [num]"
  by (subst digits_of.simps) simp

lemma digits_of_big: "1 < base \<Longrightarrow> base \<le> num \<Longrightarrow> digits_of base num = digits_of base (num div base) @ [num mod base]"
  by (subst digits_of.simps) simp

lemma printnum_eq:
  assumes "1 < base"
  shows "printnum num base width padc =
    replicate (nat (width - int (length (digits_of base num)))) padc @ map digit (digits_of base num)"
  using assms
proof (induction num base width padc rule: printnum.induct)
  case (1 num base width padc)
  show ?case
  proof (cases "num \<ge> base")
    case True
    then show ?thesis using 1 by (simp add: printnum.simps [of num] digits_of_big diff_diff_eq)
  next
    case False
    then show ?thesis by (simp add: printnum.simps [of num] digits_of_small)
  qed
qed

lemma digits_less: "1 < base \<Longrightarrow> d \<in> set (digits_of base num) \<Longrightarrow> d < base"
proof (induction base num rule: digits_of.induct)
  case (1 base num)
  show ?case
  proof (cases "num \<ge> base")
    case True
    then have "d \<in> set (digits_of base (num div base)) \<or> d = num mod base"
      using 1(3) digits_of_big [OF 1(2) True] by auto
    then show ?thesis using 1(1,2) True by auto
  next
    case False
    then show ?thesis using 1(3) digits_of_small [of num base] by simp
  qed
qed

definition value_of :: "nat \<Rightarrow> nat list \<Rightarrow> nat" where
  "value_of base ds = foldl (\<lambda>v d. v * base + d) 0 ds"

lemma value_digits: "1 < base \<Longrightarrow> value_of base (digits_of base num) = num"
proof (induction base num rule: digits_of.induct)
  case (1 base num)
  show ?case
  proof (cases "num \<ge> base")
    case True
    then show ?thesis using 1 digits_of_big [OF 1(2) True] by (simp add: value_of_def)
  next
    case False
    then show ?thesis using digits_of_small [of num base] by (simp add: value_of_def)
  qed
qed

lemma digits_of_nonempty [simp]: "digits_of base num \<noteq> []"
  by (subst digits_of.simps) simp

lemma length_digits: "1 < base \<Longrightarrow> num < base ^ Suc k \<Longrightarrow> length (digits_of base num) \<le> Suc k"
proof (induction base num arbitrary: k rule: digits_of.induct)
  case (1 base num)
  show ?case
  proof (cases "num \<ge> base")
    case True
    then obtain j where j: "k = Suc j" using 1 by (cases k) auto
    have "num div base < base ^ Suc j" using 1(3) by (simp add: j less_mult_imp_div_less mult.commute)
    then show ?thesis using 1(1) [of j] 1(2) True j digits_of_big [OF 1(2) True] by simp
  qed (simp add: digits_of_small)
qed

section \<open>Printed numbers are read back\<close>

lemma strtol_digit_printed: "d < 16 \<Longrightarrow> strtol_digit (word_of_int (digit d)) = Some (int d)"
  by (simp add: numeral_eq_Suc less_Suc_eq) (elim disjE; simp add: strtol_digit_def digit_def)

lemma strtol_digits_printed:
  assumes "1 < base" "base \<le> 16"
  shows "\<forall>d \<in> set ds. d < base \<Longrightarrow>
    strtol_digits (int base) val (map (\<lambda>d. word_of_int (digit d)) ds) =
      (foldl (\<lambda>v d. v * of_nat base + of_nat d) val ds, [])"
proof (induction ds arbitrary: val)
  case (Cons d ds)
  then have "d < 16" "d < base" using assms(2) by auto
  then show ?case using Cons by (simp add: strtol_digit_printed)
qed simp

lemma foldl_of_nat:
  "foldl (\<lambda>v d. v * of_nat base + of_nat d) (of_nat v0) ds = (of_nat (foldl (\<lambda>v d. v * base + d) v0 ds) :: u32)"
proof (induction ds arbitrary: v0)
  case (Cons d ds)
  have "of_nat v0 * of_nat base + of_nat d = (of_nat (v0 * base + d) :: u32)" by simp
  then show ?case using Cons by (simp only: foldl.simps)
qed simp

lemma strtol_printnum:
  assumes "1 < base" "base \<le> 16"
  shows "strtol_digits (int base) 0 (map word_of_int (printnum num base (- 1) padc)) = (of_nat num, [])"
proof -
  have "\<forall>d \<in> set (digits_of base num). d < base" using digits_less assms(1) by blast
  note strtol_digits_printed [OF assms this, of 0]
  moreover have "foldl (\<lambda>v d. v * of_nat base + of_nat d) 0 (digits_of base num) = (of_nat num :: u32)"
    using foldl_of_nat [of base 0] value_digits [OF assms(1), of num] by (simp add: value_of_def)
  ultimately show ?thesis by (simp add: printnum_eq [OF assms(1)] comp_def)
qed

lemma printed_head:
  assumes "1 < base" "base \<le> 16"
  shows "\<exists>d < 16. hd (map word_of_int (printnum num base (- 1) padc)) = (word_of_int (digit d) :: u8)"
proof -
  have "hd (digits_of base num) < 16" using digits_less [OF assms(1), of "hd (digits_of base num)" num] assms(2) by simp
  then show ?thesis by (intro exI [of _ "hd (digits_of base num)"]) (simp add: printnum_eq [OF assms(1)] hd_map)
qed

lemma digit_not_special:
  "d < 16 \<Longrightarrow> (word_of_int (digit d) :: u8) \<notin> {32, 9, 43, 45}"
  by (simp add: numeral_eq_Suc less_Suc_eq) (elim disjE; simp add: digit_def)

lemma strtol_unsigned:
  assumes "1 < base" "base \<le> 16" "base \<noteq> 16"
  shows "strtol (map word_of_int (printnum num base (- 1) padc)) (int base) = (sint (of_nat num :: u32), [])"
proof -
  let ?s = "map word_of_int (printnum num base (- 1) padc) :: u8 list"
  have ne: "?s \<noteq> []" by (simp add: printnum_eq [OF assms(1)])
  then obtain c cs where s: "?s = c # cs" by (cases ?s) auto
  then have "c \<notin> {32, 9, 43, 45}" using printed_head [OF assms(1,2), of num padc] digit_not_special by auto
  then have "dropWhile (\<lambda>c. c = 32 \<or> c = 9) ?s = ?s" "hd0 ?s \<noteq> 43" "hd0 ?s \<noteq> 45" using s by (simp_all add: hd0_def)
  then show ?thesis using strtol_printnum [OF assms(1,2), of num padc] assms by (simp add: strtol_def Let_def)
qed

lemma strtol_signed: "strtol (map word_of_int (print_signed (sint w) (- 1) 32)) 10 = (sint (w :: u32), [])"
proof (cases "sint w < 0")
  case True
  have "strtol_digits 10 0 (map word_of_int (printnum (nat (- sint w)) 10 (- 1) 32)) = (of_nat (nat (- sint w)), [])"
    using strtol_printnum [of 10 "nat (- sint w)" 32] by simp
  moreover have "- (of_nat (nat (- sint w)) :: u32) = w" using True by simp
  ultimately show ?thesis using True by (simp add: strtol_def print_signed_def hd0_def)
next
  case False
  then have "(of_nat (nat (sint w)) :: u32) = w" by simp
  then show ?thesis using False strtol_unsigned [of 10 "nat (sint w)" 32] by (simp add: print_signed_def)
qed

section \<open>Printing stays in its buffer\<close>

lemma sprintputch_fold:
  assumes le: "unat buf \<le> unat ebuf"
  shows "fold sprintputch out (\<lparr>sp_buf = buf, sp_ebuf = ebuf, sp_cnt = 0\<rparr>, m) =
    (let k = min (length out) (unat ebuf - unat buf) in
     (\<lparr>sp_buf = buf + of_nat k, sp_ebuf = ebuf, sp_cnt = int (length out)\<rparr>,
      \<lambda>x. if unat buf \<le> unat x \<and> unat x < unat buf + k then word_of_int (out ! (unat x - unat buf)) else m x))"
proof (induction out rule: rev_induct)
  case (snoc c out)
  define room where "room = unat ebuf - unat buf"
  define k where "k = min (length out) room"
  have e32: "unat ebuf < 2 ^ 32" by (rule unat_u32_less)
  have bk: "unat (buf + of_nat k) = unat buf + k"
    using le e32 by (intro unat_add_of_nat) (simp add: k_def room_def)
  have lt: "buf + of_nat k < ebuf \<longleftrightarrow> length out < room"
    using le unfolding word_less_nat_alt bk by (auto simp: k_def room_def)
  have nx: "x = buf + of_nat k \<longleftrightarrow> unat x = unat buf + k" for x by (simp add: word_unat_eq_iff bk)
  note IH = snoc [folded room_def]
  show ?case
  proof (cases "length out < room")
    case True
    then have "k = length out" "min (length (out @ [c])) room = Suc (length out)" by (simp_all add: k_def)
    moreover have "((\<lambda>x. if unat buf \<le> unat x \<and> unat x < unat buf + k
          then word_of_int (out ! (unat x - unat buf)) else m x)(buf + of_nat k := word_of_int c)) =
        (\<lambda>x. if unat buf \<le> unat x \<and> unat x < unat buf + Suc k
          then word_of_int ((out @ [c]) ! (unat x - unat buf)) else m x)" if "k = length out"
      unfolding fun_upd_apply fun_upd_def nx by (rule ext) (auto simp: nth_append that)
    ultimately show ?thesis using IH lt True
      by (simp add: k_def [symmetric] room_def [symmetric] sprintputch_def Let_def add.commute add.left_commute)
  next
    case False
    then have k: "k = room" "min (length (out @ [c])) room = room" by (simp_all add: k_def)
    have "(out @ [c]) ! (unat x - unat buf) = out ! (unat x - unat buf)"
      if "unat buf \<le> unat x" "unat x < unat buf + room" for x :: u32
    proof -
      have "unat x - unat buf < length out" using that False by linarith
      then show ?thesis by (simp add: nth_append)
    qed
    then have "(\<lambda>x. if unat buf \<le> unat x \<and> unat x < unat buf + room
          then word_of_int ((out @ [c]) ! (unat x - unat buf)) else m x) =
        (\<lambda>x. if unat buf \<le> unat x \<and> unat x < unat buf + room then word_of_int (out ! (unat x - unat buf)) else m x)"
      by (intro ext) auto
    then show ?thesis using IH lt False k by (simp add: room_def [symmetric] sprintputch_def Let_def)
  qed
qed (auto simp: fun_eq_iff)

text \<open>
  \<^verbatim>\<open>vsnprintf\<close> changes only the \<open>n\<close> bytes it was given, terminates them, and returns the
  length of the whole output.
\<close>

lemma vsnprintf_bounds:
  assumes b: "buf \<noteq> 0" "1 \<le> n" "unat buf + nat n \<le> 2 ^ 32" and out: "vprintfmt m fmt ap = Some out"
  defines "k \<equiv> min (length out) (nat n - 1)"
  shows "\<exists>m'. vsnprintf m buf n fmt ap = Some (int (length out), m') \<and>
    (\<forall>i < k. m' (buf + of_nat i) = word_of_int (out ! i)) \<and> m' (buf + of_nat k) = 0 \<and>
    (\<forall>x. \<not> x - buf < of_nat (nat n) \<longrightarrow> m' x = m x)"
proof -
  have n32: "nat n < 2 ^ 32"
  proof -
    have "unat buf \<noteq> 0" using b(1) unat_eq_zero by blast
    then show ?thesis using b(3) by simp
  qed
  define ebuf where "ebuf = buf + word_of_int n - 1"
  have e: "ebuf = buf + of_nat (nat n - 1)" using b(2) by (simp add: ebuf_def of_nat_diff)
  have ue: "unat ebuf = unat buf + (nat n - 1)" unfolding e using b(2,3) by (intro unat_add_of_nat) auto
  then have room: "unat ebuf - unat buf = nat n - 1" by simp
  have kb: "unat (buf + of_nat j) = unat buf + j" if "j < nat n" for j
    using b(3) that by (intro unat_add_of_nat) simp
  have k: "k < nat n" using b(2) by (simp add: k_def)
  let ?m = "(\<lambda>x. if unat buf \<le> unat x \<and> unat x < unat buf + k then word_of_int (out ! (unat x - unat buf)) else m x)
    (buf + of_nat k := 0)"
  have "vsnprintf m buf n fmt ap = Some (int (length out), ?m)"
    using b out sprintputch_fold [of buf ebuf out m] ue
    by (simp add: vsnprintf_def ebuf_def [symmetric] room k_def Let_def)
  moreover have "?m (buf + of_nat i) = word_of_int (out ! i)" if "i < k" for i
    using kb [of i] kb [of k] that k by (auto simp: word_unat_eq_iff)
  moreover have "?m x = m x" if "\<not> x - buf < of_nat (nat n)" for x
  proof -
    have "\<not> (unat buf \<le> unat x \<and> unat x < unat buf + nat n)" using that region_iff [OF b(3) n32] by blast
    then show ?thesis using kb [OF k] k by (auto simp: word_unat_eq_iff)
  qed
  ultimately show ?thesis by auto
qed

end
