(* ===== verification/Monitor.thy ===== *)
theory Monitor
  imports SysInv Printfmt
begin

text \<open>
  The kernel monitor (\<^verbatim>\<open>kern/monitor.c\<close>). The lines the operator types are an argument; when
  they run out the monitor waits for input, which is the control outcome \<open>MonitorLoop\<close>.
  What the commands print is left out, the state they change is not: the page table entry
  set by \<^verbatim>\<open>permissions\<close> and the trap flag set by \<^verbatim>\<open>continue\<close> and \<^verbatim>\<open>si\<close>.
\<close>

section \<open>Where a trap frame is\<close>

text \<open>
  A \<^verbatim>\<open>struct Trapframe *\<close> is \<^verbatim>\<open>NULL\<close>, points to the frame saved in an environment, or to a
  frame on the kernel stack. The kernel never returns through a frame on its stack, so that
  changes to one have no effect.
\<close>

datatype frame = FNull | FEnv nat | FStack trapframe

definition frame_tf :: "frame \<Rightarrow> kstate \<Rightarrow> (trapframe, kstate) kres" where
  "frame_tf f s = (case f of
       FNull \<Rightarrow> Panic ''page fault in kernel mode''
     | FEnv c \<Rightarrow> Ret (env_tf (envs s c)) s
     | FStack tf \<Rightarrow> Ret tf s)"

definition upd_frame :: "frame \<Rightarrow> (trapframe \<Rightarrow> trapframe) \<Rightarrow> kstate \<Rightarrow> (unit, kstate) kres" where
  "upd_frame f g s = (case f of
       FNull \<Rightarrow> Panic ''page fault in kernel mode''
     | FEnv c \<Rightarrow> Ret () (upd_env c (\<lambda>x. x\<lparr>env_tf := g (env_tf x)\<rparr>) s)
     | FStack tf \<Rightarrow> Ret () s)"

section \<open>Commands\<close>

definition FL_TF :: u32 where "FL_TF = 0x00000100"

text \<open>The common end of \<^verbatim>\<open>continue_breakpoint\<close> and \<^verbatim>\<open>single_step\<close>.\<close>

definition resume :: "string \<Rightarrow> kstate \<Rightarrow> (int, kstate) kres" where
  "resume msg s = (case curenv s of
       Some c \<Rightarrow> if env_status (envs s c) = ENV_RUNNING then bindK (env_run c s) (\<lambda>_ s. Panic msg) else Ret (- 1) s
     | None \<Rightarrow> Ret (- 1) s)"

definition continue_breakpoint :: "frame \<Rightarrow> kstate \<Rightarrow> (int, kstate) kres" where
  "continue_breakpoint f s =
     bindK (upd_frame f (\<lambda>tf. tf\<lparr>tf_eflags := tf_eflags tf AND NOT FL_TF\<rparr>) s) (\<lambda>_ s.
       resume ''continue_breakpoint in monitor.c'' s)"

definition single_step :: "frame \<Rightarrow> kstate \<Rightarrow> (int, kstate) kres" where
  "single_step f s =
     bindK (upd_frame f (\<lambda>tf. tf\<lparr>tf_eflags := tf_eflags tf OR FL_TF\<rparr>) s) (\<lambda>_ s.
       resume ''single_step in monitor.c'' s)"

text \<open>Two arguments after the name, both starting with \<^verbatim>\<open>0x\<close>; the numbers they denote.\<close>

definition hex_arg :: "u8 list \<Rightarrow> bool" where
  "hex_arg s \<longleftrightarrow> hd0 s = 48 \<and> hd0 (tl s) = 120"

definition two_args :: "u8 list list \<Rightarrow> (u32 \<times> u32) option" where
  "two_args argv = (case argv of
       [_, a1, a2] \<Rightarrow> if hex_arg a1 \<and> hex_arg a2 then Some (atohex a1, atohex a2) else None
     | _ \<Rightarrow> None)"

definition set_pte_permissions :: "u8 list list \<Rightarrow> kstate \<Rightarrow> (int, kstate) kres" where
  "set_pte_permissions argv s = (case two_args argv of
       None \<Rightarrow> Ret (- 1) s
     | Some (va, perm) \<Rightarrow>
         bindK (pgdir_walk (kern_pgdir s) va False s) (\<lambda>r s. case r of
             None \<Rightarrow> Ret 0 s
           | Some p \<Rightarrow> Ret 0 (kst32 p (PTE_ADDR (kld32 s p) OR PGOFF perm) s)))"

text \<open>The loop over the pages from \<open>lower\<close> up to \<open>upper\<close>; the caller rounds both.\<close>

definition showmappings :: "u8 list list \<Rightarrow> kstate \<Rightarrow> (int, kstate) kres" where
  "showmappings argv s = (case two_args argv of
       None \<Rightarrow> Ret (- 1) s
     | Some (lower_input, upper_input) \<Rightarrow>
         let lower_va = ROUNDDOWN lower_input PGSIZE; upper_va = ROUNDUP upper_input PGSIZE in
         bindK (foldK (\<lambda>k s. bindK (pgdir_walk (kern_pgdir s) (lower_va + of_nat k * PGSIZE) False s) (\<lambda>_ s. Ret () s))
            [0..<(unat upper_va - unat lower_va) div unat PGSIZE] s) (\<lambda>_ s. Ret 0 s))"

definition dump_memory_va :: "u8 list list \<Rightarrow> kstate \<Rightarrow> (int, kstate) kres" where
  "dump_memory_va argv s = (case two_args argv of
       None \<Rightarrow> Ret (- 1) s
     | Some (start, total_bytes) \<Rightarrow>
         bindK (foldK (\<lambda>k s.
             bindK (pgdir_walk (kern_pgdir s) (start + of_nat k) False s) (\<lambda>r s. case r of
                 None \<Rightarrow> Ret () s
               | Some _ \<Rightarrow> bindK (vld8 (start + of_nat k) s) (\<lambda>_ s. Ret () s)))
           [0..<unat total_bytes] s) (\<lambda>_ s. Ret 0 s))"

text \<open>
  The search of \<^verbatim>\<open>get_virtual_address\<close> through the kernel's page tables. The address it
  returns is computed from the entries, as in the source.
\<close>

fun gva_ptes :: "u32 \<Rightarrow> u32 \<Rightarrow> u32 \<Rightarrow> nat list \<Rightarrow> kstate \<Rightarrow> u32 option" where
  "gva_ptes pa pde p [] s = None"
| "gva_ptes pa pde p (i # is) s =
     (let pte = kld32 s (p + 4 * of_nat i) in
      if pte AND PTE_P \<noteq> 0 \<and> PGNUM pte = PGNUM pa then Some (PGADDR (PDX pde) (PTX pte) (PGOFF pa))
      else gva_ptes pa pde p is s)"

fun gva_pdes :: "u32 \<Rightarrow> nat list \<Rightarrow> kstate \<Rightarrow> (u32, kstate) kres" where
  "gva_pdes pa [] s = Ret 0 s"
| "gva_pdes pa (i # is) s =
     (let pde = kld32 s (kern_pgdir s + 4 * of_nat i) in
      if pde AND PTE_P = 0 then gva_pdes pa is s
      else bindK (KADDR (PTE_ADDR pde) s) (\<lambda>p s.
        case gva_ptes pa pde p [0..<1024] s of Some va \<Rightarrow> Ret va s | None \<Rightarrow> gva_pdes pa is s))"

definition get_virtual_address :: "u32 \<Rightarrow> kstate \<Rightarrow> (u32, kstate) kres" where
  "get_virtual_address pa s = gva_pdes pa [0..<1024] s"

definition dump_memory_pa :: "u8 list list \<Rightarrow> kstate \<Rightarrow> (int, kstate) kres" where
  "dump_memory_pa argv s = (case two_args argv of
       None \<Rightarrow> Ret (- 1) s
     | Some (start, total_bytes) \<Rightarrow>
         bindK (foldK (\<lambda>k s.
             bindK (get_virtual_address (start + of_nat k) s) (\<lambda>va s.
               if va = 0 then Ret () s else bindK (vld8 va s) (\<lambda>_ s. Ret () s)))
           [0..<unat total_bytes] s) (\<lambda>_ s. Ret 0 s))"

section \<open>The command interpreter\<close>

definition WHITESPACE :: "u8 list" where "WHITESPACE = [9, 13, 10, 32]"

definition is_space :: "u8 \<Rightarrow> bool" where
  "is_space c \<longleftrightarrow> strchr WHITESPACE c \<noteq> None"

text \<open>The words of a line.\<close>

function words :: "u8 list \<Rightarrow> u8 list list" where
  "words buf =
     (let buf = dropWhile is_space buf in
      if buf = [] then [] else takeWhile (\<lambda>c. \<not> is_space c) buf # words (dropWhile (\<lambda>c. \<not> is_space c) buf))"
  by pat_completeness auto
termination
proof (relation "measure length", goal_cases)
  case (2 buf x)
  from 2(2) obtain c cs where c: "x = c # cs" by (cases x) auto
  then have "\<not> is_space c" using hd_dropWhile [of is_space buf] 2 by simp
  moreover have "length (c # cs) \<le> length buf" using length_dropWhile_le [of is_space buf] 2(1) c by simp
  moreover have "length (dropWhile (\<lambda>c. \<not> is_space c) cs) \<le> length cs" by (rule length_dropWhile_le)
  ultimately show ?case using c by simp
qed simp

declare words.simps [simp del]

definition MAXARGS :: nat where "MAXARGS = 16"

definition ascii :: "string \<Rightarrow> u8 list" where
  "ascii = map of_char"

text \<open>\<^verbatim>\<open>help\<close>, \<^verbatim>\<open>kerninfo\<close> and \<^verbatim>\<open>backtrace\<close> only print.\<close>

definition commands :: "(u8 list \<times> (u8 list list \<Rightarrow> frame \<Rightarrow> kstate \<Rightarrow> (int, kstate) kres)) list" where
  "commands =
    [(ascii ''help'', \<lambda>_ _ s. Ret 0 s), (ascii ''kerninfo'', \<lambda>_ _ s. Ret 0 s), (ascii ''backtrace'', \<lambda>_ _ s. Ret 0 s),
     (ascii ''showmappings'', \<lambda>argv _. showmappings argv),
     (ascii ''permissions'', \<lambda>argv _. set_pte_permissions argv),
     (ascii ''dump_mem_va'', \<lambda>argv _. dump_memory_va argv), (ascii ''dump_mem_pa'', \<lambda>argv _. dump_memory_pa argv),
     (ascii ''continue'', \<lambda>_. continue_breakpoint), (ascii ''si'', \<lambda>_. single_step)]"

definition runcmd :: "u8 list \<Rightarrow> frame \<Rightarrow> kstate \<Rightarrow> (int, kstate) kres" where
  "runcmd buf f s =
     (let argv = words buf in
      if length argv \<ge> MAXARGS then Ret 0 s
      else if argv = [] then Ret 0 s
      else case find (\<lambda>(name, _). strcmp (hd argv) name = 0) commands of
          None \<Rightarrow> Ret 0 s
        | Some (_, func) \<Rightarrow> func argv f s)"

fun monitor :: "u8 list list \<Rightarrow> frame \<Rightarrow> kstate \<Rightarrow> (unit, kstate) kres" where
  "monitor [] f s = Leave MonitorLoop s"
| "monitor (buf # lines) f s =
     bindK (runcmd buf f s) (\<lambda>r s. if r < 0 then Ret () s else monitor lines f s)"

end
