(* ===== verification/Trap.thy ===== *)
theory Trap
  imports Monitor
begin

text \<open>
  Interrupts and exceptions (\<^verbatim>\<open>kern/trap.c\<close>): the interrupt descriptor table, the dispatcher,
  page faults of user programs, and \<^verbatim>\<open>trap\<close>, which every entry from \<^verbatim>\<open>kern/trapentry.S\<close>
  calls with the frame it pushed. The monitor's input \<open>lines\<close> and the network card's answers
  \<open>eerd\<close> are arguments, as in the theories that use them.
\<close>

section \<open>Vectors\<close>

definition T_DEBUG :: u32 where "T_DEBUG = 1"
definition T_BRKPT :: u32 where "T_BRKPT = 3"
definition T_PGFLT :: u32 where "T_PGFLT = 14"
definition T_SYSCALL :: u32 where "T_SYSCALL = 48"
definition IRQ_OFFSET :: u32 where "IRQ_OFFSET = 32"
definition IRQ_TIMER :: u32 where "IRQ_TIMER = 0"
definition IRQ_KBD :: u32 where "IRQ_KBD = 1"
definition IRQ_SERIAL :: u32 where "IRQ_SERIAL = 4"
definition IRQ_SPURIOUS :: u32 where "IRQ_SPURIOUS = 7"

lemmas vector_defs = T_DEBUG_def T_BRKPT_def T_PGFLT_def T_SYSCALL_def IRQ_OFFSET_def IRQ_TIMER_def
  IRQ_KBD_def IRQ_SERIAL_def IRQ_SPURIOUS_def

definition excnames :: "string list" where
  "excnames = [''Divide error'', ''Debug'', ''Non-Maskable Interrupt'', ''Breakpoint'', ''Overflow'',
     ''BOUND Range Exceeded'', ''Invalid Opcode'', ''Device Not Available'', ''Double Fault'',
     ''Coprocessor Segment Overrun'', ''Invalid TSS'', ''Segment Not Present'', ''Stack Fault'',
     ''General Protection'', ''Page Fault'', ''(unknown trap)'', ''x87 FPU Floating-Point Error'',
     ''Alignment Check'', ''Machine-Check'', ''SIMD Floating-Point Exception'']"

text \<open>
  The first comparison is between an \<^verbatim>\<open>int\<close> and a \<^verbatim>\<open>size_t\<close>, and so an unsigned one.
\<close>

definition trapname :: "int \<Rightarrow> string" where
  "trapname trapno =
     (if unat (word_of_int trapno :: u32) < length excnames then excnames ! unat (word_of_int trapno :: u32)
      else if trapno = 48 then ''System call''
      else if trapno \<ge> 32 \<and> trapno < 32 + 16 then ''Hardware Interrupt''
      else ''(unknown trap)'')"

section \<open>The interrupt descriptor table\<close>

record gatedesc =
  gd_off_15_0 :: u16
  gd_sel :: u16
  gd_args :: nat
  gd_rsv1 :: nat
  gd_type :: nat
  gd_s :: nat
  gd_dpl :: nat
  gd_p :: nat
  gd_off_31_16 :: u16

definition STS_IG32 :: nat where "STS_IG32 = 14"
definition STS_TG32 :: nat where "STS_TG32 = 15"

definition SETGATE :: "bool \<Rightarrow> u16 \<Rightarrow> u32 \<Rightarrow> nat \<Rightarrow> gatedesc" where
  "SETGATE istrap sel off dpl = \<lparr>gd_off_15_0 = ucast (off AND 0xffff), gd_sel = sel, gd_args = 0, gd_rsv1 = 0,
     gd_type = (if istrap then STS_TG32 else STS_IG32), gd_s = 0, gd_dpl = dpl, gd_p = 1,
     gd_off_31_16 = ucast (drop_bit 16 off)\<rparr>"

text \<open>The vectors \<^verbatim>\<open>trap_init\<close> sets, with the privilege level that may raise them.\<close>

definition trap_gates :: "(nat \<times> nat) list" where
  "trap_gates = [(0, 0), (1, 3), (2, 0), (3, 3), (4, 0), (5, 0), (6, 0), (7, 0), (8, 0), (10, 0), (11, 0),
     (12, 0), (13, 0), (14, 0), (16, 0), (17, 0), (18, 0), (19, 0), (32, 0), (33, 0), (34, 0), (35, 0),
     (36, 0), (37, 0), (38, 0), (39, 0), (40, 0), (41, 0), (42, 0), (43, 0), (44, 0), (45, 0), (46, 0),
     (47, 0), (48, 3)]"

text \<open>\<open>thandler v\<close> is the address of the entry point for vector \<open>v\<close> in \<^verbatim>\<open>kern/trapentry.S\<close>.\<close>

definition init_gates :: "(nat \<Rightarrow> u32) \<Rightarrow> (nat \<Rightarrow> gatedesc) \<Rightarrow> nat \<Rightarrow> gatedesc" where
  "init_gates thandler idt =
     fold (\<lambda>(v, dpl) idt. idt(v := SETGATE False GD_KT (thandler v) dpl)) trap_gates idt"

text \<open>The task state segment of the CPU; loading the registers that point to it is left out.\<close>

definition trap_init_percpu :: "kstate \<Rightarrow> kstate" where
  "trap_init_percpu s =
     (let i = this_cpu s; c = cpus s i in
      s\<lparr>cpus := (cpus s)(i := c\<lparr>ts_esp0 := KSTACKTOP - ucast (cpu_id c) * (KSTKSIZE + KSTKGAP), ts_ss0 := GD_KD\<rparr>)\<rparr>)"

definition trap_init :: "(nat \<Rightarrow> u32) \<Rightarrow> (nat \<Rightarrow> gatedesc) \<Rightarrow> kstate \<Rightarrow> (nat \<Rightarrow> gatedesc) \<times> kstate" where
  "trap_init thandler idt s = (init_gates thandler idt, trap_init_percpu s)"

section \<open>Page faults of user programs\<close>

definition regs_bytes :: "pushregs \<Rightarrow> u8 list" where
  "regs_bytes r = bytes32 (reg_edi r) @ bytes32 (reg_esi r) @ bytes32 (reg_ebp r) @ bytes32 (reg_oesp r) @
     bytes32 (reg_ebx r) @ bytes32 (reg_edx r) @ bytes32 (reg_ecx r) @ bytes32 (reg_eax r)"

definition utf_bytes :: "utrapframe \<Rightarrow> u8 list" where
  "utf_bytes u = bytes32 (utf_fault_va u) @ bytes32 (utf_err u) @ regs_bytes (utf_regs u) @
     bytes32 (utf_eip u) @ bytes32 (utf_eflags u) @ bytes32 (utf_esp u)"

definition utf_of :: "u32 \<Rightarrow> trapframe \<Rightarrow> utrapframe" where
  "utf_of fault_va tf = \<lparr>utf_fault_va = fault_va, utf_err = tf_err tf, utf_regs = tf_regs tf,
     utf_eip = tf_eip tf, utf_eflags = tf_eflags tf, utf_esp = tf_esp tf\<rparr>"

definition set_esp :: "nat \<Rightarrow> u32 \<Rightarrow> kstate \<Rightarrow> kstate" where
  "set_esp c esp s = upd_env c (\<lambda>x. x\<lparr>env_tf := (env_tf x)\<lparr>tf_esp := esp\<rparr>\<rparr>) s"

text \<open>
  Pushing the fault frame: below the frame in use when the fault came from the exception
  stack, with an empty word in between, else at the top of the exception stack. The size of
  \<^verbatim>\<open>struct UTrapframe\<close> is 52.
\<close>

definition push_utf :: "nat \<Rightarrow> u32 \<Rightarrow> utrapframe \<Rightarrow> kstate \<Rightarrow> (unit, kstate) kres" where
  "push_utf c esp utf s =
     (if esp < UXSTACKTOP \<and> esp \<ge> UXSTACKTOP - PGSIZE then
        let next_esp = esp - 4 - 52 in
        bindK (user_mem_assert c next_esp (4 + 52) (PTE_U OR PTE_W OR PTE_P) s) (\<lambda>_ s.
        bindK (vwrite (esp - 4) (bytes32 0) s) (\<lambda>_ s.
        bindK (vwrite next_esp (utf_bytes utf) s) (\<lambda>_ s.
        Ret () (set_esp c next_esp s))))
      else
        let next_esp = UXSTACKTOP - 52 in
        bindK (user_mem_assert c next_esp 52 (PTE_U OR PTE_W OR PTE_P) s) (\<lambda>_ s.
        bindK (vwrite next_esp (utf_bytes utf) s) (\<lambda>_ s.
        Ret () (set_esp c next_esp s))))"

definition page_fault_handler :: "frame \<Rightarrow> kstate \<Rightarrow> (unit, kstate) kres" where
  "page_fault_handler f s =
     (let fault_va = cr2 s in
      bindK (frame_tf f s) (\<lambda>tf s.
      if tf_cs tf AND 3 = 0
      then Panic ''page_fault_handler: The previous code segment came from a kernel CPL.''
      else if tf_cs tf = GD_KT
      then Panic ''page_fault_handler: The previous code segment has a kernel DPL.''
      else with_cur (\<lambda>c s.
        bindK (if env_pgfault_upcall (envs s c) = 0 then env_destroy c s else Ret () s) (\<lambda>_ s.
        bindK (frame_tf f s) (\<lambda>tf s.
        bindK (push_utf c (tf_esp tf) (utf_of fault_va tf) s) (\<lambda>_ s.
        let s = upd_env c (\<lambda>x. x\<lparr>env_tf := (env_tf x)\<lparr>tf_eip := env_pgfault_upcall x\<rparr>\<rparr>) s in
        bindK (env_run c s) (\<lambda>_ s.
          Panic ''page_fault_handler: Returned from function after env_run. Should  not return.''))))) s))"

section \<open>Dispatch\<close>

definition lift_cons :: "(console \<Rightarrow> console option) \<Rightarrow> kstate \<Rightarrow> (unit, kstate) kres" where
  "lift_cons f s = (case f (cons s) of None \<Rightarrow> Leave SpinForever s | Some c \<Rightarrow> Ret () (s\<lparr>cons := c\<rparr>))"

text \<open>The timer of the boot CPU counts; acknowledging the interrupt is left out.\<close>

definition timer_interrupt :: "kstate \<Rightarrow> (unit, kstate) kres" where
  "timer_interrupt s =
     bindK (if cpu_id (cpus s (this_cpu s)) = cpu_id (cpus s (bootcpu s)) then time_tick s else Ret () s) (\<lambda>_ s.
       sched_yield s)"

definition trap_dispatch ::
    "(u32 \<Rightarrow> u32 option) \<Rightarrow> u8 list list \<Rightarrow> frame \<Rightarrow> kstate \<Rightarrow> (unit, kstate) kres" where
  "trap_dispatch eerd lines f s =
     bindK (frame_tf f s) (\<lambda>tf s.
     let trapno = tf_trapno tf; r = tf_regs tf in
     if trapno = T_PGFLT then page_fault_handler f s
     else if trapno = T_DEBUG \<or> trapno = T_BRKPT then monitor lines f s
     else if trapno = T_SYSCALL then
       bindK (syscall eerd (reg_eax r) (reg_edx r) (reg_ecx r) (reg_ebx r) (reg_edi r) (reg_esi r) s) (\<lambda>v s.
         upd_frame f (\<lambda>tf. tf\<lparr>tf_regs := (tf_regs tf)\<lparr>reg_eax := word_of_int v\<rparr>\<rparr>) s)
     else if trapno = IRQ_OFFSET + IRQ_SPURIOUS then Ret () s
     else bindK (if trapno = IRQ_OFFSET + IRQ_TIMER then timer_interrupt s else Ret () s) (\<lambda>_ s.
       if trapno = IRQ_OFFSET + IRQ_KBD then lift_cons kbd_intr s
       else if trapno = IRQ_OFFSET + IRQ_SERIAL then lift_cons serial_intr s
       else if trapno > IRQ_OFFSET \<and> trapno \<le> IRQ_OFFSET + 15 then Ret () s
       else if tf_cs tf = GD_KT then Panic ''unhandled trap in kernel''
       else with_cur (\<lambda>c s. env_destroy c s) s))"

text \<open>After the dispatch: back to the current environment, or to another one.\<close>

definition trap_return :: "kstate \<Rightarrow> (unit, kstate) kres" where
  "trap_return s = (case curenv s of
       Some c \<Rightarrow> if env_status (envs s c) = ENV_RUNNING then env_run c s else sched_yield s
     | None \<Rightarrow> sched_yield s)"

definition trap_start :: "kstate \<Rightarrow> (unit, kstate) kres" where
  "trap_start s =
     (if panicstr s then Leave HaltCpu s
      else
        let i = this_cpu s; old = cpu_status (cpus s i);
            s = s\<lparr>cpus := (cpus s)(i := (cpus s i)\<lparr>cpu_status := CPU_STARTED\<rparr>)\<rparr>
        in if old = CPU_HALTED then lock_kernel s else Ret () s)"

definition trap :: "(u32 \<Rightarrow> u32 option) \<Rightarrow> u8 list list \<Rightarrow> trapframe \<Rightarrow> kstate \<Rightarrow> (unit, kstate) kres" where
  "trap eerd lines tf s =
     bindK (trap_start s) (\<lambda>_ s.
     bindK (if tf_cs tf AND 3 = 3 then
              bindK (lock_kernel s) (\<lambda>_ s.
              case curenv s of
                None \<Rightarrow> Panic ''curenv''
              | Some c \<Rightarrow>
                  bindK (if env_status (envs s c) = ENV_DYING
                         then bindK (env_free c s) (\<lambda>_ s. sched_yield (set_curenv None s))
                         else Ret () s) (\<lambda>_ s.
                  Ret (FEnv c) (upd_env c (\<lambda>x. x\<lparr>env_tf := tf\<rparr>) s)))
            else Ret (FStack tf) s) (\<lambda>f s.
     bindK (trap_dispatch eerd lines f s) (\<lambda>_ s. trap_return s)))"

end
