(* ===== verification/Usermem.thy ===== *)
theory Usermem
  imports SysInv
begin

text \<open>
  What \<^verbatim>\<open>user_mem_check\<close> (\<^verbatim>\<open>kern/pmap.c\<close>) guarantees about the accesses the kernel makes
  to user memory after it, and the two cases in which it guarantees nothing.
\<close>

section \<open>The paging hardware and the page tables\<close>

lemma mmu_pte:
  assumes "cr3 s = page2pa D"
  shows "mmu s wr va = (if present (entry s D (PDX va)) \<and> present (pte s D va) \<and>
      (wr \<longrightarrow> entry s D (PDX va) AND PTE_W \<noteq> 0 \<and> pte s D va AND PTE_W \<noteq> 0)
    then Some (PTE_ADDR (pte s D va) OR PGOFF va) else None)"
proof -
  have d: "ld32 (pmem s) (PTE_ADDR (cr3 s) + 4 * PDX va) = entry s D (PDX va)"
    using assms(1) by (simp add: entry_def entry_pa_def page2pa_def PTE_ADDR_frame)
  have t: "ld32 (pmem s) (PTE_ADDR e + 4 * PTX va) = entry s (PGNUM e) (PTX va)" for e
    unfolding entry_def entry_pa_def frame_PGNUM ..
  have np: "e AND PTE_P = 0 \<longleftrightarrow> \<not> present e" for e unfolding present_def by blast
  show ?thesis
  proof (cases "present (entry s D (PDX va))")
    case True
    then have "entry s (PGNUM (entry s D (PDX va))) (PTX va) = pte s D va" by (simp add: pte_def table_def)
    then show ?thesis unfolding mmu_def Let_def d t np using True by (cases wr) simp_all
  next
    case False
    then show ?thesis unfolding mmu_def Let_def d np by simp
  qed
qed

section \<open>What the check looks at\<close>

definition granted :: "kstate \<Rightarrow> u32 \<Rightarrow> u32 \<Rightarrow> u32 \<Rightarrow> bool" where
  "granted s D perm a \<longleftrightarrow> a < ULIM \<and> present (entry s D (PDX a)) \<and>
     pte s D a AND (perm OR PTE_P) = perm OR PTE_P"

lemma pgdir_walk_granted:
  assumes "pgdir_walk (kpage D) a False s = Ret (Some p) t"
  shows "t = s" "present (entry s D (PDX a))" "kld32 s p = pte s D a"
proof -
  have pr: "present (entry s D (PDX a))"
    using assms pgdir_walk_absent [of s D a] by (cases "present (entry s D (PDX a))") auto
  have "PGNUM (entry s D (PDX a)) < npages s"
  proof (rule ccontr)
    assume "\<not> PGNUM (entry s D (PDX a)) < npages s"
    moreover have "PGNUM (page2pa (PGNUM (entry s D (PDX a)))) = PGNUM (entry s D (PDX a))"
      unfolding page2pa_def by (intro PGNUM_frame PGNUM_less)
    ultimately show False using assms pr by (simp add: pgdir_walk_def page2kva_def KADDR_def not_less)
  qed
  from pgdir_walk_present [OF pr this, of False] assms
  have p: "p = kpage (PGNUM (entry s D (PDX a))) + 4 * PTX a" and "t = s" by simp_all
  then show "t = s" "present (entry s D (PDX a))" by (simp_all add: pr)
  show "kld32 s p = pte s D a" unfolding p using pr by (simp add: pte_def table_def)
qed

text \<open>
  The check succeeds only if the addresses it visits, which are \<^const>\<open>PGSIZE\<close> apart and start
  at \<open>va\<close> itself, are granted.
\<close>

lemma user_mem_loop_granted:
  assumes "user_mem_loop (kpage D) va len perm addr s = Ret 0 t" "unat addr + k * 4096 < unat (va + len)"
  shows "granted s D perm (addr + of_nat (k * 4096))"
  using assms
proof (induction "kpage D" va len perm addr s arbitrary: k rule: user_mem_loop.induct)
  case (1 va len perm addr s)
  have lt: "addr < va + len" using 1(3) by (simp add: word_less_nat_alt)
  then have ul: "\<not> addr \<ge> ULIM" using 1(2) by (subst (asm) user_mem_loop.simps) (auto simp: E_FAULT_def)
  obtain p where p: "pgdir_walk (kpage D) addr False s = Ret (Some p) s"
    using 1(2) lt ul pgdir_walk_granted(1)
    by (subst (asm) user_mem_loop.simps) (auto simp: E_FAULT_def split: kres.splits option.splits if_splits)
  note g = pgdir_walk_granted [OF p]
  have perm: "kld32 s p AND (perm OR PTE_P) = perm OR PTE_P"
    using 1(2) lt ul p by (subst (asm) user_mem_loop.simps) (auto simp: E_FAULT_def split: if_splits)
  have rec: "user_mem_loop (kpage D) va len perm (addr + PGSIZE) s = Ret 0 t"
    using 1(2) lt ul p perm by (subst (asm) user_mem_loop.simps) auto
  show ?case
  proof (cases k)
    case 0
    then show ?thesis using g perm ul by (simp add: granted_def)
  next
    case (Suc j)
    have u: "unat (addr + PGSIZE) = unat addr + 4096"
      using ul by (simp add: word_le_nat_alt layout_values PGSIZE_def unat_word_ariths)
    have "granted s D perm (addr + PGSIZE + of_nat (j * 4096))"
      by (rule 1(1) [OF _ _ p refl]) (use lt ul perm rec 1(3) Suc u in auto)
    then show ?thesis using Suc by (simp add: PGSIZE_def algebra_simps)
  qed
qed

text \<open>
  For a range that starts on a page boundary and does not wrap around, success means that
  every byte of the range is granted.
\<close>

lemma unat_PGOFF: "unat (PGOFF va) = unat va mod 4096"
proof -
  have "PGOFF va = take_bit 12 va" unfolding PGOFF_def mask_numerals by (simp add: take_bit_eq_mask)
  then show ?thesis by (simp add: take_bit_eq_mod unat_mod)
qed

lemma granted_page:
  assumes "PGNUM a = PGNUM b" "granted s D perm a"
  shows "granted s D perm b"
proof -
  have x: "PDX b = PDX a" "PTX b = PTX a" using assms(1) PGNUM_eq_iff by auto
  have "x < ULIM \<longleftrightarrow> unat (PGNUM x) < 0xef800" for x
    by (simp add: word_less_nat_alt unat_PGNUM layout_values less_mult_imp_div_less div_less_iff_less_mult)
  then have "b < ULIM" using assms by (simp add: granted_def)
  moreover have "pte s D b = pte s D a" by (simp add: pte_def table_def x)
  ultimately show ?thesis using assms(2) by (simp add: granted_def x)
qed

lemma user_mem_check_granted:
  assumes ok: "user_mem_check e va len perm s = Ret 0 t" and D: "env_pgdir (envs s e) = kpage D"
    and al: "PGOFF va = 0" and nw: "va \<le> va + len" and a: "va \<le> a" "a < va + len"
  shows "granted s D perm a"
proof -
  let ?k = "(unat a - unat va) div 4096"
  have le: "unat va \<le> unat a" "unat a < unat (va + len)" using a by (simp_all add: word_le_nat_alt word_less_nat_alt)
  have k: "unat va + ?k * 4096 \<le> unat a" using le(1) by (metis div_times_less_eq_dividend le_diff_conv2 add.commute)
  from user_mem_loop_granted [of D va len perm va s t ?k] ok D k le
  have "granted s D perm (va + of_nat (?k * 4096))" by (simp add: user_mem_check_def)
  moreover have "PGNUM (va + of_nat (?k * 4096)) = PGNUM a"
  proof -
    have "unat a < 4294967296" using unsigned_less [of a] by simp
    then have "unat (va + of_nat (?k * 4096)) = unat va + ?k * 4096" using k by (simp add: unat_word_ariths unat_of_nat_u32)
    moreover have "unat va mod 4096 = 0" using al unat_PGOFF [of va] by simp
    then obtain q where q: "unat va = 4096 * q" by (auto simp: mod_eq_0_iff_dvd)
    have "unat a = unat va + (unat a - unat va)" using le(1) by simp
    then have "unat a div 4096 = (unat va + (unat a - unat va)) div 4096" by (rule arg_cong)
    then have "(unat va + ?k * 4096) div 4096 = unat a div 4096" unfolding q by simp
    ultimately show ?thesis by (simp add: word_unat_eq_iff unat_PGNUM)
  qed
  ultimately show ?thesis using granted_page by blast
qed

lemma granted_present: "e AND (perm OR PTE_P) = perm OR PTE_P \<Longrightarrow> present e"
proof -
  assume "e AND (perm OR PTE_P) = perm OR PTE_P"
  moreover have "bit (perm OR PTE_P) 0" by (simp add: bit_or_iff PTE_P_def)
  ultimately have "bit (e AND (perm OR PTE_P)) 0" by simp
  then show ?thesis by (simp add: bit_and_iff present_bit)
qed

lemma vread_granted:
  assumes "cr3 s = page2pa D" "\<And>i. i < n \<Longrightarrow> granted s D perm (va + of_nat i)"
  shows "\<exists>bs. vread va n s = Ret bs s \<and> length bs = n"
  using assms(2)
proof (induction n arbitrary: va)
  case (Suc n)
  have "granted s D perm va" using Suc(2) [of 0] by simp
  then have "present (entry s D (PDX va)) \<and> present (pte s D va)" using granted_present by (auto simp: granted_def)
  then obtain b where b: "vld8 va s = Ret b s" using mmu_pte [OF assms(1), of False va] by (simp add: vld8_def)
  obtain bs where "vread (va + 1) n s = Ret bs s \<and> length bs = n"
    using Suc(1) [of "va + 1"] Suc(2) [of "Suc _"] by (auto simp: add.assoc)
  then show ?case using b by simp
qed simp

section \<open>What the check misses\<close>

text \<open>A range whose end wraps around zero has no address to visit.\<close>

lemma user_mem_check_wrap:
  assumes "va + len \<le> va"
  shows "user_mem_check e va len perm s = Ret 0 s"
  using assms unfolding user_mem_check_def by (subst user_mem_loop.simps) auto

text \<open>
  The loop steps from \<open>va\<close> itself, not from the start of its page, so that a range of at most
  a page is checked by its first address alone.
\<close>

lemma user_mem_check_first:
  assumes D: "env_pgdir (envs s e) = kpage D" and g: "granted s D perm va" "table s D va < npages s"
    and len: "0 < len" "len \<le> PGSIZE"
  shows "user_mem_check e va len perm s = Ret 0 s"
proof -
  have ul: "unat va < 0xef800000" using g(1) by (simp add: granted_def word_less_nat_alt layout_values)
  have l: "unat len \<le> 4096" using len by (simp add: word_le_nat_alt PGSIZE_def)
  then have lt: "va < va + len" "\<not> va + PGSIZE < va + len"
    using ul len(1) by (simp_all add: word_less_nat_alt unat_word_ariths PGSIZE_def)
  have pr: "present (entry s D (PDX va))" using g(1) by (simp add: granted_def)
  from pgdir_walk_present [OF pr, of False] g(2)
  have w: "pgdir_walk (kpage D) va False s = Ret (Some (kpage (table s D va) + 4 * PTX va)) s" by (simp add: table_def)
  have "entry s (table s D va) (PTX va) = pte s D va" using pr by (simp add: pte_def)
  moreover have last: "user_mem_loop (kpage D) va len perm (va + PGSIZE) s = Ret 0 s"
    using lt(2) by (subst user_mem_loop.simps) simp
  moreover have "\<not> ULIM \<le> va" using g(1) by (simp add: granted_def not_le)
  ultimately have "user_mem_loop (kpage D) va len perm va s = Ret 0 s"
    using lt(1) w g(1) by (subst user_mem_loop.simps) (simp del: user_mem_loop.simps add: granted_def)
  then show ?thesis by (simp add: user_mem_check_def D del: user_mem_loop.simps)
qed

section \<open>Writing to a mapped page\<close>

text \<open>
  A page all of whose addresses from \<open>va\<close> on translate through \<open>g\<close>, whatever is stored in
  the page itself.
\<close>

definition stable_page :: "kstate \<Rightarrow> u32 \<Rightarrow> (u32 \<Rightarrow> u32) \<Rightarrow> u32 \<Rightarrow> nat \<Rightarrow> bool" where
  "stable_page s p g va n \<longleftrightarrow> inj_on (\<lambda>i. g (va + of_nat i)) {..<n} \<and> (\<forall>m i wr. (\<forall>a. PGNUM a \<noteq> p \<longrightarrow> m a = pmem s a) \<longrightarrow> i < n \<longrightarrow>
     mmu (s\<lparr>pmem := m\<rparr>) wr (va + of_nat i) = Some (g (va + of_nat i)) \<and> PGNUM (g (va + of_nat i)) = p)"

lemma stable_pageD:
  assumes "stable_page s p g va n" "i < n"
  shows "mmu s wr (va + of_nat i) = Some (g (va + of_nat i))" "PGNUM (g (va + of_nat i)) = p"
  using assms by (auto simp: stable_page_def dest!: spec [of _ "pmem s"])

lemma stable_page_Suc:
  assumes "stable_page s p g va (Suc n)" "\<And>a. PGNUM a \<noteq> p \<Longrightarrow> m a = pmem s a"
  shows "stable_page (s\<lparr>pmem := m\<rparr>) p g (va + 1) n"
proof -
  have "mmu (s\<lparr>pmem := m'\<rparr>) wr (va + 1 + of_nat i) = Some (g (va + 1 + of_nat i)) \<and> PGNUM (g (va + 1 + of_nat i)) = p"
    if "\<forall>a. PGNUM a \<noteq> p \<longrightarrow> m' a = m a" "i < n" for m' i wr
    using assms that(1) that(2) unfolding stable_page_def
    by (auto simp: add.assoc dest!: spec [of _ m'] spec [of _ "Suc i"])
  moreover have "inj_on (\<lambda>i. g (va + 1 + of_nat i)) {..<n}"
  proof (rule inj_onI)
    fix i j assume "i \<in> {..<n}" "j \<in> {..<n}" "g (va + 1 + of_nat i) = g (va + 1 + of_nat j)"
    then have "Suc i = Suc j" using assms(1) unfolding stable_page_def
      by (intro inj_onD [of "\<lambda>i. g (va + of_nat i)" "{..<Suc n}"]) (simp_all add: add.assoc)
    then show "i = j" by simp
  qed
  ultimately show ?thesis by (simp add: stable_page_def)
qed

lemma vwrite_stable:
  assumes "stable_page s p g va (length bs)"
  shows "\<exists>m. vwrite va bs s = Ret () (s\<lparr>pmem := m\<rparr>) \<and> (\<forall>a. PGNUM a \<noteq> p \<longrightarrow> m a = pmem s a) \<and>
    (\<forall>i < length bs. m (g (va + of_nat i)) = bs ! i) \<and> (\<forall>a. a \<notin> (\<lambda>i. g (va + of_nat i)) ` {..<length bs} \<longrightarrow> m a = pmem s a)"
  using assms
proof (induction bs arbitrary: va s)
  case Nil
  have "s = s\<lparr>pmem := pmem s\<rparr>" by simp
  then show ?case by (auto intro!: exI [of _ "pmem s"])
next
  case (Cons b bs)
  let ?m0 = "(pmem s)(g va := b)"
  have g0: "mmu s True va = Some (g va)" "PGNUM (g va) = p" using stable_pageD [OF Cons(2), of 0] by simp_all
  have st: "stable_page (s\<lparr>pmem := ?m0\<rparr>) p g (va + 1) (length bs)"
    using Cons(2) g0(2) by (intro stable_page_Suc) auto
  obtain m where m: "vwrite (va + 1) bs (s\<lparr>pmem := ?m0\<rparr>) = Ret () (s\<lparr>pmem := m\<rparr>)"
    "\<forall>a. PGNUM a \<noteq> p \<longrightarrow> m a = ?m0 a" "\<forall>i < length bs. m (g (va + 1 + of_nat i)) = bs ! i"
    "\<forall>a. a \<notin> (\<lambda>i. g (va + 1 + of_nat i)) ` {..<length bs} \<longrightarrow> m a = ?m0 a"
    using Cons(1) [OF st] by auto
  have "g va \<notin> (\<lambda>i. g (va + 1 + of_nat i)) ` {..<length bs}"
  proof
    assume "g va \<in> (\<lambda>i. g (va + 1 + of_nat i)) ` {..<length bs}"
    then obtain i where i: "i < length bs" "g va = g (va + 1 + of_nat i)" by auto
    then have "0 = Suc i" using Cons(2) unfolding stable_page_def
      by (intro inj_onD [of "\<lambda>i. g (va + of_nat i)" "{..<Suc (length bs)}"]) (simp_all add: add.assoc)
    then show False by simp
  qed
  then have mg: "m (g va) = b" using m(4) by simp
  have "m (g (va + of_nat i)) = (b # bs) ! i" if "i < length (b # bs)" for i
    using that m(3) mg by (cases i) (auto simp: add.assoc)
  moreover have "m a = pmem s a" if "a \<notin> (\<lambda>i. g (va + of_nat i)) ` {..<length (b # bs)}" for a
  proof -
    have "a \<noteq> g va" using that by (auto simp: image_iff dest: bspec [of _ _ 0])
    moreover have "a \<notin> (\<lambda>i. g (va + 1 + of_nat i)) ` {..<length bs}"
      using that by (auto simp: image_iff add.assoc dest!: bspec [of _ _ "Suc _"])
    ultimately show ?thesis using m(4) by simp
  qed
  moreover have "vst8 va b s = Ret () (s\<lparr>pmem := ?m0\<rparr>)" using g0 by (simp add: vst8_def)
  ultimately show ?case using m(1,2) g0(2) by (intro exI [of _ m]) auto
qed

lemma vread_stable:
  assumes "\<And>i. i < n \<Longrightarrow> mmu s False (va + of_nat i) = Some (g (va + of_nat i))"
  shows "vread va n s = Ret (map (\<lambda>i. pmem s (g (va + of_nat i))) [0..<n]) s"
  using assms
proof (induction n arbitrary: va)
  case (Suc n)
  have "mmu s False va = Some (g va)" using Suc(2) [of 0] by simp
  moreover have "vread (va + 1) n s = Ret (map (\<lambda>i. pmem s (g (va + 1 + of_nat i))) [0..<n]) s"
    by (rule Suc(1)) (use Suc(2) [of "Suc _"] in \<open>simp add: add.assoc\<close>)
  ultimately show ?case by (simp add: vld8_def map_upt_Suc add.assoc del: upt_Suc)
qed simp

text \<open>The pages an environment can write are stable.\<close>

lemma page_split: "r < 4096 \<Longrightarrow> (q * 4096 + r) div 4096 = q \<and> (q * 4096 + r) mod 4096 = (r :: nat)"
  by simp

lemma user_page_stable:
  assumes inv: "kernel_inv s K R pin ps es" and e: "e \<in> live s" and cr3: "cr3 s = page2pa (env_dir s e)"
    and w: "granted s (env_dir s e) PTE_W va" "entry s (env_dir s e) (PDX va) AND PTE_W \<noteq> 0"
    and va: "va < UTOP" "unat (PGOFF va) + n \<le> 4096"
  shows "stable_page s (PGNUM (pte s (env_dir s e) va)) (\<lambda>a. PTE_ADDR (pte s (env_dir s e) va) OR PGOFF a) va n"
proof -
  let ?D = "env_dir s e" and ?e = "pte s (env_dir s e) va"
  note k = kernel_invD [OF inv]
  have bits: "x AND PTE_W \<noteq> 0 \<and> present x" if "x AND (PTE_W OR PTE_P) = PTE_W OR PTE_P" for x
  proof -
    have b: "bit (x AND (PTE_W OR PTE_P)) 1" unfolding that by (simp add: PTE_W_def PTE_P_def bit_simps)
    then have "bit (x AND PTE_W) 1" by (simp add: bit_and_iff PTE_W_def bit_simps)
    then have "x AND PTE_W \<noteq> 0" by (metis bit_0_eq bot_apply bot_bool_def)
    then show ?thesis using granted_present [OF that] by simp
  qed
  have pr: "present (entry s ?D (PDX va))" "present ?e" "?e AND PTE_W \<noteq> 0"
    using w(1) bits by (auto simp: granted_def)
  note m = mapped_page [OF inv e va(1) pr(2)]
  have D: "?D \<in> dirs s" using k(9) e by simp
  have off: "PGNUM (va + of_nat i) = PGNUM va" "unat (PGOFF (va + of_nat i)) = unat (PGOFF va) + i" if "i < n" for i
  proof -
    have o: "unat va mod 4096 + i < 4096" using va(2) that unat_PGOFF [of va] by simp
    have "unat va < 0xeec00000" using va(1) by (simp add: word_less_nat_alt layout_values)
    then have u: "unat (va + of_nat i) = unat va + i" using o by (simp add: unat_word_ariths unat_of_nat_u32)
    have "(unat va + i) div 4096 = unat va div 4096" "(unat va + i) mod 4096 = unat va mod 4096 + i"
      using o page_split [of "unat va mod 4096 + i" "unat va div 4096"] by (simp_all add: add.assoc [symmetric])
    then show "PGNUM (va + of_nat i) = PGNUM va" "unat (PGOFF (va + of_nat i)) = unat (PGOFF va) + i"
      by (simp_all add: word_unat_eq_iff unat_PGNUM unat_PGOFF u)
  qed
  have "inj_on (\<lambda>i. PTE_ADDR ?e OR PGOFF (va + of_nat i)) {..<n}"
  proof (rule inj_onI)
    fix i j assume ij: "i \<in> {..<n}" "j \<in> {..<n}" "PTE_ADDR ?e OR PGOFF (va + of_nat i) = PTE_ADDR ?e OR PGOFF (va + of_nat j)"
    have po: "PGOFF (PTE_ADDR x OR PGOFF y) = PGOFF y" for x y
      by (rule bit_word_eqI) (auto simp: bit_simps bit_addr)
    have "PGOFF (va + of_nat i) = PGOFF (PTE_ADDR ?e OR PGOFF (va + of_nat i))" by (rule po [symmetric])
    also have "\<dots> = PGOFF (PTE_ADDR ?e OR PGOFF (va + of_nat j))" using ij(3) by (rule arg_cong)
    also have "\<dots> = PGOFF (va + of_nat j)" by (rule po)
    finally have "PGOFF (va + of_nat i) = PGOFF (va + of_nat j)" .
    then have "unat (PGOFF (va + of_nat i)) = unat (PGOFF (va + of_nat j))" by (rule arg_cong)
    then show "i = j" using off(2) [of i] off(2) [of j] ij(1,2) by simp
  qed
  moreover have "mmu (s\<lparr>pmem := mm\<rparr>) wr (va + of_nat i) = Some (PTE_ADDR ?e OR PGOFF (va + of_nat i))"
    if mm: "\<forall>a. PGNUM a \<noteq> PGNUM ?e \<longrightarrow> mm a = pmem s a" and i: "i < n" for mm i wr
  proof -
    let ?t = "s\<lparr>pmem := mm\<rparr>"
    note pw = plain_write [OF k(1) m(2), of ?t]
    have x: "PDX (va + of_nat i) = PDX va" "PTX (va + of_nat i) = PTX va" using off(1) [OF i] PGNUM_eq_iff by auto
    have "entry ?t ?D (PDX va) = entry s ?D (PDX va)" using pw(4) [OF _ _ _ _ D PDX_less] mm by simp
    moreover have "pte ?t ?D va = ?e" using pw(5) [OF _ _ _ _ D] mm va(1) uslot_iff by simp
    moreover have "pte ?t ?D (va + of_nat i) = pte ?t ?D va" by (simp add: pte_def table_def x)
    ultimately show ?thesis using mmu_pte [of ?t ?D wr "va + of_nat i"] cr3 pr w(2) x by simp
  qed
  ultimately show ?thesis using PGNUM_or_small [OF PGOFF_less] PGNUM_PTE_ADDR by (simp add: stable_page_def)
qed

end
