(* ===== verification/TrapInv.thy ===== *)
theory TrapInv
  imports Trap Usermem
begin

text \<open>
  What a trap from a user program does to the kernel's invariant, and where the fault frame
  of a page fault goes.
\<close>

section \<open>Address translation of the current environment\<close>

text \<open>The page directory in force is that of the current environment.\<close>

definition cr3_ok :: "kstate \<Rightarrow> bool" where
  "cr3_ok s \<longleftrightarrow> (\<forall>c. curenv s = Some c \<longrightarrow> cr3 s = page2pa (env_dir s c))"

lemma PGNUM_pa: "PGNUM (PTE_ADDR e OR PGOFF va) = PGNUM e"
  using PGNUM_or_small [OF PGOFF_less] PGNUM_PTE_ADDR by simp

text \<open>A byte written below \<^const>\<open>UTOP\<close> lands in a page mapped there.\<close>

lemma vst8_keeps:
  assumes s: "sys_inv K R pin s" "cr3_ok s" and c: "curenv s = Some c" and va: "va < UTOP"
  shows "wpK (\<lambda>_ t. sys_inv K R pin t \<and> t = s\<lparr>pmem := pmem t\<rparr>) (\<lambda>_ _. False) (vst8 va b s)"
proof (cases "mmu s True va")
  case None
  then show ?thesis by (simp add: vst8_def)
next
  case (Some pa)
  obtain ps es where inv: "kernel_inv s K R pin ps es" using sys_invD(3) [OF s(1)] by blast
  note k = kernel_invD [OF inv]
  have cl: "c \<in> live s" using sys_invD(1) [OF s(1)] c by (simp add: cur_ok_def)
  let ?D = "env_dir s c"
  have "cr3 s = page2pa ?D" using s(2) c by (simp add: cr3_ok_def)
  from mmu_pte [OF this, of True va] Some
  have pr: "present (pte s ?D va)" and pa: "pa = PTE_ADDR (pte s ?D va) OR PGOFF va" by (auto split: if_splits)
  note m = mapped_page [OF inv cl va pr]
  let ?t = "s\<lparr>pmem := (pmem s)(pa := b)\<rparr>"
  have "PGNUM pa = PGNUM (pte s ?D va)" unfolding pa by (rule PGNUM_pa)
  then have "sys_inv K R pin ?t"
    by (intro write_plain_keeps [OF s(1) m(2)]) (use m(4) k(6) in auto)
  then show ?thesis using Some by (simp add: vst8_def)
qed

lemma vwrite_keeps:
  assumes "sys_inv K R pin s" "cr3_ok s" "curenv s = Some c" "\<And>i. i < length bs \<Longrightarrow> va + of_nat i < UTOP"
  shows "wpK (\<lambda>_ t. sys_inv K R pin t \<and> t = s\<lparr>pmem := pmem t\<rparr>) (\<lambda>_ _. False) (vwrite va bs s)"
  using assms
proof (induction va bs s rule: vwrite.induct)
  case (2 va b bs s)
  have "va < UTOP" using 2(5) [of 0] by simp
  note w = vst8_keeps [OF 2(2-4) this, of b]
  show ?case
  proof (cases "vst8 va b s")
    case (Ret u t)
    then have t: "sys_inv K R pin t" "t = s\<lparr>pmem := pmem t\<rparr>" using w by simp_all
    have f: "curenv t = curenv s" "env_dir t c = env_dir s c" "cr3 t = cr3 s"
      by (subst t(2), simp add: curenv_def env_dir_def)+
    have "wpK (\<lambda>_ v. sys_inv K R pin v \<and> v = t\<lparr>pmem := pmem v\<rparr>) (\<lambda>_ _. False) (vwrite (va + 1) bs t)"
    proof (rule 2(1) [OF t(1)])
      show "cr3_ok t" "curenv t = Some c" using 2(3,4) f by (simp_all add: cr3_ok_def)
      show "va + 1 + of_nat i < UTOP" if "i < length bs" for i using 2(5) [of "Suc i"] that by (simp add: add.assoc)
    qed
    then have "wpK (\<lambda>_ v. sys_inv K R pin v \<and> v = s\<lparr>pmem := pmem v\<rparr>) (\<lambda>_ _. False) (vwrite (va + 1) bs t)"
    proof (rule wpK_weaken)
      fix v assume "sys_inv K R pin v \<and> v = t\<lparr>pmem := pmem v\<rparr>"
      moreover have "t\<lparr>pmem := pmem v\<rparr> = s\<lparr>pmem := pmem v\<rparr>" by (subst t(2)) simp
      ultimately show "sys_inv K R pin v \<and> v = s\<lparr>pmem := pmem v\<rparr>" by simp
    qed simp
    then show ?thesis using Ret by simp
  qed (use w in auto)
qed simp

section \<open>A trap keeps the invariant\<close>

lemma length_utf [simp]: "length (utf_bytes u) = 52" "length (bytes32 x) = 4"
  by (simp_all add: utf_bytes_def regs_bytes_def bytes32_def)

text \<open>The fault frame stays below \<^const>\<open>UXSTACKTOP\<close>, which is \<^const>\<open>UTOP\<close>.\<close>

lemma utf_below:
  assumes "esp \<le> UXSTACKTOP" "esp \<ge> UXSTACKTOP - PGSIZE" "j \<le> 56" "i < j"
  shows "esp - of_nat j + of_nat i < UTOP"
proof -
  have e: "unat esp \<le> 0xeec00000" "unat esp \<ge> 0xeebff000"
    using assms by (simp_all add: word_less_nat_alt word_le_nat_alt layout_defs)
  have "esp - of_nat j + of_nat i = esp - of_nat (j - i)" using assms(4) by (simp add: of_nat_diff)
  moreover have "unat (esp - of_nat (j - i)) = unat esp - (j - i)"
    using e assms(3) by (subst unat_sub) (simp_all add: word_le_nat_alt unat_of_nat_u32 del: of_nat_diff)
  ultimately have "unat (esp - of_nat j + of_nat i) = unat esp - (j - i)" by (rule ssubst)
  then have "unat (esp - of_nat j + of_nat i) < 0xeec00000" using e assms(3,4) by linarith
  then show ?thesis by (simp add: word_less_nat_alt layout_defs)
qed

definition fault_inv :: "u32 \<Rightarrow> u32 set \<Rightarrow> (u32 \<Rightarrow> nat) \<Rightarrow> nat \<Rightarrow> kstate \<Rightarrow> bool" where
  "fault_inv K R pin c s \<longleftrightarrow> sys_inv K R pin s \<and> cr3_ok s \<and> curenv s = Some c \<and> c \<in> live s"

lemma fault_inv_vwrite:
  assumes t: "fault_inv K R pin c t" "\<And>i. i < length bs \<Longrightarrow> va + of_nat i < UTOP"
  shows "wpK (\<lambda>_. fault_inv K R pin c) (left_inv K R pin) (vwrite va bs t)"
proof -
  have "wpK (\<lambda>_ t'. sys_inv K R pin t' \<and> t' = t\<lparr>pmem := pmem t'\<rparr>) (\<lambda>_ _. False) (vwrite va bs t)"
    using t by (intro vwrite_keeps) (simp_all add: fault_inv_def)
  then show ?thesis
  proof (rule wpK_weaken)
    fix u assume u: "sys_inv K R pin u \<and> u = t\<lparr>pmem := pmem u\<rparr>"
    have "curenv u = curenv t" "envs u = envs t" "cr3 u = cr3 t"
      by (subst u [THEN conjunct2], simp add: curenv_def)+
    then show "fault_inv K R pin c u" using t(1) u by (simp add: fault_inv_def cr3_ok_def live_def env_dir_def)
  qed simp
qed

lemma fault_inv_assert:
  assumes "fault_inv K R pin c s"
  shows "wpK (\<lambda>_. fault_inv K R pin c) (left_inv K R pin) (user_mem_assert c va len perm s)"
proof -
  have "wpK (\<lambda>_ t. \<exists>x. t = s\<lparr>user_mem_check_addr := x\<rparr>) (left_inv K R pin) (user_mem_assert c va len perm s)"
    using assms by (intro user_mem_assert_self) (simp_all add: fault_inv_def)
  then show ?thesis
    by (rule wpK_weaken) (use assms check_addr_keeps in \<open>auto simp: fault_inv_def cr3_ok_def curenv_def live_def env_dir_def\<close>)
qed

lemma push_utf_keeps:
  assumes s: "fault_inv K R pin c s"
  shows "wpK (\<lambda>_ t. sys_inv K R pin t \<and> c \<in> live t) (left_inv K R pin) (push_utf c esp utf s)"
proof -
  have fin: "sys_inv K R pin (set_esp c x t) \<and> c \<in> live (set_esp c x t)" if "fault_inv K R pin c t" for x t
    using that by (auto simp: fault_inv_def set_esp_def live_def intro!: upd_env_keeps)
  show ?thesis
  proof (cases "esp < UXSTACKTOP \<and> esp \<ge> UXSTACKTOP - PGSIZE")
    case True
    have a: "esp - 4 + of_nat i < UTOP" if "i < length (bytes32 0)" for i
      using utf_below [of esp 4 i] True that by (simp add: order_less_imp_le)
    have b: "esp - 4 - 52 + of_nat i < UTOP" if "i < length (utf_bytes utf)" for i
      using utf_below [of esp 56 i] True that by (simp add: order_less_imp_le)
    show ?thesis unfolding push_utf_def Let_def if_P [OF True] wpK_bind
      by (rule wpK_weaken [OF fault_inv_assert [OF s]], rule wpK_weaken [OF fault_inv_vwrite [OF _ a]], assumption+,
          rule wpK_weaken [OF fault_inv_vwrite [OF _ b]], assumption+) (simp_all add: fin)
  next
    case False
    have b: "UXSTACKTOP - 52 + of_nat i < UTOP" if "i < length (utf_bytes utf)" for i
      using utf_below [of UXSTACKTOP 52 i] that by (simp add: layout_values PGSIZE_def)
    show ?thesis unfolding push_utf_def Let_def if_not_P [OF False] wpK_bind
      by (rule wpK_weaken [OF fault_inv_assert [OF s]], rule wpK_weaken [OF fault_inv_vwrite [OF _ b]], assumption+) (simp_all add: fin)
  qed
qed

lemma page_fault_handler_keeps:
  assumes s: "fault_inv K R pin c s"
  shows "wpK (\<lambda>_ _. False) (left_inv K R pin) (page_fault_handler (FEnv c) s)"
proof -
  have f: "sys_inv K R pin s" "curenv s = Some c" "c \<in> live s" using s by (simp_all add: fault_inv_def)
  have run: "wpK (\<lambda>_ _. False) (left_inv K R pin)
      (env_run c (upd_env c (\<lambda>x. x\<lparr>env_tf := (env_tf x)\<lparr>tf_eip := env_pgfault_upcall x\<rparr>\<rparr>) t))"
    if "sys_inv K R pin t \<and> c \<in> live t" for t
    by (rule env_run_keeps) (use that in \<open>auto simp: live_def sys_inv_def intro!: upd_env_ok\<close>)
  have "wpK (\<lambda>_ _. False) (left_inv K R pin) (bindK (push_utf c esp utf s) (\<lambda>_ s.
        let s = upd_env c (\<lambda>x. x\<lparr>env_tf := (env_tf x)\<lparr>tf_eip := env_pgfault_upcall x\<rparr>\<rparr>) s in
        bindK (env_run c s) (\<lambda>_ s. Panic msg)))" for esp utf msg
    unfolding wpK_bind Let_def by (rule wpK_weaken [OF push_utf_keeps [OF s]]) (auto intro: wpK_false [OF run])
  moreover have "wpK (\<lambda>_ _. False) (left_inv K R pin) (env_destroy c s)"
    by (rule wpK_weaken [OF env_destroy_keeps [OF f(1,3)]]) (use f(2) in auto)
  ultimately show ?thesis using f(2)
    by (auto simp: page_fault_handler_def frame_tf_def with_cur_def wpK_bind intro: wpK_false)
qed

lemma trap_return_keeps:
  assumes "sys_inv K R pin s"
  shows "wpK (\<lambda>_ _. False) (left_inv K R pin) (trap_return s)"
  using assms sys_invD [OF assms] sched_yield_keeps [OF assms] env_run_keeps
  by (auto simp: trap_return_def cur_ok_def split: option.split)

lemma lift_cons_keeps: "sys_inv K R pin s \<Longrightarrow> keeps K R pin (lift_cons f s)"
  by (auto simp: lift_cons_def cons_keeps split: option.split)

text \<open>
  What the dispatcher needs for the system calls: no page is mapped 65535 times, the transmit
  ring is in place, and the call is not one of the three that write where they were told to.
\<close>

definition call_ok :: "u32 \<Rightarrow> u32 set \<Rightarrow> trapframe \<Rightarrow> kstate \<Rightarrow> bool" where
  "call_ok K R tf s \<longleftrightarrow> (tf_trapno tf = T_SYSCALL \<longrightarrow> (\<forall>p < npages s. pp_ref (pages s p) \<noteq> 0xFFFF) \<and>
     tx_ring_ok K R s \<and> reg_eax (tf_regs tf) \<notin> {9, 17, 18})"

lemma timer_keeps: 
  assumes "sys_inv K R pin s"
  shows "wpK (\<lambda>_ _. False) (left_inv K R pin) (timer_interrupt s)"
proof -
  have "sys_inv K R pin (s\<lparr>ticks := x\<rparr>)" for x
    using kernel_ok_cong [of K R pin s "s\<lparr>ticks := x\<rparr>"] assms by (simp add: sys_inv_def cur_ok_def curenv_def live_def)
  then show ?thesis using sched_yield_keeps assms by (auto simp: timer_interrupt_def time_tick_def Let_def)
qed

lemma trap_dispatch_keeps:
  assumes s: "fault_inv K R pin c s" and ok: "call_ok K R (env_tf (envs s c)) s"
  shows "keeps K R pin (trap_dispatch eerd [] (FEnv c) s)"
proof -
  let ?tf = "env_tf (envs s c)"
  have f: "sys_inv K R pin s" "cur_ok s" "curenv s = Some c" "c \<in> live s" using s by (simp_all add: fault_inv_def sys_inv_def)
  have frame: "sys_inv K R pin (upd_env c (\<lambda>x. x\<lparr>env_tf := g (env_tf x)\<rparr>) t)" if "sys_inv K R pin t" for g t
    using that by (intro upd_env_keeps) auto
  have sc: "keeps K R pin (bindK (syscall eerd (reg_eax (tf_regs ?tf)) a b d e h s) (\<lambda>v s.
         upd_frame (FEnv c) (\<lambda>tf. tf\<lparr>tf_regs := (tf_regs tf)\<lparr>reg_eax := word_of_int v\<rparr>\<rparr>) s))"
    if "tf_trapno ?tf = T_SYSCALL" for a b d e h
    unfolding wpK_bind
    by (rule wpK_weaken [OF syscall_keeps [OF f(1)]]) (use ok that in \<open>auto simp: call_ok_def upd_frame_def intro: frame\<close>)
  have de: "keeps K R pin (env_destroy c s)"
    by (rule wpK_weaken [OF env_destroy_keeps [OF f(1,4)]]) auto
  show ?thesis
    using sc de f wpK_false [OF page_fault_handler_keeps [OF s]] wpK_false [OF timer_keeps [OF f(1)]] lift_cons_keeps [OF f(1)]
    by (simp add: trap_dispatch_def frame_tf_def Let_def with_cur_def wpK_bind)
qed

definition entry_inv :: "u32 \<Rightarrow> u32 set \<Rightarrow> (u32 \<Rightarrow> nat) \<Rightarrow> trapframe \<Rightarrow> kstate \<Rightarrow> bool" where
  "entry_inv K R pin tf s \<longleftrightarrow> sys_inv K R pin s \<and> cr3_ok s \<and> call_ok K R tf s"

lemma entry_inv_cong:
  assumes "entry_inv K R pin tf s" "curenv t = curenv s" "t = s\<lparr>cpus := cpus t, kernel_lock := kernel_lock t\<rparr>"
  shows "entry_inv K R pin tf t"
proof -
  have f: "pmem t = pmem s" "pages t = pages s" "npages t = npages s" "page_free_list t = page_free_list s" "envs t = envs s"
    "env_free_list t = env_free_list s" "kern_pgdir t = kern_pgdir s" "cr3 t = cr3 s" "nic t = nic s"
    by (subst assms(3), simp)+
  show ?thesis using assms(1,2) kernel_ok_cong [of K R pin s t] f
    by (simp add: entry_inv_def sys_inv_def cur_ok_def live_def cr3_ok_def env_dir_def call_ok_def tx_ring_ok_def io_read_def)
qed

lemma lock_kernel_keeps:
  assumes "entry_inv K R pin tf s"
  shows "wpK (\<lambda>_. entry_inv K R pin tf) (left_inv K R pin) (lock_kernel s)"
proof -
  have "entry_inv K R pin tf (s\<lparr>kernel_lock := lk\<rparr>)" for lk
    by (rule entry_inv_cong [OF assms]) (simp_all add: curenv_def)
  then show ?thesis by (simp add: lock_kernel_def spin_lock_def) (simp add: entry_inv_def)
qed

lemma trap_start_keeps:
  assumes "entry_inv K R pin tf s"
  shows "wpK (\<lambda>_. entry_inv K R pin tf) (left_inv K R pin) (trap_start s)"
proof -
  let ?t = "s\<lparr>cpus := (cpus s)(this_cpu s := (cpus s (this_cpu s))\<lparr>cpu_status := CPU_STARTED\<rparr>)\<rparr>"
  have t: "entry_inv K R pin tf ?t" by (rule entry_inv_cong [OF assms]) (simp_all add: curenv_def)
  show ?thesis using t assms lock_kernel_keeps [OF t] by (simp add: trap_start_def Let_def entry_inv_def)
qed

lemma trap_keeps:
  assumes s: "entry_inv K R pin tf s" and u: "tf_cs tf AND 3 = 3"
  shows "wpK (\<lambda>_ _. False) (left_inv K R pin) (trap eerd [] tf s)"
proof -
  let ?rest = "\<lambda>f s. bindK (trap_dispatch eerd [] f s) (\<lambda>_. trap_return)"
  have run: "wpK (\<lambda>_ _. False) (left_inv K R pin) (?rest (FEnv c) (upd_env c (\<lambda>x. x\<lparr>env_tf := tf\<rparr>) t))"
    if t: "entry_inv K R pin tf t" "curenv t = Some c" for t c
  proof -
    have "fault_inv K R pin c (upd_env c (\<lambda>x. x\<lparr>env_tf := tf\<rparr>) t)"
      using t by (auto simp: fault_inv_def entry_inv_def sys_inv_def cur_ok_def live_def cr3_ok_def env_dir_def intro!: upd_env_ok)
        (simp add: upd_env_def)
    moreover have "call_ok K R (env_tf (envs (upd_env c (\<lambda>x. x\<lparr>env_tf := tf\<rparr>) t) c)) (upd_env c (\<lambda>x. x\<lparr>env_tf := tf\<rparr>) t)"
      using t by (simp add: entry_inv_def call_ok_def tx_ring_ok_def io_read_def upd_env_def)
    ultimately show ?thesis unfolding wpK_bind
      by (rule wpK_weaken [OF trap_dispatch_keeps]) (simp_all add: trap_return_keeps)
  qed
  have dying: "wpK (\<lambda>_ _. False) (left_inv K R pin) (bindK (env_free c t) (\<lambda>_ s. sched_yield (set_curenv None s)))"
    if t: "entry_inv K R pin tf t" "curenv t = Some c" for t c
  proof -
    have "c \<in> live t" using t by (simp add: entry_inv_def sys_inv_def cur_ok_def)
    moreover obtain ps es where "kernel_inv t K R pin ps es" using t by (auto simp: entry_inv_def sys_inv_def kernel_ok_def)
    ultimately obtain v ps' where v: "env_free c t = Ret () v" "kernel_inv v K R pin ps' (c # es)"
      using env_free_kernel_inv by blast
    then have "kernel_ok K R pin v" by (auto simp: kernel_ok_def)
    then have "kernel_ok K R pin (set_curenv None v)" by (rule kernel_ok_cong) simp_all
    then show ?thesis using v(1) by (simp add: sched_yield_keeps sys_inv_def cur_ok_def)
  qed
  have user: "wpK (\<lambda>_ _. False) (left_inv K R pin) (bindK (bindK (lock_kernel v) (\<lambda>_ s. case curenv s of
        None \<Rightarrow> Panic ''curenv''
      | Some c \<Rightarrow> bindK (if env_status (envs s c) = ENV_DYING
            then bindK (env_free c s) (\<lambda>_ s. sched_yield (set_curenv None s)) else Ret () s) (\<lambda>_ s.
          Ret (FEnv c) (upd_env c (\<lambda>x. x\<lparr>env_tf := tf\<rparr>) s)))) ?rest)"
    if "entry_inv K R pin tf v" for v
    unfolding bindK_assoc wpK_bind [of _ _ "lock_kernel v"]
  proof (rule wpK_weaken [OF lock_kernel_keeps [OF that]])
    fix t assume t: "entry_inv K R pin tf t"
    show "wpK (\<lambda>_ _. False) (left_inv K R pin) (bindK (case curenv t of
        None \<Rightarrow> Panic ''curenv''
      | Some c \<Rightarrow> bindK (if env_status (envs t c) = ENV_DYING
            then bindK (env_free c t) (\<lambda>_ s. sched_yield (set_curenv None s)) else Ret () t) (\<lambda>_ s.
          Ret (FEnv c) (upd_env c (\<lambda>x. x\<lparr>env_tf := tf\<rparr>) s))) ?rest)"
      using run [OF t] wpK_false [OF dying [OF t]] by (cases "curenv t") (auto simp: wpK_bind)
  qed simp
  show ?thesis
    unfolding trap_def wpK_bind [of _ _ "trap_start s"] if_P [OF u]
    by (rule wpK_weaken [OF trap_start_keeps [OF s]]) (simp_all only: user)
qed

section \<open>The fault frame\<close>

lemma env_run_returns:
  assumes "env_pgdir (envs s e) = kpage D" "D < 0x10000" "holding (this_cpu s) (kernel_lock s)"
  shows "\<exists>t. env_run e s = Leave (RunEnv e) t \<and> env_tf (envs t e) = env_tf (envs s e) \<and> pmem t = pmem s \<and>
    cr3 t = page2pa D \<and> nic t = nic s \<and> npages t = npages s \<and> pages t = pages s \<and> env_pgdir (envs t e) = kpage D \<and>
    env_pgfault_upcall (envs t e) = env_pgfault_upcall (envs s e) \<and> this_cpu t = this_cpu s \<and> page_free_list t = page_free_list s"
proof -
  define s1 where "s1 = (case curenv s of
      Some c \<Rightarrow> if env_status (envs s c) = ENV_RUNNING then upd_env c (\<lambda>x. x\<lparr>env_status := ENV_RUNNABLE\<rparr>) s else s
    | None \<Rightarrow> s)"
  have s1: "env_pgdir (envs s1 e) = kpage D" "env_tf (envs s1 e) = env_tf (envs s e)" "pmem s1 = pmem s"
    "nic s1 = nic s" "npages s1 = npages s" "pages s1 = pages s" "page_free_list s1 = page_free_list s"
    "env_pgfault_upcall (envs s1 e) = env_pgfault_upcall (envs s e)" "this_cpu s1 = this_cpu s" "kernel_lock s1 = kernel_lock s"
    using assms by (auto simp: s1_def upd_env_def split: option.split)
  define s2 where "s2 = upd_env e (\<lambda>x. x\<lparr>env_status := ENV_RUNNING, env_runs := env_runs x + 1\<rparr>) (set_curenv (Some e) s1)"
  have s2: "env_pgdir (envs s2 e) = kpage D" "env_tf (envs s2 e) = env_tf (envs s e)" "pmem s2 = pmem s"
    "nic s2 = nic s" "npages s2 = npages s" "pages s2 = pages s" "page_free_list s2 = page_free_list s"
    "env_pgfault_upcall (envs s2 e) = env_pgfault_upcall (envs s e)" "this_cpu s2 = this_cpu s" "kernel_lock s2 = kernel_lock s" "curenv s2 = Some e"
    using s1 by (simp_all add: s2_def) (simp_all add: upd_env_def set_curenv_def)
  have "curenv (s2\<lparr>cr3 := x, kernel_lock := lk\<rparr>) = Some e" for x lk using s2(11) by (simp add: curenv_def)
  then have "env_run e s = Leave (RunEnv e) (upd_env e (\<lambda>x. x\<lparr>env_cpunum := this_cpu s\<rparr>)
      (s2\<lparr>cr3 := page2pa D, kernel_lock := (kernel_lock s)\<lparr>lk_cpu := None, locked := 0\<rparr>\<rparr>))"
    unfolding env_run_def Let_def s1_def [symmetric] s2_def [symmetric]
    using s2 assms(3) PADDR_kpage [OF assms(2)] by (simp add: unlock_kernel_cases env_pop_tf_def lcr3_def)
  then show ?thesis using s2 by (simp add: upd_env_def)
qed

lemma mmu_cong: "pmem t = pmem s \<Longrightarrow> cr3 t = cr3 s \<Longrightarrow> mmu t wr va = mmu s wr va"
  unfolding mmu_def by (simp only:)

lemma granted_less:
  assumes "granted s D perm a" "(q OR PTE_P) AND (perm OR PTE_P) = q OR PTE_P"
  shows "granted s D q a"
proof -
  let ?e = "pte s D a"
  have "?e AND (q OR PTE_P) = ?e AND ((q OR PTE_P) AND (perm OR PTE_P))" using assms(2) by simp
  also have "\<dots> = (?e AND (perm OR PTE_P)) AND (q OR PTE_P)" by (simp only: and.assoc and.commute and.left_commute)
  also have "\<dots> = (perm OR PTE_P) AND (q OR PTE_P)" using assms(1) by (simp add: granted_def)
  also have "\<dots> = q OR PTE_P" using assms(2) by (simp add: and.commute)
  finally show ?thesis using assms(1) by (simp add: granted_def)
qed

text \<open>
  A user-mode fault of an environment that has an upcall and a writable exception stack: the
  environment goes on at the upcall, on the exception stack, where it finds the frame.
\<close>

lemma page_fault_upcall:
  assumes s: "fault_inv K R pin c s" and lk: "holding (this_cpu s) (kernel_lock s)"
    and tf: "tf = env_tf (envs s c)" "tf_cs tf AND 3 \<noteq> 0" "tf_cs tf \<noteq> GD_KT"
    and up: "env_pgfault_upcall (envs s c) \<noteq> 0"
    and esp: "\<not> (tf_esp tf < UXSTACKTOP \<and> tf_esp tf \<ge> UXSTACKTOP - PGSIZE)"
    and xs: "granted s (env_dir s c) (PTE_U OR PTE_W) (UXSTACKTOP - PGSIZE)" 
      "entry s (env_dir s c) (PDX (UXSTACKTOP - PGSIZE)) AND PTE_W \<noteq> 0"
  shows "\<exists>t. page_fault_handler (FEnv c) s = Leave (RunEnv c) t \<and>
    env_tf (envs t c) = tf\<lparr>tf_esp := UXSTACKTOP - 52, tf_eip := env_pgfault_upcall (envs s c)\<rparr> \<and>
    vread (UXSTACKTOP - 52) 52 t = Ret (utf_bytes (utf_of (cr2 s) tf)) t"
proof -
  let ?D = "env_dir s c" and ?va = "UXSTACKTOP - 52" and ?bs = "utf_bytes (utf_of (cr2 s) tf)"
  have f: "sys_inv K R pin s" "cr3 s = page2pa ?D" "curenv s = Some c" "c \<in> live s"
    using s by (simp_all add: fault_inv_def cr3_ok_def)
  obtain ps es where inv: "kernel_inv s K R pin ps es" using sys_invD(3) [OF f(1)] by blast
  note k = kernel_invD [OF inv]
  have pg: "PGNUM (UXSTACKTOP - PGSIZE) = PGNUM ?va" by (simp add: PGNUM_def layout_values PGSIZE_def)
  then have px: "PDX (UXSTACKTOP - PGSIZE) = PDX ?va" using PGNUM_eq_iff by simp
  have g: "granted s ?D (PTE_U OR PTE_W) ?va" using granted_page [OF pg xs(1)] .
  have gc: "granted s ?D ((PTE_U OR PTE_W OR PTE_P) OR PTE_U) ?va"
    by (rule granted_less [OF g]) (simp add: PTE_U_def PTE_W_def PTE_P_def)
  have gw: "granted s ?D PTE_W ?va" by (rule granted_less [OF g]) (simp add: PTE_U_def PTE_W_def PTE_P_def)
  have va: "?va < UTOP" "unat (PGOFF ?va) + 52 \<le> 4096" by (simp_all add: layout_values PGOFF_def)
  have pr: "present (pte s ?D ?va)" using gw granted_present [of _ PTE_W] by (simp add: granted_def)
  note st = user_page_stable [OF inv f(4,2) gw _ va]
  let ?g = "\<lambda>a. PTE_ADDR (pte s ?D ?va) OR PGOFF a"
  have chk: "user_mem_check c ?va 52 ((PTE_U OR PTE_W OR PTE_P) OR PTE_U) s = Ret 0 s"
    using k(3) [OF f(4)] gc mapped_page(5) [OF inv f(4) va(1) pr] by (intro user_mem_check_first) (simp_all add: PGSIZE_def)
  obtain m where m: "vwrite ?va ?bs s = Ret () (s\<lparr>pmem := m\<rparr>)" "\<forall>i < 52. m (?g (?va + of_nat i)) = ?bs ! i"
    "\<forall>a. PGNUM a \<noteq> PGNUM (pte s ?D ?va) \<longrightarrow> m a = pmem s a"
    using vwrite_stable [of s "PGNUM (pte s ?D ?va)" ?g ?va ?bs] st xs(2) px by auto
  let ?u = "upd_env c (\<lambda>x. x\<lparr>env_tf := (env_tf x)\<lparr>tf_eip := env_pgfault_upcall x\<rparr>\<rparr>) (set_esp c ?va (s\<lparr>pmem := m\<rparr>))"
  have u: "env_pgdir (envs ?u c) = kpage ?D" "holding (this_cpu ?u) (kernel_lock ?u)" "pmem ?u = m"
    "env_tf (envs ?u c) = tf\<lparr>tf_esp := ?va, tf_eip := env_pgfault_upcall (envs s c)\<rparr>"
    using k(3) [OF f(4)] lk tf(1) by (simp_all add: set_esp_def upd_env_def)
  have "?D < 0x10000" using k(8) memory_invD(2) [OF k(1)] k(9) [OF f(4)] tables_okD(1) by fastforce
  from env_run_returns [OF u(1) this u(2)] obtain t where t: "env_run c ?u = Leave (RunEnv c) t"
    "env_tf (envs t c) = tf\<lparr>tf_esp := ?va, tf_eip := env_pgfault_upcall (envs s c)\<rparr>" "pmem t = m" "cr3 t = page2pa ?D"
    using u by auto
  have "mmu t False (?va + of_nat i) = Some (?g (?va + of_nat i))" if "i < 52" for i
    using mmu_cong [of t "s\<lparr>pmem := m\<rparr>"] t(3,4) f(2) st xs(2) px m(3) that by (auto simp: stable_page_def)
  then have "vread ?va 52 t = Ret (map (\<lambda>i. m (?g (?va + of_nat i))) [0..<52]) t" using vread_stable [of 52 t ?va ?g] t(3) by simp
  also have "map (\<lambda>i. m (?g (?va + of_nat i))) [0..<52] = ?bs" by (rule nth_equalityI) (use m(2) in simp_all)
  finally have "vread ?va 52 t = Ret ?bs t" .
  moreover have "push_utf c (tf_esp tf) (utf_of (cr2 s) tf) s = Ret () (set_esp c ?va (s\<lparr>pmem := m\<rparr>))"
    unfolding push_utf_def if_not_P [OF esp] using chk m(1) by (simp add: user_mem_assert_def Let_def)
  then have "page_fault_handler (FEnv c) s = Leave (RunEnv c) t"
    using tf up f(3) t(1) by (simp add: page_fault_handler_def frame_tf_def with_cur_def Let_def)
  ultimately show ?thesis using t(2) by blast
qed

section \<open>The descriptor table\<close>

text \<open>
  User programs can raise the breakpoint, the debug exception and the system call, and no
  other vector; every gate enters the kernel's code segment with interrupts off. The table
  starts cleared.
\<close>

definition zero_idt :: "nat \<Rightarrow> gatedesc" where
  "zero_idt v = \<lparr>gd_off_15_0 = 0, gd_sel = 0, gd_args = 0, gd_rsv1 = 0, gd_type = 0, gd_s = 0, gd_dpl = 0, gd_p = 0,
     gd_off_31_16 = 0\<rparr>"

lemma init_gates_eq:
  "init_gates thandler zero_idt v = (case map_of trap_gates v of
     None \<Rightarrow> zero_idt v | Some dpl \<Rightarrow> SETGATE False GD_KT (thandler v) dpl)"
  by (simp add: init_gates_def trap_gates_def)

lemma init_gates_user:
  "{v. gd_p (init_gates thandler zero_idt v) = 1 \<and> gd_dpl (init_gates thandler zero_idt v) = 3} = {1, 3, 48}"
  by (auto simp: init_gates_eq trap_gates_def SETGATE_def zero_idt_def split: if_splits)

lemma init_gates_kernel:
  "gd_p (init_gates thandler zero_idt v) = 1 \<Longrightarrow> gd_sel (init_gates thandler zero_idt v) = GD_KT \<and>
     gd_type (init_gates thandler zero_idt v) = STS_IG32"
  by (auto simp: init_gates_eq SETGATE_def zero_idt_def split: option.splits)

end
