(* ===== verification/Boot.thy ===== *)
theory Boot
  imports Start TrapInv
begin

text \<open>
  The invariant holds when the kernel has set up its data structures, and concrete machine
  states reached by running the kernel's own start-up code.
\<close>

section \<open>The environment array after start-up\<close>

lemma env_init_fold:
  assumes "env_free_list s = None" "n \<le> 1024"
  shows "let t = fold env_init_step [0..<n] s in
    chain (\<lambda>i. env_link (envs t i)) (env_free_list t) [1024 - n..<1024] \<and>
    (\<forall>i \<in> {1024 - n..<1024}. env_status (envs t i) = ENV_FREE \<and> env_id (envs t i) = 0) \<and> t = s\<lparr>envs := envs t, env_free_list := env_free_list t\<rparr>"
  using assms(2)
proof (induction n)
  case 0
  then show ?case using assms by simp
next
  case (Suc n)
  let ?t = "fold env_init_step [0..<n] s" and ?k = "1023 - n"
  let ?u = "env_init_step n ?t"
  from Suc have IH: "chain (\<lambda>i. env_link (envs ?t i)) (env_free_list ?t) [1024 - n..<1024]"
    "\<forall>i \<in> {1024 - n..<1024}. env_status (envs ?t i) = ENV_FREE \<and> env_id (envs ?t i) = 0" "?t = s\<lparr>envs := envs ?t, env_free_list := env_free_list ?t\<rparr>"
    by (simp_all add: Let_def)
  have k2: "Suc ?k = 1024 - n" using Suc.prems by simp
  have k: "1024 - Suc n = ?k" "Suc ?k = 1024 - n" "[?k..<1024] = ?k # [1024 - n..<1024]"
    using upt_conv_Cons [of ?k 1024] unfolding k2 by simp_all
  have u: "envs ?u = (envs ?t)(?k := (envs ?t ?k)\<lparr>env_status := ENV_FREE, env_id := 0, env_link := env_free_list ?t, env_priority := P3\<rparr>)"
    "env_free_list ?u = Some ?k" "?u = ?t\<lparr>envs := envs ?u, env_free_list := env_free_list ?u\<rparr>"
    by (simp_all add: env_init_step_def Let_def NENV_def upd_env_def)
  have "chain (\<lambda>i. env_link (envs ?u i)) h [1024 - n..<1024] = chain (\<lambda>i. env_link (envs ?t i)) h [1024 - n..<1024]" for h
    by (rule chain_cong) (use k(2) in \<open>auto simp: u(1)\<close>)
  then have "chain (\<lambda>i. env_link (envs ?u i)) (env_free_list ?u) [1024 - Suc n..<1024]"
    using IH(1) unfolding k(1,3) u(2) by (simp add: u(1))
  moreover have "\<forall>i \<in> {1024 - Suc n..<1024}. env_status (envs ?u i) = ENV_FREE \<and> env_id (envs ?u i) = 0"
    using IH(2) k by (auto simp: u(1))
  moreover have "?u = s\<lparr>envs := envs ?u, env_free_list := env_free_list ?u\<rparr>"
    by (subst u(3), subst IH(3)) simp
  ultimately show ?case by (simp add: Let_def)
qed

lemma env_init_ok:
  assumes "env_free_list s = None"
  shows "env_ok (env_init s) [0..<1024]" "live (env_init s) = {}" "i < 1024 \<Longrightarrow> env_id (envs (env_init s) i) = 0"
    "env_init s = s\<lparr>envs := envs (env_init s), env_free_list := env_free_list (env_init s)\<rparr>"
proof -
  note f = env_init_fold [OF assms order_refl, folded NENV_def, folded env_init_def, unfolded Let_def NENV_def]
  have st: "env_status (envs (env_init s) i) = ENV_FREE" if "i < 1024" for i using f that by simp
  then show l: "live (env_init s) = {}" by (auto simp: live_def NENV_def)
  show "env_ok (env_init s) [0..<1024]" using f st l by (auto simp: env_ok_def NENV_def)
  show "env_init s = s\<lparr>envs := envs (env_init s), env_free_list := env_free_list (env_init s)\<rparr>" using f by simp
  show "i < 1024 \<Longrightarrow> env_id (envs (env_init s) i) = 0" using f by simp
qed

section \<open>The invariant holds after start-up\<close>

lemma page_init_fields:
  "let t = fold (\<lambda>i. page_init_step ff (of_nat i)) xs u in pmem t = pmem u \<and> npages t = npages u \<and>
     kern_pgdir t = kern_pgdir u \<and> envs t = envs u \<and> env_free_list t = env_free_list u \<and> cpus t = cpus u \<and>
     this_cpu t = this_cpu u \<and> nic t = nic u \<and> kernel_lock t = kernel_lock u"
  by (induction xs arbitrary: u) (simp_all add: page_init_step_eq upd_page_def Let_def)

lemma page_init_frame:
  assumes "page_init kend s = Ret () t" "page_free_list s = None" "\<And>p. pp_link (pages s p) = None"
  shows "pmem t = pmem s" "npages t = npages s" "kern_pgdir t = kern_pgdir s" "envs t = envs s"
    "env_free_list t = env_free_list s" "cpus t = cpus s" "this_cpu t = this_cpu s" "nic t = nic s"
    "kernel_lock t = kernel_lock s" "p < npages s \<Longrightarrow> pp_ref (pages t p) = 0"
proof -
  obtain va s1 where s1: "boot_alloc kend 0 s = Ret va s1"
    and t: "t = fold (\<lambda>i. page_init_step (va - KERNBASE) (of_nat i)) [0..<unat (npages s1)] s1"
    using assms(1) by (auto simp: page_init_def bindK_eq_Ret PADDR_def split: if_splits)
  have same: "s1 = s\<lparr>nextfree := nextfree s1\<rparr>"
    using s1(1) by (auto simp: boot_alloc_def KADDR_def Let_def bindK_eq_Ret split: if_splits)
  have eq: "pages s1 = pages s" "npages s1 = npages s" "page_free_list s1 = page_free_list s" by (subst same, simp)+
  note f = page_init_fields [of "va - KERNBASE" "[0..<unat (npages s1)]" s1, folded t, unfolded Let_def]
  show "pmem t = pmem s" "npages t = npages s" "kern_pgdir t = kern_pgdir s" "envs t = envs s"
    "env_free_list t = env_free_list s" "cpus t = cpus s" "this_cpu t = this_cpu s" "nic t = nic s" "kernel_lock t = kernel_lock s"
    by ((simp add: f) , (subst same), simp)+
  show "pp_ref (pages t p) = 0" if "p < npages s"
  proof -
    have "\<forall>k < unat (npages s1). pp_ref (pages t (of_nat k)) = 0"
      using page_init_fold [of s1 "unat (npages s1)" "va - KERNBASE", folded t] assms eq by (simp add: Let_def)
    then have "pp_ref (pages t (of_nat (unat p))) = 0" using that eq by (auto simp: word_less_nat_alt)
    then show ?thesis by simp
  qed
qed

text \<open>
  The pages \<^const>\<open>page_init\<close> leaves out, the kernel's directory among them, are the reserved
  ones, and nothing is mapped below \<^const>\<open>UTOP\<close> yet.
\<close>

lemma boot_inv:
  assumes s: "page_init kend s = Ret () t" "page_free_list s = None" "\<And>p. pp_link (pages s p) = None" "env_free_list s = None"
    and np: "npages s \<le> 0x10000" and K: "kern_dir s K" "\<not> usable (nextfree t - KERNBASE) K"
  shows "kernel_inv (env_init t) K {p. p < npages s \<and> \<not> usable (nextfree t - KERNBASE) p} (\<lambda>_. 0)
    (init_list (nextfree t - KERNBASE) (unat (npages s))) [0..<1024]"
proof -
  let ?u = "env_init t" and ?ps = "init_list (nextfree t - KERNBASE) (unat (npages s))"
  note f = page_init_frame [OF s(1-3)]
  have np': "npages s \<le> 0x100000" using np by (rule order_trans) simp
  note fl = page_init_spec [OF s(1-3) np']
  have fe: "env_free_list t = None" using f s(4) by simp
  note e = env_init_ok [OF fe]
  have u: "pmem ?u = pmem t" "pages ?u = pages t" "npages ?u = npages t" "page_free_list ?u = page_free_list t" "kern_pgdir ?u = kern_pgdir t"
    by (subst e(4), simp)+
  have D: "dirs ?u = {}" using e(2) by (simp add: dirs_def)
  have "page_fl ?u ?ps" using fl by (simp add: page_fl_def u)
  moreover have "tables_ok ?u {}" by (auto simp: tables_ok_def is_tab_def)
  moreover have re: "refs ?u {} p = {}" for p
  proof -
    have "\<not> refers ?u {} r p" for r by (cases r) (auto simp: is_tab_def)
    then show ?thesis by (simp add: refs_def)
  qed
  moreover have "refcounts ?u {} (\<lambda>_. 0)" using f(10) by (simp add: refcounts_def re u f(2))
  moreover have "kern_dir ?u K" using K(1) entry_pmem_cong [of ?u s] by (simp add: kern_dir_def u f)
  ultimately show ?thesis using e(1,2) K np
    by (auto simp: kernel_inv_def memory_inv_def D u f reserved_def set_init_list kern_dir_def)
qed

section \<open>Concrete states\<close>

text \<open>
  A machine with 272 pages whose kernel image ends at \<^verbatim>\<open>0xF0101000\<close> and whose page directory
  is page \<^verbatim>\<open>0x100\<close>, all zero: after the free list and the environment array were set up
  (\<open>start_state\<close>), after one environment was created (\<open>one_env\<close>), and running it in user mode
  (\<open>user_state\<close>).
\<close>

definition state_of :: "('a, kstate) kres \<Rightarrow> kstate" where
  "state_of m = (case m of Ret a s \<Rightarrow> s | Leave c s \<Rightarrow> s | Panic m \<Rightarrow> zero_state)"

definition reset_state :: kstate where
  "reset_state = zero_state\<lparr>npages := 0x110, kern_pgdir := 0xF0100000\<rparr>"

definition start_state :: kstate where
  "start_state = env_init (state_of (page_init 0xF0101000 reset_state))"

definition start_reserved :: "u32 set" where
  "start_reserved = {p. p < 0x110 \<and> \<not> usable 0x101000 p}"

lemma reset_fields [simp]:
  "page_free_list reset_state = None" "pp_link (pages reset_state p) = None" "env_free_list reset_state = None"
  "npages reset_state = 0x110" "pmem reset_state = (\<lambda>_. 0)" "kern_pgdir reset_state = 0xF0100000" "nic reset_state = zero_nic"
  "cpus reset_state = (\<lambda>_. zero_cpu)" "this_cpu reset_state = 0" "envs reset_state = (\<lambda>_. zero_env)"
  by (simp_all add: reset_state_def zero_state_def)

lemma kern_dir_reset: "kern_dir reset_state 0x100"
  by (simp add: kern_dir_def kpage_def KERNBASE_def page2pa_def entry_def ld32_def present_def)

lemma page_init_reset: "\<exists>t. page_init 0xF0101000 reset_state = Ret () t \<and> nextfree t = 0xF0101000"
proof -
  have nf: "nextfree (fold (\<lambda>i. page_init_step ff (of_nat i)) xs u) = nextfree u" for ff xs u
    by (induction xs arbitrary: u) (simp_all add: page_init_step_eq upd_page_def)
  show ?thesis
    by (simp add: page_init_def boot_alloc_def KADDR_def PADDR_def PGSIZE_def KERNBASE_def PGNUM_def
       ROUNDUP_def ROUNDDOWN_def nf Let_def) (simp add: reset_state_def zero_state_def)
qed

lemma init_list_start: "init_list 0x101000 272 = 0x10F # 0x10E # 0x10D # 0x10C # init_list 0x101000 268"
proof -
  have i: "init_list 0x101000 (Suc m) = of_nat m # init_list 0x101000 m" if "m \<in> {268, 269, 270, 271}" for m
    using that by (auto simp: init_list_Suc usable_def)
  show ?thesis using i [of 271] i [of 270] i [of 269] i [of 268] by simp
qed

lemma start_inv:
  "kernel_inv start_state 0x100 start_reserved (\<lambda>_. 0) (0x10F # 0x10E # 0x10D # 0x10C # init_list 0x101000 268) [0..<1024]"
proof -
  obtain t where t: "page_init 0xF0101000 reset_state = Ret () t" "nextfree t = 0xF0101000" using page_init_reset by blast
  have "kernel_inv (env_init t) 0x100 {p. p < npages reset_state \<and> \<not> usable (nextfree t - KERNBASE) p} (\<lambda>_. 0)
    (init_list (nextfree t - KERNBASE) (unat (npages reset_state))) [0..<1024]"
    by (rule boot_inv [OF t(1) _ _ _ _ kern_dir_reset]) (simp_all add: t(2) KERNBASE_def usable_def)
  then show ?thesis by (simp add: t(2) KERNBASE_def start_state_def t(1) state_of_def start_reserved_def init_list_start [simplified])
qed

lemma start_fields: "curenv start_state = None" "nic start_state = zero_nic" "this_cpu start_state = 0" "npages start_state = 0x110"
proof -
  obtain t where t: "page_init 0xF0101000 reset_state = Ret () t" using page_init_reset by blast
  note f = page_init_frame [OF t]
  have u: "start_state = env_init t" by (simp add: start_state_def t state_of_def)
  have fe: "env_free_list t = None" using f by simp
  have "cpus start_state = cpus t" "nic start_state = nic t" "this_cpu start_state = this_cpu t" "npages start_state = npages t"
    unfolding u by (subst env_init_ok(4) [OF fe], simp)+
  then show "curenv start_state = None" "nic start_state = zero_nic" "this_cpu start_state = 0" "npages start_state = 0x110"
    using f by (simp_all add: curenv_def zero_cpu_def)
qed

definition one_env :: kstate where
  "one_env = state_of (env_alloc 0 start_state)"

lemma one_env_inv:
  "env_alloc 0 start_state = Ret (0, Some 0) one_env" 
  "kernel_inv one_env 0x100 start_reserved (\<lambda>_. 0) (0x10E # 0x10D # 0x10C # init_list 0x101000 268) [1..<1024]"
  "envs one_env = (envs start_state)(0 := fresh_env 0 0 0x10F (envs start_state 0))" "live one_env = {0}" "curenv one_env = None" "dirs one_env = {0x10F}"
  "\<forall>i. uslot i \<longrightarrow> \<not> present (entry one_env 0x10F i)" "npages one_env = 0x110" "this_cpu one_env = 0" "nic one_env = zero_nic"
proof -
  obtain u where u: "page_init 0xF0101000 reset_state = Ret () u" using page_init_reset by blast
  then have l: "live start_state = {}" using env_init_ok(2) page_init_frame(5) [OF u] by (simp add: start_state_def state_of_def)
  have up: "[0..<1024] = (0 :: nat) # [1..<1024]" using upt_conv_Cons [of 0 1024] by (simp only: One_nat_def zero_less_numeral)
  have d: "dirs start_state = {}" using l by (simp add: dirs_def)
  note a = env_alloc_inv [OF start_inv [unfolded up], of 0]
  then obtain t where t: "env_alloc 0 start_state = Ret (0, Some 0) t" by (elim exE conjE)
  then have "one_env = t" by (simp add: one_env_def state_of_def)
  with a t d show "env_alloc 0 start_state = Ret (0, Some 0) one_env" 
    "kernel_inv one_env 0x100 start_reserved (\<lambda>_. 0) (0x10E # 0x10D # 0x10C # init_list 0x101000 268) [1..<1024]"
    "envs one_env = (envs start_state)(0 := fresh_env 0 0 0x10F (envs start_state 0))" "live one_env = {0}" "curenv one_env = None" "dirs one_env = {0x10F}"
    "\<forall>i. uslot i \<longrightarrow> \<not> present (entry one_env 0x10F i)" "npages one_env = 0x110" "this_cpu one_env = 0" "nic one_env = zero_nic"
    using l start_fields d by simp_all
qed

text \<open>Where no page table exists only directories are referenced.\<close>

lemma unmapped_refs:
  assumes inv: "memory_inv s Ds (\<lambda>_. 0) ps" and np: "\<And>D i. D \<in> Ds \<Longrightarrow> uslot i \<Longrightarrow> \<not> present (entry s D i)" and p: "p < npages s"
  shows "unat (pp_ref (pages s p)) \<le> 1"
proof -
  have "\<not> is_tab s Ds D i T" for D i T using np by (auto simp: is_tab_def)
  then have "refs s Ds p \<subseteq> {RDir p}"
    by (auto simp: refs_def) (metis refers.elims(2))
  then have "card (refs s Ds p) \<le> 1" by (metis card_mono finite.emptyI finite_insert is_singletonI is_singleton_altdef)
  then show ?thesis using memory_invD(3) [OF inv] p by (simp add: refcounts_def)
qed

lemma one_env_refs: "p < 0x110 \<Longrightarrow> unat (pp_ref (pages one_env p)) \<le> 1"
  using unmapped_refs [OF kernel_invD(1) [OF one_env_inv(2)], of p] one_env_inv(6,7,8) by simp

definition user_state :: kstate where
  "user_state = state_of (env_run 0 (one_env\<lparr>kernel_lock := \<lparr>locked = 1, lk_name = [], lk_cpu = Some 0\<rparr>\<rparr>))"

lemma user_state_inv:
  "sys_inv 0x100 start_reserved (\<lambda>_. 0) user_state" "curenv user_state = Some 0" "cr3_ok user_state"
  "env_status (envs user_state 0) = ENV_RUNNING"
  "nic user_state = zero_nic" "npages user_state = 0x110" "p < 0x110 \<Longrightarrow> pp_ref (pages user_state p) \<noteq> 0xFFFF"
  "pmem user_state = pmem one_env" "env_tf (envs user_state 0) = env_tf (fresh_env 0 0 0x10F zero_env)"
  "env_dir user_state 0 = 0x10F" "env_pgdir (envs user_state 0) = kpage 0x10F"
  "page_fl user_state (0x10E # 0x10D # 0x10C # init_list 0x101000 268)" "this_cpu user_state = 0"
proof -
  let ?s = "one_env\<lparr>kernel_lock := \<lparr>locked = 1, lk_name = [], lk_cpu = Some 0\<rparr>\<rparr>"
  have h: "holding (this_cpu ?s) (kernel_lock ?s)" using one_env_inv(9) by (simp add: holding_def)
  have dir: "env_pgdir (envs ?s 0) = kpage 0x10F" using one_env_inv(3) by (simp add: fresh_env_def)
  obtain t where t: "env_run 0 ?s = Leave (RunEnv 0) t" "env_tf (envs t 0) = env_tf (envs ?s 0)" "pmem t = pmem ?s" "cr3 t = page2pa 0x10F"
    "nic t = nic ?s" "npages t = npages ?s" "pages t = pages ?s" "env_pgdir (envs t 0) = kpage 0x10F" "page_free_list t = page_free_list ?s" "this_cpu t = this_cpu ?s"
    using env_run_returns [OF dir _ h] by auto
  have u: "user_state = t" by (simp add: user_state_def t state_of_def)
  have ok: "kernel_ok 0x100 start_reserved (\<lambda>_. 0) ?s"
    by (rule kernel_ok_cong [of _ _ _ one_env]) (use one_env_inv(2) in \<open>auto simp: kernel_ok_def\<close>)
  have l: "0 \<in> live ?s" using one_env_inv(4) by (simp add: live_def)
  have li: "left_inv 0x100 start_reserved (\<lambda>_. 0) (RunEnv 0) t" using env_run_keeps [OF ok l] t(1) by simp
  show "sys_inv 0x100 start_reserved (\<lambda>_. 0) user_state" "curenv user_state = Some 0" "cr3_ok user_state"
    "env_status (envs user_state 0) = ENV_RUNNING"
    using li u by (simp_all add: left_inv_def ran_def cr3_ok_def)
  show "nic user_state = zero_nic" "npages user_state = 0x110" "p < 0x110 \<Longrightarrow> pp_ref (pages user_state p) \<noteq> 0xFFFF"
    "pmem user_state = pmem one_env" "env_pgdir (envs user_state 0) = kpage 0x10F"
    using t u one_env_inv(8,10) one_env_refs [of p] by auto
  show "env_dir user_state 0 = 0x10F" using t(8) u by (simp add: env_dir_def PGNUM_def)
  show "env_tf (envs user_state 0) = env_tf (fresh_env 0 0 0x10F zero_env)"
    using t(2) u one_env_inv(3) by (simp add: fresh_env_def)
  show "page_fl user_state (0x10E # 0x10D # 0x10C # init_list 0x101000 268)"
    using t(6,7,9) u memory_invD(1) [OF kernel_invD(1) [OF one_env_inv(2)]] by (simp add: page_fl_def)
  show "this_cpu user_state = 0" using t(10) u one_env_inv(9) by simp
qed

text \<open>Mapping a page where there is no page table yet.\<close>

lemma page_insert_fresh:
  fixes perm :: u32
  assumes fl: "page_fl s (q # qs)" and np: "\<not> present (entry s D (PDX va))" and D: "D < 0x100000" "D \<noteq> q" and pp: "pp \<noteq> q"
  defines "t \<equiv> set_entry q (PTX va) (mkpte pp perm) (upd_page pp (\<lambda>p. p\<lparr>pp_ref := pp_ref p + 1\<rparr>) (new_table D (PDX va) q qs s))"
  shows "page_insert (kpage D) pp va perm s = Ret 0 t" "entry t D (PDX va) = mkpte q (PTE_U OR PTE_W)"
    "pte t D va = mkpte pp perm" "PDX va' = PDX va \<Longrightarrow> PTX va' \<noteq> PTX va \<Longrightarrow> pte t D va' = 0"
proof -
  have q: "q < 0x100000" using page_flD [OF fl, of q] by simp
  have e0: "entry (new_table D (PDX va) q qs s) q (PTX va) = 0"
    using entry_new_table [OF PDX_less PTX_less q q D(1)] D(2) by simp
  have "PTE_ADDR (page2pa pp) OR perm OR PTE_P = mkpte pp perm" by (simp add: mkpte_def or.assoc)
  moreover have "\<not> present 0" by (simp add: present_bit)
  ultimately show "page_insert (kpage D) pp va perm s = Ret 0 t"
    using pgdir_walk_create [OF np fl D(1)] e0 by (simp add: page_insert_def Let_def t_def)
  show e: "entry t D (PDX va) = mkpte q (PTE_U OR PTE_W)"
    using D q by (simp add: t_def entry_set_entry PTX_less PDX_less new_table_def)
  have "PTE_U OR PTE_W < 4096" by (simp add: layout_defs)
  note m = mkpte_simps [OF q this]
  show "pte t D va = mkpte pp perm"
    unfolding pte_def table_def e using m q by (simp add: t_def entry_set_entry PTX_less)
  show "pte t D va' = 0" if v: "PDX va' = PDX va" "PTX va' \<noteq> PTX va"
    unfolding pte_def table_def v(1) e
    using m q v(2) D entry_new_table [OF PDX_less PTX_less q q D(1)] by (simp add: t_def entry_set_entry PTX_less)
qed

text \<open>
  The environment back in the kernel, holding the lock (\<open>kernel_state\<close>), after it has mapped
  the page below its stack top (\<open>stack_state\<close>), and after it has mapped its exception stack
  and registered an upcall (\<open>upcall_state\<close>).
\<close>

definition kernel_state :: kstate where
  "kernel_state = user_state\<lparr>kernel_lock := \<lparr>locked = 1, lk_name = [], lk_cpu = Some 0\<rparr>\<rparr>"

definition stack_state :: kstate where
  "stack_state = state_of (sys_page_alloc 0 (USTACKTOP - PGSIZE) 7 kernel_state)"

definition upcall_state :: kstate where
  "upcall_state = upd_env 0 (\<lambda>x. x\<lparr>env_pgfault_upcall := 0x800020\<rparr>)
     (state_of (sys_page_alloc 0 (UXSTACKTOP - PGSIZE) 7 kernel_state))"

lemma kernel_state_inv:
  "sys_inv 0x100 start_reserved (\<lambda>_. 0) kernel_state" "curenv kernel_state = Some 0" "cr3_ok kernel_state"
  "nic kernel_state = zero_nic" "npages kernel_state = 0x110" "p < 0x110 \<Longrightarrow> pp_ref (pages kernel_state p) \<noteq> 0xFFFF"
  "holding (this_cpu kernel_state) (kernel_lock kernel_state)" "env_dir kernel_state 0 = 0x10F"
  "page_fl kernel_state (0x10E # 0x10D # 0x10C # init_list 0x101000 268)" "0 \<in> live kernel_state"
  "uslot i \<Longrightarrow> \<not> present (entry kernel_state 0x10F i)"
proof -
  note u = user_state_inv
  have f: "envs kernel_state = envs user_state" "curenv kernel_state = curenv user_state" "pmem kernel_state = pmem user_state"
    "page_free_list kernel_state = page_free_list user_state" "pages kernel_state = pages user_state" "npages kernel_state = npages user_state"
    "cr3 kernel_state = cr3 user_state" "this_cpu kernel_state = this_cpu user_state" "nic kernel_state = nic user_state"
    by (simp_all add: kernel_state_def curenv_def)
  show "curenv kernel_state = Some 0" "nic kernel_state = zero_nic" "npages kernel_state = 0x110"
    "env_dir kernel_state 0 = 0x10F" using u f by (simp_all add: env_dir_def)
  show "cr3_ok kernel_state" using u(3) f by (simp add: cr3_ok_def env_dir_def)
  show "pp_ref (pages kernel_state p) \<noteq> 0xFFFF" if "p < 0x110" using u(7) [OF that] f by simp
  show "holding (this_cpu kernel_state) (kernel_lock kernel_state)" using u(13) f by (simp add: holding_def kernel_state_def)
  have ok: "kernel_ok 0x100 start_reserved (\<lambda>_. 0) kernel_state"
    by (rule kernel_ok_cong [of _ _ _ user_state]) (use u(1) in \<open>auto simp: sys_inv_def kernel_state_def\<close>)
  then show s: "sys_inv 0x100 start_reserved (\<lambda>_. 0) kernel_state"
    using u(1) f by (simp add: sys_inv_def cur_ok_def live_def)
  show "0 \<in> live kernel_state" using s f u by (simp add: sys_inv_def cur_ok_def)
  show "page_fl kernel_state (0x10E # 0x10D # 0x10C # init_list 0x101000 268)" using u(12) f by (simp add: page_fl_def)
  show "uslot i \<Longrightarrow> \<not> present (entry kernel_state 0x10F i)"
    using one_env_inv(7) u(8) f(3) entry_pmem_cong [of kernel_state one_env] by simp
qed

lemma page_alloc_call:
  assumes va: "PDX va = 954" "\<not> bad_va va"
  obtains t where "sys_page_alloc 0 va 7 kernel_state = Ret 0 t" "curenv t = Some 0" "envs t = envs kernel_state"
    "kernel_lock t = kernel_lock kernel_state" "this_cpu t = 0" "cr3 t = cr3 kernel_state" "nic t = zero_nic" "npages t = 0x110"
    "entry t 0x10F (PDX va) = mkpte 0x10D (PTE_U OR PTE_W)" "pte t 0x10F va = mkpte 0x10E 7"
    "\<And>va'. PDX va' = PDX va \<Longrightarrow> PTX va' \<noteq> PTX va \<Longrightarrow> pte t 0x10F va' = 0"
    "\<And>p. p < 0x110 \<Longrightarrow> pp_ref (pages t p) \<noteq> 0xFFFF"
proof -
  let ?qs = "0x10D # 0x10C # init_list 0x101000 268"
  note k = kernel_state_inv
  let ?a = "alloc_state True 0x10E ?qs kernel_state"
  have al: "page_alloc True kernel_state = Ret (Some 0x10E) ?a" by (rule page_alloc_cons [OF k(9)])
  have fl: "page_fl ?a ?qs" by (rule alloc_state_fl [OF k(9)])
  have "entry ?a 0x10F (PDX va) = entry kernel_state 0x10F (PDX va)"
    using entry_alloc_state [of "PDX va"] by (simp add: PDX_less)
  then have np: "\<not> present (entry ?a 0x10F (PDX va))" using k(11) [of 954] unfolding va(1) by simp
  let ?t = "set_entry 0x10D (PTX va) (mkpte 0x10E 7) (upd_page 0x10E (\<lambda>p. p\<lparr>pp_ref := pp_ref p + 1\<rparr>)
     (new_table 0x10F (PDX va) 0x10D (0x10C # init_list 0x101000 268) ?a))"
  note ins = page_insert_fresh [OF fl np, where pp = "0x10E" and perm = 7]
  have e: "env_pgdir (envs ?a 0) = kpage 0x10F" using user_state_inv(11) by (simp add: alloc_state_def kernel_state_def upd_page_def)
  have "sys_page_alloc 0 va 7 kernel_state = Ret 0 ?t"
    using k(2) al ins(1) e va(2)
    by (simp add: sys_page_alloc_def with_env_def envid2env_def bad_perm_def layout_values PTE_U_def PTE_P_def)
  then show thesis
  proof (rule that)
    show "entry ?t 0x10F (PDX va) = mkpte 0x10D (PTE_U OR PTE_W)" "pte ?t 0x10F va = mkpte 0x10E 7"
      "PDX va' = PDX va \<Longrightarrow> PTX va' \<noteq> PTX va \<Longrightarrow> pte ?t 0x10F va' = 0" for va' using ins(2,3,4) by simp_all
    have "pp_ref (pages kernel_state 0x10E) = 0" using page_flD [OF k(9), of "0x10E"] by simp
    then show "pp_ref (pages ?t p) \<noteq> 0xFFFF" if "p < 0x110" for p
      using k(6) [OF that] by (simp add: upd_page_def alloc_state_def)
    show "curenv ?t = Some 0" "envs ?t = envs kernel_state" "kernel_lock ?t = kernel_lock kernel_state" "this_cpu ?t = 0"
      "cr3 ?t = cr3 kernel_state" "nic ?t = zero_nic" "npages ?t = 0x110"
      using k(2,4,5) user_state_inv(13)
      by (simp_all add: curenv_def set_entry_def upd_page_def new_table_def alloc_state_def kernel_state_def)
  qed
qed

lemma mapped_call:
  assumes "PDX va = 954" "va < ULIM" "entry t 0x10F (PDX va) = mkpte 0x10D (PTE_U OR PTE_W)" "pte t 0x10F va = mkpte 0x10E 7"
  shows "granted t 0x10F (PTE_U OR PTE_W) va" "entry t 0x10F (PDX va) AND PTE_W \<noteq> 0" "table t 0x10F va = 0x10D"
proof -
  have "present (entry t 0x10F (PDX va))" using assms(3) by (simp add: mkpte_def present_bit bit_or_iff PTE_P_def)
  then show "granted t 0x10F (PTE_U OR PTE_W) va"
    using assms(2,4) by (simp add: granted_def mkpte_def page2pa_def PTE_U_def PTE_W_def PTE_P_def)
  show "entry t 0x10F (PDX va) AND PTE_W \<noteq> 0"
    unfolding assms(3) by (simp add: mkpte_def page2pa_def PTE_ADDR_def PTE_U_def PTE_W_def PTE_P_def)
  show "table t 0x10F va = 0x10D" unfolding table_def assms(3) by (rule mkpte_simps) (simp_all add: PTE_U_def PTE_W_def)
qed

lemma stack_state_inv:
  "sys_inv 0x100 start_reserved (\<lambda>_. 0) stack_state" "curenv stack_state = Some 0" "cr3 stack_state = page2pa 0x10F"
  "env_pgdir (envs stack_state 0) = kpage 0x10F" "granted stack_state 0x10F (PTE_U OR PTE_W) (USTACKTOP - PGSIZE)"
  "table stack_state 0x10F (USTACKTOP - PGSIZE) = 0x10D" "npages stack_state = 0x110" "pte stack_state 0x10F USTACKTOP = 0"
  "p < 0x110 \<Longrightarrow> pp_ref (pages stack_state p) \<noteq> 0xFFFF"
proof -
  let ?va = "USTACKTOP - PGSIZE"
  have va: "PDX ?va = 954" "\<not> bad_va ?va" by (simp_all add: PDX_def bad_va_def layout_values PGSIZE_def)
  obtain t where t: "sys_page_alloc 0 ?va 7 kernel_state = Ret 0 t" "curenv t = Some 0" "envs t = envs kernel_state"
    "cr3 t = cr3 kernel_state" "npages t = 0x110"
    "entry t 0x10F (PDX ?va) = mkpte 0x10D (PTE_U OR PTE_W)" "pte t 0x10F ?va = mkpte 0x10E 7"
    "\<And>va'. PDX va' = PDX ?va \<Longrightarrow> PTX va' \<noteq> PTX ?va \<Longrightarrow> pte t 0x10F va' = 0"
    "\<And>p. p < 0x110 \<Longrightarrow> pp_ref (pages t p) \<noteq> 0xFFFF"
    using page_alloc_call [OF va] by metis
  have u: "stack_state = t" by (simp add: stack_state_def t(1) state_of_def)
  note k = kernel_state_inv
  show "sys_inv 0x100 start_reserved (\<lambda>_. 0) stack_state" using sys_page_alloc_keeps [OF k(1), of 0 ?va 7] t(1) u by simp
  show "curenv stack_state = Some 0" "npages stack_state = 0x110"
    "p < 0x110 \<Longrightarrow> pp_ref (pages stack_state p) \<noteq> 0xFFFF" using t u by simp_all
  show "cr3 stack_state = page2pa 0x10F" using t(4) u k(2,3,8) by (simp add: cr3_ok_def)
  show "env_pgdir (envs stack_state 0) = kpage 0x10F" using t(3) u user_state_inv(11) by (simp add: kernel_state_def)
  have "?va < ULIM" by (simp add: layout_values PGSIZE_def)
  from mapped_call [OF va(1) this t(6,7)]
  show "granted stack_state 0x10F (PTE_U OR PTE_W) ?va" "table stack_state 0x10F ?va = 0x10D" by (simp_all add: u)
  have "PDX USTACKTOP = PDX ?va" "PTX USTACKTOP \<noteq> PTX ?va" by (simp_all add: PDX_def PTX_def layout_values PGSIZE_def)
  then show "pte stack_state 0x10F USTACKTOP = 0" unfolding u by (rule t(8))
qed

lemma upcall_state_inv:
  "fault_inv 0x100 start_reserved (\<lambda>_. 0) 0 upcall_state" "holding (this_cpu upcall_state) (kernel_lock upcall_state)"
  "env_pgfault_upcall (envs upcall_state 0) = 0x800020" "env_dir upcall_state 0 = 0x10F" "env_pgdir (envs upcall_state 0) = kpage 0x10F"
  "env_tf (envs upcall_state 0) = env_tf (fresh_env 0 0 0x10F zero_env)"
  "granted upcall_state 0x10F (PTE_U OR PTE_W) (UXSTACKTOP - PGSIZE)"
  "entry upcall_state 0x10F (PDX (UXSTACKTOP - PGSIZE)) AND PTE_W \<noteq> 0"
proof -
  have va: "PDX (UXSTACKTOP - PGSIZE) = 954" "\<not> bad_va (UXSTACKTOP - PGSIZE)"
    by (simp_all add: PDX_def bad_va_def layout_values PGSIZE_def)
  obtain t where t: "sys_page_alloc 0 (UXSTACKTOP - PGSIZE) 7 kernel_state = Ret 0 t" "curenv t = Some 0" "envs t = envs kernel_state"
    "kernel_lock t = kernel_lock kernel_state" "this_cpu t = 0" "cr3 t = cr3 kernel_state"
    "entry t 0x10F (PDX (UXSTACKTOP - PGSIZE)) = mkpte 0x10D (PTE_U OR PTE_W)" "pte t 0x10F (UXSTACKTOP - PGSIZE) = mkpte 0x10E 7"
    using page_alloc_call [OF va] by metis
  note k = kernel_state_inv
  have u: "upcall_state = upd_env 0 (\<lambda>x. x\<lparr>env_pgfault_upcall := 0x800020\<rparr>) t"
    by (simp add: upcall_state_def t(1) state_of_def)
  have st: "sys_inv 0x100 start_reserved (\<lambda>_. 0) t"
    using sys_page_alloc_keeps [OF k(1), of 0 "UXSTACKTOP - PGSIZE" 7] t(1) by simp
  have s: "sys_inv 0x100 start_reserved (\<lambda>_. 0) upcall_state" unfolding u using st by (intro upd_env_keeps) auto
  have e: "envs upcall_state 0 = (envs kernel_state 0)\<lparr>env_pgfault_upcall := 0x800020\<rparr>" "curenv upcall_state = Some 0"
    "cr3 upcall_state = cr3 kernel_state" "this_cpu upcall_state = 0" "kernel_lock upcall_state = kernel_lock kernel_state"
    using t by (simp_all add: u upd_env_def curenv_def)
  show d: "env_dir upcall_state 0 = 0x10F" using k(8) e by (simp add: env_dir_def)
  have "cr3_ok upcall_state" using k(2,3,8) d e by (simp add: cr3_ok_def)
  then show "fault_inv 0x100 start_reserved (\<lambda>_. 0) 0 upcall_state"
    using s e(2) by (simp add: fault_inv_def sys_inv_def cur_ok_def)
  show "holding (this_cpu upcall_state) (kernel_lock upcall_state)" using k(7) e by (simp add: holding_def kernel_state_def)
  show "env_pgfault_upcall (envs upcall_state 0) = 0x800020" "env_pgdir (envs upcall_state 0) = kpage 0x10F"
    "env_tf (envs upcall_state 0) = env_tf (fresh_env 0 0 0x10F zero_env)"
    using e(1) user_state_inv(9,11) by (simp_all add: kernel_state_def)
  have en: "entry upcall_state = entry t" by (rule entry_pmem_cong) (simp add: u)
  then have pt: "pte upcall_state 0x10F (UXSTACKTOP - PGSIZE) = mkpte 0x10E 7" using t(8) pte_cong [OF en] by simp
  have "UXSTACKTOP - PGSIZE < ULIM" by (simp add: layout_values PGSIZE_def)
  from mapped_call [OF va(1) this, of upcall_state] t(7) en pt
  show "granted upcall_state 0x10F (PTE_U OR PTE_W) (UXSTACKTOP - PGSIZE)"
    "entry upcall_state 0x10F (PDX (UXSTACKTOP - PGSIZE)) AND PTE_W \<noteq> 0" by simp_all
qed

text \<open>Two environments, the first one current, the second one its child and waiting for a message.\<close>

definition fork_state :: kstate where
  "fork_state = set_curenv (Some 0) one_env"

definition pair_state :: kstate where
  "pair_state = upd_env 1 (\<lambda>x. x\<lparr>env_ipc_recving := True, env_ipc_dstva := UTOP, env_status := ENV_NOT_RUNNABLE\<rparr>)
     (state_of (env_alloc 0x1000 fork_state))"

lemma start_ids: "i < 1024 \<Longrightarrow> env_id (envs start_state i) = 0"
proof -
  obtain t where t: "page_init 0xF0101000 reset_state = Ret () t" using page_init_reset by blast
  have "env_free_list t = None" using page_init_frame [OF t] by simp
  then show "i < 1024 \<Longrightarrow> env_id (envs start_state i) = 0" using env_init_ok(3) t by (simp add: start_state_def state_of_def)
qed

lemma fork_state_inv:
  "kernel_inv fork_state 0x100 start_reserved (\<lambda>_. 0) (0x10E # 0x10D # 0x10C # init_list 0x101000 268) (1 # [2..<1024])"
  "curenv fork_state = Some 0" "live fork_state = {0}" "dirs fork_state = {0x10F}" "npages fork_state = 0x110"
proof -
  have "kernel_inv fork_state 0x100 start_reserved (\<lambda>_. 0) (0x10E # 0x10D # 0x10C # init_list 0x101000 268) [1..<1024]"
    by (rule kernel_inv_cong(1) [OF _ _ _ _ _ _ _ one_env_inv(2)]) (simp_all add: fork_state_def)
  moreover have "[1..<1024] = (1 :: nat) # [2..<1024]" using upt_conv_Cons [of 1 1024] by (simp add: numeral_2_eq_2 del: upt_rec_numeral)
  ultimately show "kernel_inv fork_state 0x100 start_reserved (\<lambda>_. 0) (0x10E # 0x10D # 0x10C # init_list 0x101000 268) (1 # [2..<1024])" by simp
  show "curenv fork_state = Some 0" "live fork_state = {0}" "dirs fork_state = {0x10F}" "npages fork_state = 0x110"
    using one_env_inv(4,6,8) by (simp_all add: fork_state_def live_def dirs_def env_dir_def)
qed

lemma pair_state_inv:
  "sys_inv 0x100 start_reserved (\<lambda>_. 0) pair_state" "curenv pair_state = Some 0" "live pair_state = {0, 1}"
  "env_id (envs pair_state 0) = 0x1000" "env_id (envs pair_state 1) = 0x1001" "env_ipc_recving (envs pair_state 1)"
  "env_ipc_dstva (envs pair_state 1) = UTOP"
proof -
  let ?qs = "0x10D # 0x10C # init_list 0x101000 268"
  note al = env_alloc_inv [OF fork_state_inv(1), of "0x1000"]
  then obtain t where t: "env_alloc 0x1000 fork_state = Ret (0, Some 1) t" by (elim exE conjE)
  with al have k: "kernel_inv t 0x100 start_reserved (\<lambda>_. 0) ?qs [2..<1024]"
    "envs t = (envs fork_state)(1 := fresh_env 1 0x1000 0x10E (envs fork_state 1))" "live t = insert 1 (live fork_state)"
    "curenv t = curenv fork_state" by auto
  let ?g = "\<lambda>x. x\<lparr>env_ipc_recving := True, env_ipc_dstva := UTOP, env_status := ENV_NOT_RUNNABLE\<rparr>"
  have p: "pair_state = upd_env 1 ?g t" by (simp add: pair_state_def t state_of_def)
  note lf = fork_state_inv(3)
  have c: "curenv t = Some 0" using k(4) by (simp add: fork_state_def)
  have st: "env_status (envs t 1) \<noteq> ENV_FREE" by (simp add: k(2) fresh_env_def)
  have "kernel_ok 0x100 start_reserved (\<lambda>_. 0) t" using k(1) by (auto simp: kernel_ok_def)
  then have "sys_inv 0x100 start_reserved (\<lambda>_. 0) t" using k(3) lf c by (simp add: sys_inv_def cur_ok_def)
  then show "sys_inv 0x100 start_reserved (\<lambda>_. 0) pair_state" unfolding p using st by (intro upd_env_keeps) auto
  show "curenv pair_state = Some 0" using c by (simp add: p)
  show "live pair_state = {0, 1}" using k(3) lf st by (auto simp: p live_def)
  have e: "envs fork_state = envs one_env" by (simp add: fork_state_def)
  have i: "env_id (envs start_state 0) = 0" "env_id (envs start_state 1) = 0" using start_ids by simp_all
  show "env_id (envs pair_state 0) = 0x1000" "env_id (envs pair_state 1) = 0x1001" "env_ipc_recving (envs pair_state 1)"
    "env_ipc_dstva (envs pair_state 1) = UTOP"
    using i by (simp_all add: p k(2) e one_env_inv(3) fresh_env_def next_env_id_def ENVGENSHIFT_def NENV_def Let_def)
qed

lemma pair_state_refs:
  assumes "p < npages pair_state"
  shows "pp_ref (pages pair_state p) \<noteq> 0xFFFF"
proof -
  note al = env_alloc_inv [OF fork_state_inv(1), of "0x1000"]
  then obtain t where t: "env_alloc 0x1000 fork_state = Ret (0, Some 1) t" by (elim exE conjE)
  with al fork_state_inv(4) have k: "kernel_inv t 0x100 start_reserved (\<lambda>_. 0) (0x10D # 0x10C # init_list 0x101000 268) [2..<1024]"
    "dirs t = {0x10E, 0x10F}" "\<And>a. PGNUM a \<noteq> 0x10E \<Longrightarrow> pmem t a = pmem fork_state a" "\<forall>i. uslot i \<longrightarrow> \<not> present (entry t 0x10E i)"
    by (auto)
  have "\<not> present (entry t 0x10F i)" if "uslot i" for i
  proof -
    have "i < 1024" by (rule order_less_trans [OF that]) simp
    then have "entry t 0x10F i = entry fork_state 0x10F i" by (intro entry_other_page [of "0x10E"] k(3)) simp_all
    moreover have "entry fork_state = entry one_env" by (rule entry_pmem_cong) (simp add: fork_state_def)
    ultimately show ?thesis using one_env_inv(7) that by simp
  qed
  with k(4) have "\<not> present (entry t D i)" if "D \<in> dirs t" "uslot i" for D i using that k(2) by auto
  from unmapped_refs [OF kernel_invD(1) [OF k(1)] this, of p] show ?thesis using assms by (auto simp: pair_state_def t state_of_def)
qed

end
