(* ===== verification/Memprops.thy ===== *)
theory Memprops
  imports Boot
begin

text \<open>Properties of the physical page allocator, the page tables and the checks on user memory.\<close>

section \<open>The page allocator\<close>

text \<open>
  C27: the boot-time initialisation puts exactly the usable pages on the free list.
\<close>

theorem page_init_avail:
  assumes "page_init kend s = Ret () t" "page_free_list s = None"
    "\<And>p. pp_link (pages s p) = None" "npages s \<le> 0x100000"
  shows "page_inv t \<and> page_avail t = {p. p < npages s \<and> usable (nextfree t - KERNBASE) p}"
proof -
  have fl: "page_fl t (init_list (nextfree t - KERNBASE) (unat (npages s)))"
    using assms by (rule page_init_spec)
  have "(\<exists>k < unat n. p = of_nat k) \<longleftrightarrow> p < n" for p n :: u32
    using word_of_nat_less_u32 [of _ n] by (auto simp: word_less_nat_alt intro: exI [of _ "unat p"])
  then show ?thesis
    using page_avail_eq [OF fl] fl by (auto simp: page_inv_def set_init_list)
qed

theorem page_init_avail_witness:
  "\<exists>t. page_init 0xF0001000 (zero_state\<lparr>npages := 3, kern_pgdir := 0xF0000000\<rparr>) = Ret () t \<and>
     page_avail t = {1, 2}"
proof -
  let ?s = "zero_state\<lparr>npages := 3, kern_pgdir := 0xF0000000\<rparr>"
  obtain t where t: "page_init 0xF0001000 ?s = Ret () t"
    by (simp add: page_init_def boot_alloc_def KADDR_def PADDR_def zero_state_def PGSIZE_def KERNBASE_def PGNUM_def
       ROUNDUP_def ROUNDDOWN_def)
  have "page_avail t = {p. p < npages ?s \<and> usable (nextfree t - KERNBASE) p}"
    by (rule conjunct2 [OF page_init_avail [OF t]]) (simp_all add: zero_state_def)
  also have "\<dots> = {1, 2}"
  proof -
    have A: "p < 3 \<longleftrightarrow> p = 0 \<or> p = 1 \<or> p = 2" for p :: u32
    proof -
      have "unat p < 3 \<longleftrightarrow> unat p = 0 \<or> unat p = 1 \<or> unat p = 2" by auto
      then show ?thesis by (simp add: word_less_nat_alt word_unat_eq_iff)
    qed
    have U: "usable f 1" "usable f 2" "\<not> usable f 0" for f by (simp_all add: usable_def word_le_nat_alt)
    show ?thesis by (rule set_eqI) (use U in \<open>auto simp add: A\<close>)
  qed
  finally show ?thesis using t by blast
qed

text \<open>
  C13: the linked list of \<^verbatim>\<open>PageInfo\<close> structures implements a set of pages. Any number of calls
  of \<^verbatim>\<open>page_alloc\<close> returns distinct pages that were free, as many as were asked for unless
  the free pages run out, and these pages are no longer free.
\<close>

theorem page_alloc_distinct:
  assumes "page_inv s"
  shows "\<exists>xs t. pgs.allocs n s = Ret xs t \<and> page_inv t \<and> distinct xs \<and> set xs \<subseteq> page_avail s \<and>
    page_avail t = page_avail s - set xs \<and> length xs = min n (card (page_avail s))"
  using assms by (rule pgs.allocs_spec)

theorem page_alloc_distinct_witness:
  "\<exists>xs t. pgs.allocs 2 kernel_state = Ret xs t \<and> distinct xs \<and> length xs = 2"
proof -
  have fl: "page_fl kernel_state (0x10E # 0x10D # 0x10C # init_list 0x101000 268)" by (rule kernel_state_inv)
  then have i: "page_inv kernel_state" by (auto simp: page_inv_def)
  have "{0x10E, 0x10D} \<subseteq> page_avail kernel_state" using page_avail_eq [OF fl] by simp
  moreover have "finite (page_avail kernel_state)" using page_avail_eq [OF fl] by simp
  ultimately have "card {0x10E, 0x10D :: u32} \<le> card (page_avail kernel_state)" by (intro card_mono)
  then have "2 \<le> card (page_avail kernel_state)" by simp
  then show ?thesis using page_alloc_distinct [OF i, of 2] by (auto simp: min_def)
qed

text \<open>
  C26: \<^verbatim>\<open>page_free\<close> undoes \<^verbatim>\<open>page_alloc\<close>: the page comes back and the set of free pages is
  what it was.
\<close>

theorem page_alloc_free:
  assumes "page_inv s" "page_alloc True s = Ret (Some p) t"
  shows "\<exists>u. page_free p t = Ret () u \<and> page_inv u \<and> page_avail u = page_avail s"
  using assms by (rule pgs.alloc_release)

theorem page_alloc_free_witness:
  "\<exists>t u. page_alloc True kernel_state = Ret (Some 0x10E) t \<and> page_free 0x10E t = Ret () u \<and>
     page_avail u = page_avail kernel_state"
proof -
  have fl: "page_fl kernel_state (0x10E # 0x10D # 0x10C # init_list 0x101000 268)" by (rule kernel_state_inv)
  then have i: "page_inv kernel_state" by (auto simp: page_inv_def)
  note al = page_alloc_cons [OF fl, of True]
  from page_alloc_free [OF i al] al show ?thesis by blast
qed





section \<open>Page tables\<close>




text \<open>
  C18: unmapping a page clears the entry, gives exactly one reference back, returns the page to
  the free list when that was the last one, leaves all other mappings alone, and invalidates
  the TLB entry if the address space is in use.
\<close>

theorem page_remove_unmaps:
  assumes inv: "memory_inv s Ds pin ps" and D: "D \<in> Ds" "va < UTOP" and pr: "present (pte s D va)"
  shows "\<exists>t. page_remove (kpage D) va s = Ret () t \<and>
    memory_inv t Ds pin (if pp_ref (pages s (PGNUM (pte s D va))) = 1 then PGNUM (pte s D va) # ps else ps) \<and>
    page_lookup (kpage D) va t = Ret None t \<and> refs t Ds (PGNUM (pte s D va)) = refs s Ds (PGNUM (pte s D va)) - {RMap D (PDX va) (PTX va)} \<and>
    (\<forall>D' \<in> Ds. \<forall>va' < UTOP. D' \<noteq> D \<or> PGNUM va' \<noteq> PGNUM va \<longrightarrow> pte t D' va' = pte s D' va') \<and>
    ((\<exists>e. curenv s = Some e \<and> env_pgdir (envs s e) = kpage D) \<longrightarrow> va \<in> set (invlpgs t))"
proof -
  have u: "uslot (PDX va)" using D(2) uslot_iff by simp
  obtain t where t: "page_remove (kpage D) va s = Ret () t" "remapped Ds D va 0 s t"
    "memory_inv t Ds pin (if pp_ref (pages s (PGNUM (pte s D va))) = 1 then PGNUM (pte s D va) # ps else ps)"
    "\<forall>q. refs t Ds q = refs s Ds q - {RMap D (PDX va) (PTX va)}"
    "(\<exists>e. curenv s = Some e \<and> env_pgdir (envs s e) = kpage D) \<longrightarrow> va \<in> set (invlpgs t)"
    using page_remove_inv [OF inv D(1) u pr] by blast
  have z: "pte t D va = 0" using t(2) by (simp add: remapped_def)
  have "table t D va < npages t" if "present (entry t D (PDX va))"
  proof -
    have "is_tab t Ds D (PDX va) (table t D va)" using that D(1) u by (simp add: is_tab_def table_def)
    then show ?thesis using tables_okD(2) memory_invD(2) [OF t(3)] by blast
  qed
  then have "page_lookup (kpage D) va t = Ret None t" using z by (intro page_lookup_absent) (auto simp: present_bit)
  then show ?thesis using t uslot_iff unfolding remapped_def by blast
qed

theorem page_remove_unmaps_witness:
  "\<exists>t. page_remove (kpage 0x10F) (USTACKTOP - PGSIZE) stack_state = Ret () t \<and>
     page_lookup (kpage 0x10F) (USTACKTOP - PGSIZE) t = Ret None t"
proof -
  note k = stack_state_inv
  obtain ps es where inv: "kernel_inv stack_state 0x100 start_reserved (\<lambda>_. 0) ps es" using sys_invD(3) [OF k(1)] by blast
  note ki = kernel_invD [OF inv]
  have "0 \<in> live stack_state" using k(1,2) by (simp add: sys_inv_def cur_ok_def)
  moreover have "env_dir stack_state 0 = 0x10F" using k(4) by (simp add: env_dir_def PGNUM_def)
  ultimately have D: "0x10F \<in> dirs stack_state" using ki(9) by metis
  have pr: "present (pte stack_state 0x10F (USTACKTOP - PGSIZE))"
    using k(5) granted_present [of _ "PTE_U OR PTE_W"] by (simp add: granted_def)
  have "USTACKTOP - PGSIZE < UTOP" by (simp add: layout_values PGSIZE_def)
  from page_remove_unmaps [OF ki(1) D this pr] show ?thesis by blast
qed

section \<open>Checks on user memory\<close>

text \<open>
  C28: after \<^verbatim>\<open>user_mem_check\<close> has accepted a page-aligned range that does not wrap around, the
  kernel can read every byte of it through the page tables of that environment.
\<close>

theorem user_mem_check_read:
  assumes "user_mem_check e va len perm s = Ret 0 t" "env_pgdir (envs s e) = kpage D" "cr3 s = page2pa D"
    and "PGOFF va = 0" "va \<le> va + len"
  shows "\<exists>bs. vread va (unat len) s = Ret bs s \<and> length bs = unat len"
proof (rule vread_granted [OF assms(3), where perm = perm])
  fix i assume i: "i < unat len"
  have l: "unat (va + len) = unat va + unat len"
    using assms(5) unat_u32_less [of va] unat_u32_less [of len] by (simp add: word_le_nat_alt unat_word_ariths mod_if split: if_splits)
  then have "unat va + i < 2 ^ 32" using i unat_u32_less [of "va + len"] by simp
  then have "unat (va + of_nat i) = unat va + i" by (rule unat_add_of_nat)
  then have "va \<le> va + of_nat i" "va + of_nat i < va + len" using i l by (simp_all add: word_le_nat_alt word_less_nat_alt)
  then show "granted s D perm (va + of_nat i)" by (rule user_mem_check_granted [OF assms(1,2,4,5)])
qed

theorem user_mem_check_read_witness:
  "\<exists>bs. user_mem_check 0 (USTACKTOP - PGSIZE) PGSIZE (PTE_U OR PTE_W) stack_state = Ret 0 stack_state \<and>
     vread (USTACKTOP - PGSIZE) 4096 stack_state = Ret bs stack_state \<and> length bs = 4096"
proof -
  note k = stack_state_inv
  have c: "user_mem_check 0 (USTACKTOP - PGSIZE) PGSIZE (PTE_U OR PTE_W) stack_state = Ret 0 stack_state"
    by (rule user_mem_check_first [OF k(4,5)]) (use k(6,7) in simp, simp_all add: PGSIZE_def)
  show ?thesis using user_mem_check_read [OF c k(4,3)] c by (simp add: PGOFF_def layout_values PGSIZE_def)
qed





end
