(* ===== verification/Procprops.thy ===== *)
theory Procprops
  imports Memprops
begin

text \<open>Properties of environments, the scheduler, the kernel lock and the console.\<close>

section \<open>Environments\<close>



text \<open>
  C12: creating an environment gives the slot an id that names the slot, is positive, and
  differs from the id of the slot's previous owner, which no longer denotes anything. The
  new address space maps nothing below \<^const>\<open>UTOP\<close>, and the other address spaces and the
  pages of their programs are untouched.
\<close>

theorem env_alloc_fresh:
  assumes inv: "kernel_inv s K R pin (p # ps) (e # es)"
  shows "\<exists>t. env_alloc parent_id s = Ret (0, Some e) t \<and> kernel_inv t K R pin ps es \<and> live t = insert e (live s) \<and>
    (let id = env_id (envs t e); old = env_id (envs s e) in ENVX id = e \<and> 0 < sint id \<and>
       envid2env id False t = Ret (0, Some e) t \<and>
       (old \<noteq> 0 \<and> ENVX old = e \<longrightarrow> envid2env old False t = Ret (- E_BAD_ENV, None) t)) \<and>
    (\<forall>va < UTOP. \<not> present (pte t (env_dir t e) va)) \<and>
    (\<forall>i \<in> live s. envs t i = envs s i \<and> (\<forall>va < UTOP. pte t (env_dir t i) va = pte s (env_dir s i) va)) \<and>
    (\<forall>a. PGNUM a \<noteq> env_dir t e \<longrightarrow> pmem t a = pmem s a)"
proof -
  note k = kernel_invD [OF inv]
  note pop = env_ok_pop [OF k(4)]
  have p: "p < 0x100000" using page_alloc_inv(4) [OF k(1)] small_page [OF k(1)] by blast
  obtain t where t: "env_alloc parent_id s = Ret (0, Some e) t" "kernel_inv t K R pin ps es"
    "envs t = (envs s)(e := fresh_env e parent_id p (envs s e))" "live t = insert e (live s)"
    "\<forall>D \<in> dirs s. \<forall>va. uslot (PDX va) \<longrightarrow> pte t D va = pte s D va"
    "\<forall>va. uslot (PDX va) \<longrightarrow> \<not> present (pte t p va)" "\<forall>a. PGNUM a \<noteq> p \<longrightarrow> pmem t a = pmem s a"
    using env_alloc_inv [OF inv, of parent_id] by blast
  have e: "e < 1024" using pop(1) by (simp add: NENV_def)
  have d: "env_dir t e = p" using env_dir_kpage [OF p] by (simp add: env_dir_def t(3) fresh_env_def)
  have o: "envs t i = envs s i" "env_dir t i = env_dir s i" if "i \<in> live s" for i
    using that pop(5) by (auto simp: t(3) env_dir_def)
  have id: "env_id (envs t e) = next_env_id (env_id (envs s e)) e" "env_status (envs t e) \<noteq> ENV_FREE"
    by (simp_all add: t(3) fresh_env_def)
  have ne: "next_env_id (env_id (envs s e)) e \<noteq> env_id (envs s e)" by (rule next_env_id_fresh [OF e])
  note x = ENVX_next [OF e, of "env_id (envs s e)"] and pos = next_env_id_pos [OF e, of "env_id (envs s e)"]
  have nz: "next_env_id (env_id (envs s e)) e \<noteq> 0" using pos by auto
  have "envid2env (env_id (envs t e)) False t = Ret (0, Some e) t"
    using id x nz by (simp add: envid2env_def)
  moreover have "envid2env (env_id (envs s e)) False t = Ret (- E_BAD_ENV, None) t" if "env_id (envs s e) \<noteq> 0" "ENVX (env_id (envs s e)) = e"
    using that id ne by (simp add: envid2env_def)
  ultimately show ?thesis using t d o id x pos k(9) uslot_iff by (simp add: Let_def)
qed

theorem env_alloc_fresh_witness:
  "\<exists>s t. env_id (envs s 0) = 0x1000 \<and> env_alloc 0 s = Ret (0, Some 0) t \<and> live t = {0} \<and>
     envid2env 0x1000 False t = Ret (- E_BAD_ENV, None) t"
proof -
  let ?s = "upd_env 0 (\<lambda>x. x\<lparr>env_id := 0x1000\<rparr>) start_state"
  have l: "live start_state = {}"
  proof -
    have "set [0..<1024] = {i. i < NENV \<and> env_status (envs start_state i) = ENV_FREE}"
      using kernel_invD(4) [OF start_inv] by (simp only: env_ok_def)
    then show ?thesis by (auto simp: live_def NENV_def set_eq_iff)
  qed
  have ls: "live ?s = {}" "dirs ?s = dirs start_state" "dirs start_state = {}" using l by (auto simp: live_def dirs_def)
  have en: "entry ?s = entry start_state" by (rule entry_pmem_cong) simp
  have ch: "chain (\<lambda>i. env_link (envs ?s i)) h es = chain (\<lambda>i. env_link (envs start_state i)) h es" for h es
    by (rule chain_cong) simp
  have fr: "env_status (envs ?s i) = env_status (envs start_state i)" for i by simp
  have "env_ok ?s [0..<1024]" using kernel_invD(4) [OF start_inv] unfolding env_ok_def ch fr ls l by simp
  moreover have "memory_inv ?s {} (\<lambda>_. 0) (0x10F # 0x10E # 0x10D # 0x10C # init_list 0x101000 268)"
    using kernel_invD(1) [OF start_inv] memory_inv_cong [of ?s start_state] ls by simp
  moreover have "kern_dir ?s 0x100" using kernel_invD(5) [OF start_inv] en by (simp add: kern_dir_def)
  moreover have "reserved ?s {} start_reserved (0x10F # 0x10E # 0x10D # 0x10C # init_list 0x101000 268)"
    using kernel_invD(7) [OF start_inv] refs_cong [OF en] ls by (simp add: reserved_def)
  ultimately have inv: "kernel_inv ?s 0x100 start_reserved (\<lambda>_. 0) (0x10F # 0x10E # 0x10D # 0x10C # init_list 0x101000 268) [0..<1024]"
    using kernel_invD(6,8) [OF start_inv] ls by (simp add: kernel_inv_def)
  have up: "[0..<1024] = (0 :: nat) # [1..<1024]" using upt_conv_Cons [of 0 1024] by (simp only: One_nat_def zero_less_numeral)
  have "env_id (envs ?s 0) = 0x1000" "ENVX 0x1000 = 0" by (simp_all add: ENVX_def)
  then obtain t where "env_alloc 0 ?s = Ret (0, Some 0) t" "live t = {0}" "envid2env 0x1000 False t = Ret (- E_BAD_ENV, None) t"
    using env_alloc_fresh [OF inv [unfolded up], of 0] ls(1) by (auto simp: Let_def simp del: upd_env_fields)
  then show ?thesis by (intro exI [of _ ?s] exI [of _ t]) simp
qed





section \<open>Scheduling\<close>



text \<open>
  C36: when the current environment sits in the last slot and no environment is runnable the
  loop's end test never fires, and \<^verbatim>\<open>sched_yield\<close> spins forever instead of returning to the
  current environment.
\<close>

theorem sched_yield_spins:
  assumes "curenv s = Some c" "ENVX (env_id (envs s c)) = 1023" "\<And>j. j < 1024 \<Longrightarrow> env_status (envs s j) \<noteq> ENV_RUNNABLE"
  shows "sched_yield s = Leave SpinForever s"
proof -
  have "sched_initial s = 1024" using assms(1,2) by (simp add: sched_initial_def)
  then show ?thesis using sched_loop_spins [of s] assms(3) by (simp add: sched_yield_def runnable_def)
qed

theorem sched_yield_spins_witness:
  "\<exists>s. curenv s = Some 1023 \<and> env_status (envs s 1023) = ENV_RUNNING \<and> sched_yield s = Leave SpinForever s"
proof -
  let ?s = "set_curenv (Some 1023) (upd_env 1023 (\<lambda>x. x\<lparr>env_status := ENV_RUNNING, env_id := 0x13FF\<rparr>) zero_state)"
  have "sched_yield ?s = Leave SpinForever ?s"
    by (rule sched_yield_spins [of _ 1023]) (auto simp: ENVX_def zero_state_def zero_env_def)
  then show ?thesis by (intro exI [of _ ?s]) simp
qed

section \<open>The kernel lock\<close>

text \<open>
  C8: whatever the interleaving of the CPUs' accesses to the lock word, at most one CPU is
  between \<^verbatim>\<open>spin_lock\<close> and \<^verbatim>\<open>spin_unlock\<close>, and the debugging checks of the two never fire.
\<close>

theorem kernel_lock_mutex:
  assumes "smp_reach nm (pcs, lk)"
  shows "(pcs c = Critical \<and> pcs d = Critical \<longrightarrow> c = d) \<and> pcs c \<noteq> LockPanic \<and> (pcs c = Critical \<longrightarrow> holding c lk)"
proof -
  from lock_inv_reach [OF assms] have i: "\<And>c d. owns (pcs c) \<Longrightarrow> owns (pcs d) \<Longrightarrow> c = d" "locked lk \<noteq> 0 \<longleftrightarrow> (\<exists>c. owns (pcs c))"
    "\<And>c. lk_cpu lk = Some c \<longleftrightarrow> named (pcs c)" "\<And>c. pcs c \<noteq> LockPanic" by (auto simp: lock_inv_def)
  have "locked lk \<noteq> 0 \<and> lk_cpu lk = Some c" if "pcs c = Critical"
  proof
    show "locked lk \<noteq> 0" using i(2) that by (metis owns.simps(2))
    show "lk_cpu lk = Some c" using i(3) that by simp
  qed
  then show ?thesis using i(1,4) by (auto simp: holding_def)
qed

theorem kernel_lock_mutex_witness:
  "\<exists>pcs lk. smp_reach ''kernel_lock'' (pcs, lk) \<and> pcs 0 = Critical \<and> pcs 1 \<noteq> Critical \<and> holding 0 lk"
proof -
  let ?l = "\<lambda>n c. \<lparr>locked = n, lk_name = ''kernel_lock'', lk_cpu = c\<rparr>"
  have s: "smp_reach ''kernel_lock'' (pcs(c := pc'), lk')" if "smp_reach ''kernel_lock'' (pcs, lk)" "lock_step c (pcs c) lk = (pc', lk')" for pcs lk c pc' lk'
    using that by (blast intro: smp_reach.step smp_step.intros)
  have "smp_reach ''kernel_lock'' ((\<lambda>_. Outside), ?l 0 None)" using smp_reach.init [of "''kernel_lock''"] by (simp only: smp_init_def)
  from s [OF this, of 0] have "smp_reach ''kernel_lock'' ((\<lambda>_. Outside)(0 := LockXchg), ?l 0 None)" by simp
  from s [OF this, of 0] have "smp_reach ''kernel_lock'' ((\<lambda>_. Outside)(0 := LockSetCpu), ?l 1 None)" by simp
  from s [OF this, of 0] have "smp_reach ''kernel_lock'' ((\<lambda>_. Outside)(0 := Critical), ?l 1 (Some 0))" by simp
  from this kernel_lock_mutex [OF this, of 0 1] show ?thesis by (intro exI conjI) (assumption, auto)
qed

section \<open>The console\<close>

text \<open>
  C30: the console's ring buffer is a first-in first-out queue: up to 511 characters come out
  in the order in which they were stored.
\<close>

theorem console_fifo:
  assumes "cons_ok s" "cons_queue s = []" "length xs \<le> 511"
  shows "consq.gets (length xs) (fold (\<lambda>b. cons_store (uint b)) xs s) = xs"
  using assms by (rule consq.fifo_order)

theorem console_fifo_witness:
  "consq.gets 3 (fold (\<lambda>b. cons_store (uint b)) [104 :: u8, 105, 10] zero_console) = [104, 105, 10]"
  using console_fifo [of zero_console "[104, 105, 10]"]
  by (simp add: cons_ok_def cons_queue_def zero_console_def CONSBUFSIZE_def numeral_3_eq_3)

text \<open>
  C40: the buffer has no overflow check: the character after the 511th unread one makes it look
  empty, and all 512 are lost.
\<close>

theorem console_overrun:
  assumes "cons_ok s" "length (cons_queue s) = 511"
  shows "cons_queue (cons_store c s) = []"
  using assms by (rule cons_queue_overrun)

theorem console_overrun_witness:
  "\<exists>s. length (cons_queue s) = 511 \<and> cons_queue (cons_store 65 s) = []"
proof -
  let ?s = "zero_console\<lparr>cons_wpos := 511\<rparr>"
  have "length (cons_queue ?s) = 511" "cons_ok ?s" by (simp_all add: cons_queue_def cons_ok_def zero_console_def CONSBUFSIZE_def)
  then show ?thesis using console_overrun [of ?s 65] by blast
qed

text \<open>C33: whatever is printed, the cursor stays on the screen of 80 by 25 characters.\<close>

theorem console_cursor_bounds:
  assumes "unat (crt_pos s) < 2000"
  shows "unat (crt_pos (fold cons_putc cs s)) < 2000"
  using assms by (induction cs arbitrary: s) (simp_all add: cons_putc_pos)

theorem console_cursor_bounds_witness: "unat (crt_pos (fold cons_putc [72, 10, 8, 9] zero_console)) < 2000"
  by (rule console_cursor_bounds) (simp add: zero_console_def)


end
