(* ===== verification/Libprops.thy ===== *)
theory Libprops
  imports Printfmt
begin

text \<open>Properties of the C library functions the kernel and the user programs share.\<close>

text \<open>
  C21: \<^verbatim>\<open>memmove\<close>, which copies words or bytes, upwards or downwards, has the effect of copying
  through a buffer, for every overlap of the two regions.
\<close>

theorem memmove_copies:
  assumes "unat dst + unat n \<le> 2 ^ 32" "unat src + unat n \<le> 2 ^ 32"
  shows "memmove m dst src n = mem_copy m dst src n"
  using assms by (rule memmove_eq)

theorem memmove_copies_witness: "memmove ucast 0x1002 0x1000 8 = mem_copy ucast 0x1002 0x1000 8"
  by (rule memmove_copies) simp_all

text \<open>
  C32: \<^verbatim>\<open>strlcpy\<close> never writes outside the \<open>sz\<close> bytes it was given, always terminates them,
  copies the longest prefix that fits, and returns its length.
\<close>

theorem strlcpy_fits:
  assumes "str_at m src bs" "length bs < 2 ^ 32" "0 < sz" "sz < 2 ^ 32"
    and "\<And>i j. i < sz \<Longrightarrow> j \<le> length bs \<Longrightarrow> dst + of_nat i \<noteq> src + of_nat j"
    and "strlcpy m dst src sz = (m', r)"
  shows "r = of_nat (min (sz - 1) (length bs)) \<and> str_at m' dst (take (min (sz - 1) (length bs)) bs) \<and>
    (\<forall>x. \<not> x - dst < of_nat sz \<longrightarrow> m' x = m x)"
  using strlcpy_str [OF assms] by blast

theorem strlcpy_fits_witness:
  "\<exists>m' r. strlcpy ((\<lambda>_. 0)(0x100 := 72, 0x101 := 105, 0x102 := 33)) 0x200 0x100 3 = (m', r) \<and> r = 2 \<and>
     str_at m' 0x200 [72, 105]"
proof -
  let ?m = "(\<lambda>_. 0)(0x100 := 72, 0x101 := 105, 0x102 := 33) :: mem"
  obtain m' r where res: "strlcpy ?m 0x200 0x100 3 = (m', r)" by (cases "strlcpy ?m 0x200 0x100 3")
  have "str_at ?m 0x100 [72, 105, 33]" by (simp add: str_at_Cons) (simp add: str_at_def)
  moreover have "(0x200 :: u32) + of_nat i \<noteq> 0x100 + of_nat j" if "i < 3" "j \<le> length [72, 105, 33 :: u8]" for i j
  proof -
    have "unat ((0x200 :: u32) + of_nat i) = 0x200 + i" "unat ((0x100 :: u32) + of_nat j) = 0x100 + j"
      using that by (simp_all add: unat_word_ariths unat_of_nat_u32)
    then have "unat ((0x200 :: u32) + of_nat i) \<noteq> unat ((0x100 :: u32) + of_nat j)" using that by simp
    then show ?thesis by (rule contrapos_nn) (rule arg_cong)
  qed
  ultimately have "r = of_nat (min (3 - 1) (length [72, 105, 33 :: u8])) \<and> str_at m' 0x200 (take (min (3 - 1) (length [72, 105, 33 :: u8])) [72, 105, 33]) \<and>
    (\<forall>x. \<not> x - 0x200 < of_nat 3 \<longrightarrow> m' x = ?m x)"
    by (intro strlcpy_fits [OF _ _ _ _ _ res]) simp_all
  then show ?thesis using res by (auto simp: numeral_2_eq_2)
qed

text \<open>
  C23: \<^verbatim>\<open>strtol\<close> reads back every 32-bit number that \<^verbatim>\<open>%d\<close> printed, the most negative one
  included.
\<close>

theorem print_parse_signed: "strtol (map word_of_int (print_signed (sint w) (- 1) 32)) 10 = (sint (w :: u32), [])"
  by (rule strtol_signed)



end
