(* ===== verification/Callprops.thy ===== *)
theory Callprops
  imports Procprops
begin

text \<open>Properties of the system calls, of traps and of the network driver.\<close>

section \<open>System calls\<close>




text \<open>
  C5: \<^verbatim>\<open>sys_page_map\<close> shares a page only with the permissions its source has: with both
  environments found and the addresses and permissions well-formed, it fails with
  \<^verbatim>\<open>-E_INVAL\<close> if nothing is mapped at the source or write access is asked for a read-only
  page, and otherwise maps that very page at the destination and touches no other mapping,
  unless there is no memory for a page table.
\<close>

theorem sys_page_map_shares:
  assumes s: "sys_inv K R pin s" "\<forall>p < npages s. pp_ref (pages s p) \<noteq> 0xFFFF"
    and e: "envid2env srcid True s = Ret (0, Some src) s" "envid2env dstid True s = Ret (0, Some dst) s" "src \<in> live s" "dst \<in> live s"
    and va: "\<not> bad_va srcva" "\<not> bad_va dstva" "\<not> bad_perm perm"
  defines "e \<equiv> pte s (env_dir s src) srcva"
  shows "if \<not> present e \<or> e AND PTE_W = 0 \<and> perm AND PTE_W \<noteq> 0
    then sys_page_map srcid srcva dstid dstva perm s = Ret (- E_INVAL) s
    else sys_page_map srcid srcva dstid dstva perm s = Ret (- E_NO_MEM) s \<and> \<not> present (entry s (env_dir s dst) (PDX dstva)) \<or>
      (\<exists>t. sys_page_map srcid srcva dstid dstva perm s = Ret 0 t \<and> sys_inv K R pin t \<and> envs t = envs s \<and>
        pte t (env_dir t dst) dstva = mkpte (PGNUM e) perm \<and>
        (\<forall>i \<in> live s. \<forall>va < UTOP. env_dir s i \<noteq> env_dir s dst \<or> PGNUM va \<noteq> PGNUM dstva \<longrightarrow>
           pte t (env_dir s i) va = pte s (env_dir s i) va))"
proof -
  obtain ps es where inv: "kernel_inv s K R pin ps es" using sys_invD(3) [OF s(1)] by blast
  note k = kernel_invD [OF inv]
  have lt: "srcva < UTOP" "dstva < UTOP" "perm < 4096" using va bad_perm_less by (auto simp: bad_va_def)
  let ?m = "sys_page_map srcid srcva dstid dstva perm s"
  let ?sh = "share_page (env_pgdir (envs s src)) srcva (env_pgdir (envs s dst)) dstva perm s"
  have m: "?m = bindK ?sh (\<lambda>error s. if error < 0 then Ret error s else Ret 0 s)"
    using e(1,2) va by (simp add: sys_page_map_def with_env_def)
  note lk = page_lookup_sys [OF inv e(3) lt(1), folded e_def]
  show ?thesis
  proof (cases "\<not> present e \<or> e AND PTE_W = 0 \<and> perm AND PTE_W \<noteq> 0")
    case True
    have "kld32 s (kpage (table s (env_dir s src) srcva) + 4 * PTX srcva) = e" if "present e"
      using that by (auto simp: e_def pte_def present_bit split: if_splits)
    then have "?sh = Ret (- E_INVAL) s" using True lk by (auto simp: share_page_def)
    then show ?thesis using True m by simp
  next
    case False
    have ld: "kld32 s (kpage (table s (env_dir s src) srcva) + 4 * PTX srcva) = e"
      using False by (auto simp: e_def pte_def present_bit split: if_splits)
    note pg = mapped_page [OF inv e(3) lt(1), folded e_def]
    have sh: "?sh = page_insert (env_pgdir (envs s dst)) (PGNUM e) dstva perm s"
      using False lk ld by (auto simp: share_page_def)
    from False have pr: "present e" by simp
    from page_insert_sys [OF inv sys_invD(1) [OF s(1)] e(4) lt(2) pg(1,3,2) _ pg(4) lt(3)] pr s(2) pg(1)
    consider "?sh = Ret (- E_NO_MEM) s" "\<not> present (entry s (env_dir s dst) (PDX dstva))"
      | t where "?sh = Ret 0 t" "sys_inv K R pin t" "envs t = envs s" "remapped (dirs s) (env_dir s dst) dstva (mkpte (PGNUM e) perm) s t"
      unfolding sh by auto
    then show ?thesis
    proof cases
      case 1
      then show ?thesis using False m by simp
    next
      case (2 t)
      have "pte t (env_dir s i) va = pte s (env_dir s i) va"
        if "i \<in> live s" "va < UTOP" "env_dir s i \<noteq> env_dir s dst \<or> PGNUM va \<noteq> PGNUM dstva" for i va
        using 2(4) that k(9) uslot_iff by (simp add: remapped_def)
      moreover have "pte t (env_dir t dst) dstva = mkpte (PGNUM e) perm" using 2(3,4) by (simp add: remapped_def env_dir_def)
      ultimately show ?thesis using False m 2(1-3) by simp
    qed
  qed
qed

theorem sys_page_map_shares_witness:
  "\<exists>t. sys_page_map 0 (USTACKTOP - PGSIZE) 0 (USTACKTOP - 2 * PGSIZE) 5 stack_state = Ret 0 t \<and>
     PGNUM (pte t 0x10F (USTACKTOP - 2 * PGSIZE)) = PGNUM (pte stack_state 0x10F (USTACKTOP - PGSIZE))"
proof -
  let ?e = "pte stack_state 0x10F (USTACKTOP - PGSIZE)"
  note k = stack_state_inv
  have l: "0 \<in> live stack_state" using k(1,2) by (simp add: sys_inv_def cur_ok_def)
  have d: "env_dir stack_state 0 = 0x10F" using k(4) by (simp add: env_dir_def PGNUM_def)
  have i: "envid2env 0 True stack_state = Ret (0, Some 0) stack_state" using k(2) by (simp add: envid2env_def)
  have pr: "present ?e" using k(5) granted_present [of _ "PTE_U OR PTE_W"] by (simp add: granted_def)
  have px: "PDX (USTACKTOP - 2 * PGSIZE) = PDX (USTACKTOP - PGSIZE)" by (simp add: PDX_def layout_values PGSIZE_def)
  have tb: "present (entry stack_state 0x10F (PDX (USTACKTOP - 2 * PGSIZE)))" using k(5) unfolding px by (simp add: granted_def)
  have "\<forall>p < npages stack_state. pp_ref (pages stack_state p) \<noteq> 0xFFFF" using k(7,9) by simp
  moreover have "\<not> bad_va (USTACKTOP - PGSIZE)" "\<not> bad_va (USTACKTOP - 2 * PGSIZE)" "\<not> bad_perm 5" "(5 :: u32) AND PTE_W = 0"
    by (simp_all add: bad_va_def bad_perm_def layout_values PGSIZE_def PTE_W_def PTE_U_def PTE_P_def)
  ultimately obtain t where t: "sys_page_map 0 (USTACKTOP - PGSIZE) 0 (USTACKTOP - 2 * PGSIZE) 5 stack_state = Ret 0 t"
    "envs t = envs stack_state" "pte t (env_dir t 0) (USTACKTOP - 2 * PGSIZE) = mkpte (PGNUM ?e) 5"
    using sys_page_map_shares [OF k(1) _ i i l l, of "USTACKTOP - PGSIZE" "USTACKTOP - 2 * PGSIZE" 5] pr tb unfolding d by auto
  have "env_dir t 0 = 0x10F" using t(2) d by (simp add: env_dir_def)
  moreover have "PGNUM (mkpte (PGNUM ?e) 5) = PGNUM ?e" by (rule mkpte_simps [OF PGNUM_less]) simp
  ultimately show ?thesis using t(1,3) by auto
qed

lemma share_page_result:
  assumes s: "sys_inv K R pin s" and e: "src \<in> live s" "dst \<in> live s" "srcva < UTOP" "dstva < UTOP"
    and perm: "perm < 4096" and nov: "\<forall>p < npages s. pp_ref (pages s p) \<noteq> 0xFFFF"
  shows "\<exists>r t. share_page (env_pgdir (envs s src)) srcva (env_pgdir (envs s dst)) dstva perm s = Ret r t \<and>
    envs t = envs s \<and> curenv t = curenv s"
proof -
  obtain ps es where inv: "kernel_inv s K R pin ps es" using sys_invD(3) [OF s] by blast
  let ?e = "pte s (env_dir s src) srcva"
  show ?thesis
  proof (cases "present ?e")
    case True
    note m = mapped_page [OF inv e(1,3) True]
    from page_insert_sys [OF inv sys_invD(1) [OF s] e(2,4) m(1,3,2) _ m(4) perm] nov m(1)
    show ?thesis using page_lookup_sys [OF inv e(1,3)] True s by (auto simp: share_page_def)
  next
    case False
    then show ?thesis using page_lookup_sys [OF inv e(1,3)] s by (simp add: share_page_def)
  qed
qed

lemma ipc_send_page_result:
  assumes s: "sys_inv K R pin s" "\<forall>p < npages s. pp_ref (pages s p) \<noteq> 0xFFFF" and t: "t \<in> live s" "curenv s = Some c"
    and va: "srcva < UTOP" "env_ipc_dstva (envs s t) < UTOP"
  shows "\<exists>r u f. ipc_send_page t srcva perm s = Ret r u \<and> r \<le> 0 \<and> curenv u = Some c \<and>
    envs u = (envs s)(t := (envs s t)\<lparr>env_ipc_perm := f\<rparr>)"
proof (cases "srcva mod PGSIZE \<noteq> 0 \<or> bad_perm perm")
  case True
  have "\<exists>f. envs s = (envs s)(t := (envs s t)\<lparr>env_ipc_perm := f\<rparr>)" by (rule exI [of _ "env_ipc_perm (envs s t)"]) simp
  then show ?thesis using True t(2) by (auto simp: ipc_send_page_def E_INVAL_def)
next
  case False
  have c: "c \<in> live s" using s(1) t(2) by (simp add: sys_inv_def cur_ok_def)
  have p: "perm < 4096" using False bad_perm_less by simp
  let ?m = "share_page (env_pgdir (envs s c)) srcva (env_pgdir (envs s t)) (env_ipc_dstva (envs s t)) perm s"
  from share_page_result [OF s(1) c t(1) va p s(2)]
  obtain r u where u: "?m = Ret r u" "envs u = envs s" "curenv u = curenv s" by blast
  show ?thesis
  proof (cases "r < 0")
    case True
    have "\<exists>f. envs s = (envs s)(t := (envs s t)\<lparr>env_ipc_perm := f\<rparr>)" by (rule exI [of _ "env_ipc_perm (envs s t)"]) simp
    then show ?thesis using True False u t(2) by (intro exI [of _ r] exI [of _ u]) (auto simp: ipc_send_page_def with_cur_def)
  next
    case nn: False
    then show ?thesis using False u t(2)
      by (intro exI [of _ 0] exI [of _ "upd_env t (\<lambda>x. x\<lparr>env_ipc_perm := perm\<rparr>) u"] exI [of _ perm])
        (auto simp: ipc_send_page_def with_cur_def)
  qed
qed

text \<open>
  C6: a message is delivered at most once. If \<^verbatim>\<open>sys_ipc_try_send\<close> returns 0 the receiver was
  waiting, holds the value and the sender's id, is runnable again with 0 as the result of its
  own call, and no second send succeeds before it waits again; otherwise the call fails and
  the receiver, but for \<^verbatim>\<open>env_ipc_perm\<close>, is as before. No other environment changes.
\<close>

theorem ipc_delivers_once:
  assumes s: "sys_inv K R pin s" "\<forall>p < npages s. pp_ref (pages s p) \<noteq> 0xFFFF" and c: "curenv s = Some c"
    and e: "envid2env envid False s = Ret (0, Some t) s" "t \<in> live s"
  shows "\<exists>r u. sys_ipc_try_send envid v srcva perm s = Ret r u \<and> (\<forall>i. i \<noteq> t \<longrightarrow> envs u i = envs s i) \<and>
    (if r = 0 then env_ipc_recving (envs s t) \<and> \<not> env_ipc_recving (envs u t) \<and> env_ipc_value (envs u t) = v \<and>
        env_ipc_from (envs u t) = env_id (envs s c) \<and> env_status (envs u t) = ENV_RUNNABLE \<and>
        reg_eax (tf_regs (env_tf (envs u t))) = 0 \<and>
        (\<forall>v' srcva' perm'. sys_ipc_try_send envid v' srcva' perm' u = Ret (- E_IPC_NOT_RECV) u)
     else r < 0 \<and> (envs u t)\<lparr>env_ipc_perm := 0\<rparr> = (envs s t)\<lparr>env_ipc_perm := 0\<rparr>)"
proof (cases "env_ipc_recving (envs s t)")
  case False
  then show ?thesis using e by (simp add: sys_ipc_try_send_def with_env_def E_IPC_NOT_RECV_def)
next
  case True
  let ?u = "upd_env t (\<lambda>x. x\<lparr>env_ipc_perm := 0\<rparr>) s"
  let ?m = "if srcva < UTOP \<and> env_ipc_dstva (envs ?u t) < UTOP then ipc_send_page t srcva perm ?u else Ret 0 ?u"
  have u: "sys_inv K R pin ?u" "t \<in> live ?u" "curenv ?u = Some c" "\<forall>p < npages ?u. pp_ref (pages ?u p) \<noteq> 0xFFFF"
    using s c e(2) by (auto simp: live_def intro!: upd_env_keeps)
  have "\<exists>r w f. ?m = Ret r w \<and> r \<le> 0 \<and> curenv w = Some c \<and> envs w = (envs s)(t := (envs s t)\<lparr>env_ipc_perm := f\<rparr>)"
  proof (cases "srcva < UTOP \<and> env_ipc_dstva (envs ?u t) < UTOP")
    case True
    with ipc_send_page_result [OF u(1,4,2,3)] obtain r w f where
      "ipc_send_page t srcva perm ?u = Ret r w" "r \<le> 0" "curenv w = Some c" "envs w = (envs ?u)(t := (envs ?u t)\<lparr>env_ipc_perm := f\<rparr>)"
      by blast
    then show ?thesis using True by (auto simp: upd_env_def intro!: exI [of _ f])
  next
    case False
    then show ?thesis using u(3) by (auto simp: upd_env_def)
  qed
  then obtain r w f where w: "?m = Ret r w" "r \<le> 0" "curenv w = Some c" "envs w = (envs s)(t := (envs s t)\<lparr>env_ipc_perm := f\<rparr>)"
    by blast
  have send: "sys_ipc_try_send envid v srcva perm s = bindK ?m (\<lambda>error s. if error < 0 then Ret error s else ipc_deliver t v s)"
    using e(1) True by (simp add: sys_ipc_try_send_def with_env_def Let_def)
  show ?thesis
  proof (cases "r < 0")
    case True
    then show ?thesis unfolding send w(1) using w(4) by (simp add: upd_env_def)
  next
    case False
    let ?x = "upd_env t (\<lambda>x. x\<lparr>env_ipc_recving := False,
        env_ipc_from := env_id (envs w c), env_ipc_value := v, env_status := ENV_RUNNABLE,
        env_tf := (env_tf x)\<lparr>tf_regs := (tf_regs (env_tf x))\<lparr>reg_eax := 0\<rparr>\<rparr>\<rparr>) w"
    have "\<And>i. env_id (envs ?x i) = env_id (envs s i)" "curenv ?x = curenv s" "env_status (envs ?x t) \<noteq> ENV_FREE"
      using w(3,4) c by simp_all
    then have "envid2env envid False ?x = Ret (0, Some t) ?x"
      using e(1) by (auto simp: envid2env_def Let_def split: option.splits if_splits)
    then have "sys_ipc_try_send envid v' srcva' perm' ?x = Ret (- E_IPC_NOT_RECV) ?x" for v' srcva' perm'
      by (simp add: sys_ipc_try_send_def with_env_def)
    moreover have "sys_ipc_try_send envid v srcva perm s = Ret 0 ?x"
      unfolding send w(1) using False w(2,3) by (simp add: ipc_deliver_def with_cur_def)
    ultimately show ?thesis using True w(4) by (intro exI [of _ 0] exI [of _ ?x]) auto
  qed
qed

theorem ipc_delivers_once_witness:
  "\<exists>u. sys_ipc_try_send 0x1001 42 UTOP 0 pair_state = Ret 0 u \<and> env_ipc_value (envs u 1) = 42 \<and>
     env_ipc_from (envs u 1) = 0x1000 \<and> sys_ipc_try_send 0x1001 43 UTOP 0 u = Ret (- E_IPC_NOT_RECV) u"
proof -
  note k = pair_state_inv
  have l: "env_status (envs pair_state 1) \<noteq> ENV_FREE" "1 \<in> live pair_state" using k(3) by (auto simp: live_def)
  have e: "envid2env 0x1001 False pair_state = Ret (0, Some 1) pair_state"
    using l k(5) by (simp add: envid2env_def Let_def ENVX_def)
  have "\<forall>p < npages pair_state. pp_ref (pages pair_state p) \<noteq> 0xFFFF" using pair_state_refs by simp
  from ipc_delivers_once [OF k(1) this k(2) e l(2), of 42 UTOP 0]
  obtain r u where u: "sys_ipc_try_send 0x1001 42 UTOP 0 pair_state = Ret r u"
    "if r = 0 then env_ipc_value (envs u 1) = 42 \<and> env_ipc_from (envs u 1) = env_id (envs pair_state 0) \<and>
       (\<forall>v' srcva' perm'. sys_ipc_try_send 0x1001 v' srcva' perm' u = Ret (- E_IPC_NOT_RECV) u) else True"
    by (auto split: if_splits)
  moreover have "r = 0" using u(1) e k(2,6) by (simp add: sys_ipc_try_send_def with_env_def ipc_deliver_def with_cur_def Let_def)
  ultimately show ?thesis using k(4) by auto
qed

text \<open>
  C16: \<^verbatim>\<open>sys_exofork\<close> makes a child that is the caller but for its address space: a fresh
  environment with the registers of the caller, 0 in place of the result, not yet runnable and
  with nothing mapped, while no mapping of any other environment changes.
\<close>

theorem sys_exofork_child:
  assumes s: "kernel_inv s K R pin (p # ps) (e # es)" and c: "curenv s = Some c" "c \<in> live s"
  shows "\<exists>t. sys_exofork s = Ret (sint (env_id (envs t e))) t \<and> e \<notin> live s \<and> live t = insert e (live s) \<and>
    (\<forall>i. i \<noteq> e \<longrightarrow> envs t i = envs s i) \<and> env_status (envs t e) = ENV_NOT_RUNNABLE \<and>
    env_id (envs t e) = next_env_id (env_id (envs s e)) e \<and> env_parent_id (envs t e) = env_id (envs s c) \<and>
    env_tf (envs t e) = (env_tf (envs s c))\<lparr>tf_regs := (tf_regs (env_tf (envs s c)))\<lparr>reg_eax := 0\<rparr>\<rparr> \<and>
    (\<forall>va < UTOP. \<not> present (pte t (env_dir t e) va)) \<and>
    (\<forall>i \<in> live s. \<forall>va < UTOP. pte t (env_dir t i) va = pte s (env_dir s i) va) \<and>
    (\<exists>ps es. kernel_inv t K R pin ps es)"
proof -
  note k = kernel_invD [OF s]
  note al = env_alloc_inv [OF s, of "env_id (envs s c)"]
  then obtain t where t: "env_alloc (env_id (envs s c)) s = Ret (0, Some e) t" by (elim exE conjE)
  with al have a: "kernel_inv t K R pin ps es" "envs t = (envs s)(e := fresh_env e (env_id (envs s c)) p (envs s e))"
    "live t = insert e (live s)" "\<forall>D \<in> dirs s. \<forall>va. uslot (PDX va) \<longrightarrow> pte t D va = pte s D va"
    "\<forall>va. uslot (PDX va) \<longrightarrow> \<not> present (pte t p va)" "curenv t = curenv s" by (auto)
  have e: "e \<notin> live s" using k(4) by (auto simp: env_ok_def live_def)
  let ?g = "\<lambda>x. x\<lparr>env_status := ENV_NOT_RUNNABLE, env_tf := (env_tf (envs s c))\<lparr>tf_regs := (tf_regs (env_tf (envs s c)))\<lparr>reg_eax := 0\<rparr>\<rparr>\<rparr>"
  have r: "sys_exofork s = Ret (sint (env_id (envs (upd_env e ?g t) e))) (upd_env e ?g t)"
    using c e a(2) by (auto simp: sys_exofork_def with_cur_def t Let_def upd_env_def)
  have v: "envs (upd_env e ?g t) = (envs s)(e := ?g (fresh_env e (env_id (envs s c)) p (envs s e)))" by (simp add: upd_env_def a(2))
  then have D: "env_dir (upd_env e ?g t) i = env_dir s i" if "i \<in> live s" for i using that e by (auto simp: env_dir_def simp del: upd_env_fields)
  have p: "p < 0x100000" using page_flD [OF memory_invD(1) [OF k(1)], of p] by simp
  then have De: "env_dir (upd_env e ?g t) e = p" using env_dir_kpage by (simp add: env_dir_def v fresh_env_def del: upd_env_fields kpage_minus)
  have pt: "pte (upd_env e ?g t) = pte t" by (intro pte_cong entry_pmem_cong) simp
  have "kernel_ok K R pin (upd_env e ?g t)" using a(1,2) by (intro upd_env_ok) (auto simp: kernel_ok_def fresh_env_def)
  moreover have "live (upd_env e ?g t) = insert e (live s)" using a(2,3) by (auto simp: live_def fresh_env_def)
  moreover have "pte t (env_dir s i) va = pte s (env_dir s i) va" if "i \<in> live s" "va < UTOP" for i va
    using that a(4) k(9) uslot_iff by simp
  ultimately show ?thesis using r e a(5) D De pt v uslot_iff
    by (intro exI [of _ "upd_env e ?g t"]) (simp add: kernel_ok_def fresh_env_def del: upd_env_fields)
qed

theorem sys_exofork_child_witness:
  "\<exists>t. sys_exofork fork_state = Ret 0x1001 t \<and> env_parent_id (envs t 1) = 0x1000 \<and>
     reg_eax (tf_regs (env_tf (envs t 1))) = 0 \<and> \<not> present (pte t (env_dir t 1) 0x800000)"
proof -
  have c: "0 \<in> live fork_state" using fork_state_inv(3) by simp
  from sys_exofork_child [OF fork_state_inv(1,2) c] obtain t where
    t: "sys_exofork fork_state = Ret (sint (env_id (envs t 1))) t" "env_parent_id (envs t 1) = env_id (envs fork_state 0)"
      "env_id (envs t 1) = next_env_id (env_id (envs fork_state 1)) 1"
      "env_tf (envs t 1) = (env_tf (envs fork_state 0))\<lparr>tf_regs := (tf_regs (env_tf (envs fork_state 0)))\<lparr>reg_eax := 0\<rparr>\<rparr>"
      "\<forall>va < UTOP. \<not> present (pte t (env_dir t 1) va)" by blast
  have "env_id (envs fork_state 0) = 0x1000" using start_ids [of 0]
    by (simp add: fork_state_def one_env_inv(3) fresh_env_def next_env_id_def ENVGENSHIFT_def NENV_def Let_def)
  moreover have "env_id (envs t 1) = 0x1001" using start_ids [of 1] t(3)
    by (simp add: fork_state_def one_env_inv(3) next_env_id_def ENVGENSHIFT_def NENV_def Let_def)
  ultimately show ?thesis using t by (simp add: layout_values)
qed

section \<open>Traps\<close>



text \<open>
  C17: with a handler registered and the exception stack mapped writable, a page fault on the
  ordinary stack resumes the environment in its handler, with the stack pointer below the
  fault record, and the record on the exception stack is the fault address and the
  interrupted registers.
\<close>

theorem page_fault_reflected:
  assumes "fault_inv K R pin c s" "holding (this_cpu s) (kernel_lock s)"
    and "tf_cs (env_tf (envs s c)) AND 3 \<noteq> 0" "tf_cs (env_tf (envs s c)) \<noteq> GD_KT"
    and "env_pgfault_upcall (envs s c) \<noteq> 0"
    and "\<not> (tf_esp (env_tf (envs s c)) < UXSTACKTOP \<and> tf_esp (env_tf (envs s c)) \<ge> UXSTACKTOP - PGSIZE)"
    and "granted s (env_dir s c) (PTE_U OR PTE_W) (UXSTACKTOP - PGSIZE)" 
    and "entry s (env_dir s c) (PDX (UXSTACKTOP - PGSIZE)) AND PTE_W \<noteq> 0"
  shows "\<exists>t. page_fault_handler (FEnv c) s = Leave (RunEnv c) t \<and>
    env_tf (envs t c) = (env_tf (envs s c))\<lparr>tf_esp := UXSTACKTOP - 52, tf_eip := env_pgfault_upcall (envs s c)\<rparr> \<and>
    vread (UXSTACKTOP - 52) 52 t = Ret (utf_bytes (utf_of (cr2 s) (env_tf (envs s c)))) t"
  using page_fault_upcall [OF assms(1,2) refl assms(3-8)] .

theorem page_fault_reflected_witness:
  "\<exists>t. page_fault_handler (FEnv 0) upcall_state = Leave (RunEnv 0) t \<and> tf_eip (env_tf (envs t 0)) = 0x800020 \<and>
     tf_esp (env_tf (envs t 0)) = UXSTACKTOP - 52"
proof -
  note k = upcall_state_inv
  have f: "tf_cs (env_tf (envs upcall_state 0)) AND 3 \<noteq> 0" "tf_cs (env_tf (envs upcall_state 0)) \<noteq> GD_KT"
    "env_pgfault_upcall (envs upcall_state 0) \<noteq> 0"
    "\<not> (tf_esp (env_tf (envs upcall_state 0)) < UXSTACKTOP \<and> tf_esp (env_tf (envs upcall_state 0)) \<ge> UXSTACKTOP - PGSIZE)"
    using k(3,6) by (simp_all add: fresh_env_def GD_UT_def GD_KT_def layout_values PGSIZE_def)
  from page_fault_reflected [OF k(1,2) f] k(4,7,8) show ?thesis using k(3) by auto
qed


section \<open>The network driver\<close>

lemma vread_same: "vread va n s = Ret bs t \<Longrightarrow> t = s \<and> length bs = n"
proof (induction n arbitrary: va bs)
  case (Suc n)
  then show ?case by (auto simp: bindK_eq_Ret vld8_def split: option.splits)
qed simp

text \<open>One turn of the transmit ring.\<close>

lemma transmit_ok:
  assumes d: "tx_status (tx_desc_list (nic s) (unat (io_read reg_TDT s))) AND E1000_TXD_STAT_DD \<noteq> 0"
    and r: "e1000_transmit_packet packet sz s = Ret r t"
  defines "i \<equiv> unat (io_read reg_TDT s)" and "pa \<equiv> tx_addr_lower (tx_desc_list (nic s) (unat (io_read reg_TDT s)))"
  shows "r = 0 \<and> sz \<le> 1000 \<and> (\<exists>bs. vread packet (unat sz) s = Ret bs s \<and> length bs = unat sz \<and>
      pmem t = (\<lambda>a. if a - pa < sz then bs ! unat (a - pa) else pmem s a)) \<and>
    tx_desc_list (nic t) = (tx_desc_list (nic s))(i := (tx_desc_list (nic s) i)\<lparr>
      tx_status := tx_status (tx_desc_list (nic s) i) AND NOT E1000_TXD_STAT_DD, tx_length := ucast sz\<rparr>) \<and>
    io_read reg_TDT t = (if io_read reg_TDT s = 31 then 0 else io_read reg_TDT s + 1)"
proof -
  have u: "unat x = 31 \<longleftrightarrow> x = 31" for x :: u32 by (simp add: word_unat_eq_iff)
  have sz: "sz \<le> 1000" "\<not> sz > max_packet_size" "\<not> npages s \<le> PGNUM pa" "\<exists>bs t. vread packet (unat sz) s = Ret bs t"
    using d r by (auto simp: e1000_transmit_packet_def Let_def bindK_eq_Ret KADDR_def pa_def split: if_splits)
  then obtain bs where bs: "vread packet (unat sz) s = Ret bs s" "length bs = unat sz" using vread_same by blast
  have "e1000_transmit_packet packet sz s = Ret 0 (io_write reg_TDT (if i = n_tx_desc - 1 then 0 else of_nat i + 1)
       (set_tx_desc i ((tx_desc_list (nic s) i)\<lparr>tx_status := tx_status (tx_desc_list (nic s) i) AND NOT E1000_TXD_STAT_DD,
          tx_length := ucast sz\<rparr>) (s\<lparr>pmem := (\<lambda>a. if a - pa < sz then bs ! unat (a - pa) else pmem s a)\<rparr>)))"
    using d sz bs by (simp add: e1000_transmit_packet_def Let_def KADDR_def pa_def i_def cong: if_cong)
  then have "r = 0 \<and> t = io_write reg_TDT (if i = n_tx_desc - 1 then 0 else of_nat i + 1)
       (set_tx_desc i ((tx_desc_list (nic s) i)\<lparr>tx_status := tx_status (tx_desc_list (nic s) i) AND NOT E1000_TXD_STAT_DD,
          tx_length := ucast sz\<rparr>) (s\<lparr>pmem := (\<lambda>a. if a - pa < sz then bs ! unat (a - pa) else pmem s a)\<rparr>))"
    unfolding r kres.inject by blast
  then show ?thesis using bs sz(1)
    by (auto simp: io_write_def io_read_def set_tx_desc_def n_tx_desc_def u i_def)
qed

lemma transmit_succeeds:
  assumes "tx_status (tx_desc_list (nic s) (unat (io_read reg_TDT s))) AND E1000_TXD_STAT_DD \<noteq> 0" "sz \<le> 1000"
    "PGNUM (tx_addr_lower (tx_desc_list (nic s) (unat (io_read reg_TDT s)))) < npages s" "vread packet (unat sz) s = Ret bs s"
  shows "\<exists>t. e1000_transmit_packet packet sz s = Ret 0 t"
proof -
  have "\<not> max_packet_size < sz" using assms(2) by (simp add: max_packet_size_def word_less_nat_alt word_le_nat_alt)
  then show ?thesis using assms by (simp add: e1000_transmit_packet_def Let_def KADDR_def linorder_not_less [symmetric])
qed

lemma transmit_full:
  assumes "tx_status (tx_desc_list (nic s) (unat (io_read reg_TDT s))) AND E1000_TXD_STAT_DD = 0"
    "e1000_transmit_packet packet sz s = Ret r t"
  shows "r = - E_TX_BUFF_FULL" "t = s"
  using assms by (auto simp: e1000_transmit_packet_def Let_def bindK_eq_Ret split: if_splits)


fun transmit_all :: "(u32 \<times> u32) list \<Rightarrow> kstate \<Rightarrow> (int, kstate) kres" where
  "transmit_all [] s = Ret 0 s"
| "transmit_all ((packet, sz) # xs) s =
     bindK (e1000_transmit_packet packet sz s) (\<lambda>r s. if r < 0 then Ret r s else transmit_all xs s)"

definition tx_busy :: "kstate \<Rightarrow> nat set" where
  "tx_busy s = {i. i < n_tx_desc \<and> tx_status (tx_desc_list (nic s) i) AND E1000_TXD_STAT_DD = 0}"

lemma next_slot: "x < 32 \<Longrightarrow> x \<noteq> 31 \<Longrightarrow> x + 1 < (32 :: u32)"
  by (simp add: word_less_nat_alt word_unat_eq_iff unat_word_ariths)

lemma transmit_busy:
  assumes "e1000_transmit_packet packet sz s = Ret r t" "\<not> r < 0" "io_read reg_TDT s < 32"
  shows "card (tx_busy t) = Suc (card (tx_busy s)) \<and> io_read reg_TDT t < 32"
proof -
  let ?i = "unat (io_read reg_TDT s)"
  have d: "tx_status (tx_desc_list (nic s) ?i) AND E1000_TXD_STAT_DD \<noteq> 0"
    using transmit_full(1) [OF _ assms(1)] assms(2) by (auto simp: E_TX_BUFF_FULL_def)
  note o = transmit_ok [OF d assms(1)]
  have i: "?i < n_tx_desc" using assms(3) by (simp add: n_tx_desc_def word_less_nat_alt)
  have "tx_busy t = insert ?i (tx_busy s)" using o i by (auto simp: tx_busy_def and.assoc)
  moreover have "?i \<notin> tx_busy s" "finite (tx_busy s)" using d by (auto simp: tx_busy_def)
  moreover have "io_read reg_TDT t < 32" using o assms(3) next_slot by auto
  ultimately show ?thesis by simp
qed

text \<open>
  C25: the driver never reuses a descriptor the card has not handed back: without the card's
  help at most as many packets are accepted as descriptors were free at the start.
\<close>

theorem transmit_ring_bounded:
  assumes "io_read reg_TDT s < 32" "transmit_all xs s = Ret 0 t"
  shows "length xs + card (tx_busy s) \<le> n_tx_desc"
  using assms
proof (induction xs arbitrary: s)
  case Nil
  have "tx_busy s \<subseteq> {..<n_tx_desc}" by (auto simp: tx_busy_def)
  then show ?case using card_mono [of "{..<n_tx_desc}" "tx_busy s"] by simp
next
  case (Cons x xs)
  obtain packet sz where x: "x = (packet, sz)" by (cases x)
  with Cons.prems obtain r u where u: "e1000_transmit_packet packet sz s = Ret r u" "\<not> r < 0" "transmit_all xs u = Ret 0 t"
    by (auto simp: bindK_eq_Ret split: if_splits)
  from transmit_busy [OF u(1,2) Cons.prems(1)] Cons.IH [OF _ u(3)] show ?case by simp
qed

definition net_state :: kstate where
  "net_state = stack_state\<lparr>nic := zero_nic\<lparr>tx_desc_list := (\<lambda>_. tx_desc_init (page2pa 1))\<rparr>\<rparr>"

lemma net_state_read: "n \<le> 4096 \<Longrightarrow> \<exists>bs. vread (USTACKTOP - PGSIZE) n net_state = Ret bs net_state \<and> length bs = n"
proof (rule vread_granted)
  show "cr3 net_state = page2pa 0x10F" using stack_state_inv(3) by (simp add: net_state_def)
  fix i assume i: "n \<le> 4096" "i < n"
  then have "PGNUM (USTACKTOP - PGSIZE) = PGNUM (USTACKTOP - PGSIZE + of_nat i)"
    by (simp add: word_unat_eq_iff unat_PGNUM layout_values PGSIZE_def unat_word_ariths unat_of_nat)
  then have "granted stack_state 0x10F (PTE_U OR PTE_W) (USTACKTOP - PGSIZE + of_nat i)"
    using granted_page stack_state_inv(5) by blast
  note g = this
  have e: "entry net_state = entry stack_state" by (rule entry_pmem_cong) (simp add: net_state_def)
  show "granted net_state 0x10F (PTE_U OR PTE_W) (USTACKTOP - PGSIZE + of_nat i)"
    using g unfolding granted_def e pte_cong [OF e] .
qed

lemma net_state_tail: "io_read reg_TDT net_state = 0" "tx_status (tx_desc_list (nic net_state) i) AND E1000_TXD_STAT_DD \<noteq> 0"
  "PGNUM (tx_addr_lower (tx_desc_list (nic net_state) i)) < npages net_state"
  using stack_state_inv(7) by (simp_all add: net_state_def tx_desc_init_def E1000_TXD_STAT_DD_def io_read_def zero_nic_def page2pa_def PGNUM_def)

theorem transmit_ring_bounded_witness: "\<exists>t. transmit_all [(USTACKTOP - PGSIZE, 60)] net_state = Ret 0 t \<and> 1 + card (tx_busy net_state) \<le> 32"
proof -
  obtain bs where "vread (USTACKTOP - PGSIZE) (unat (60 :: u32)) net_state = Ret bs net_state" using net_state_read [of 60] by auto
  then obtain t where t: "transmit_all [(USTACKTOP - PGSIZE, 60)] net_state = Ret 0 t"
    using transmit_succeeds [of net_state 60 "USTACKTOP - PGSIZE" bs] net_state_tail by auto
  have "io_read reg_TDT net_state < 32" by (simp add: net_state_tail)
  from transmit_ring_bounded [OF this t] t show ?thesis by (simp add: n_tx_desc_def)
qed

text \<open>
  C24: a packet of at most 1000 bytes given to a free descriptor is copied into the buffer of
  that descriptor and handed to the card: the descriptor holds its length and is no longer
  free, the tail moves on to the next of the 32 slots, and no other descriptor and no other
  memory changes.
\<close>

theorem transmit_queues:
  assumes d: "tx_status d AND E1000_TXD_STAT_DD \<noteq> 0" "d = tx_desc_list (nic s) i" "i = unat (io_read reg_TDT s)" "i < 32"
    and sz: "sz \<le> 1000" and pa: "PGNUM (tx_addr_lower d) < npages s" and bs: "vread packet (unat sz) s = Ret bs s"
  shows "\<exists>t. e1000_transmit_packet packet sz s = Ret 0 t \<and> unat (io_read reg_TDT t) = (i + 1) mod 32 \<and>
    (\<forall>k < unat sz. pmem t (tx_addr_lower d + of_nat k) = bs ! k) \<and>
    (\<forall>a. \<not> a - tx_addr_lower d < sz \<longrightarrow> pmem t a = pmem s a) \<and>
    tx_length (tx_desc_list (nic t) i) = ucast sz \<and> tx_busy t = insert i (tx_busy s) \<and>
    (\<forall>j. j \<noteq> i \<longrightarrow> tx_desc_list (nic t) j = tx_desc_list (nic s) j)"
proof -
  obtain t where t: "e1000_transmit_packet packet sz s = Ret 0 t"
    using transmit_succeeds [of s sz packet bs] d sz pa bs by auto
  note o = transmit_ok [OF d(1) [unfolded d(2,3)] this, folded d(3), folded d(2)]
  obtain bs' where m: "vread packet (unat sz) s = Ret bs' s" "pmem t = (\<lambda>a. if a - tx_addr_lower d < sz then bs' ! unat (a - tx_addr_lower d) else pmem s a)"
    using o by blast
  have "pmem t (tx_addr_lower d + of_nat k) = bs ! k" if "k < unat sz" for k
  proof -
    have "unat (of_nat k :: u32) = k" using that sz by (intro unat_of_nat_u32) (simp add: word_le_nat_alt)
    then show ?thesis using that m bs by (simp add: word_less_nat_alt)
  qed
  moreover have "tx_busy t = insert i (tx_busy s)" using o d by (auto simp: tx_busy_def n_tx_desc_def and.assoc)
  moreover have "unat (io_read reg_TDT t) = (i + 1) mod 32"
    using o d(3,4) by (auto simp: unat_word_ariths word_unat_eq_iff)
  ultimately show ?thesis using t o m(2) by auto
qed

theorem transmit_queues_witness:
  "\<exists>t. e1000_transmit_packet (USTACKTOP - PGSIZE) 60 net_state = Ret 0 t \<and> unat (io_read reg_TDT t) = 1"
proof -
  obtain bs where v: "vread (USTACKTOP - PGSIZE) (unat (60 :: u32)) net_state = Ret bs net_state" using net_state_read [of 60] by auto
  have "0 = unat (io_read reg_TDT net_state)" using net_state_tail by simp
  from transmit_queues [OF net_state_tail(2) refl this _ _ net_state_tail(3) v] show ?thesis by auto
qed

end
