(* ===== verification/Bcache.thy ===== *)
theory Bcache
  imports Syscall Cstring "HOL-Library.Signed_Division"
begin

text \<open>
  The block cache of the file server (\<^verbatim>\<open>fs/bc.c\<close>) and its disk driver (\<^verbatim>\<open>fs/ide.c\<close>). The
  server is a user program: its memory is a map from its virtual addresses to bytes, together
  with which of its pages are present and which have been written since they were mapped. The
  disk is a map from sectors to bytes. What the kernel and the disk decide comes in as lists
  of answers: whether the next page can be allocated, and whether the next sector succeeds;
  an empty list stands for success.
\<close>

section \<open>State\<close>

record openfile =
  o_fileid :: u32
  o_file :: u32
  o_mode :: u32
  o_fd :: u32

record fs =
  fs_mem :: mem
  fs_present :: "u32 \<Rightarrow> bool"          \<comment> \<open>by page number: \<^verbatim>\<open>uvpd\<close> and \<^verbatim>\<open>uvpt\<close> have \<^verbatim>\<open>PTE_P\<close>\<close>
  fs_written :: "u32 \<Rightarrow> bool"          \<comment> \<open>by page number: \<^verbatim>\<open>uvpt\<close> has \<^verbatim>\<open>PTE_D\<close>\<close>
  fs_disk :: "u32 \<Rightarrow> u32 \<Rightarrow> u8"      \<comment> \<open>by sector and offset\<close>
  super :: u32
  bitmap :: u32
  fs_memory_left :: "bool list"
  fs_disk_works :: "bool list"
  fs_pageref :: "u32 \<Rightarrow> u32"           \<comment> \<open>by page number: \<^verbatim>\<open>pp_ref\<close> of the page mapped there\<close>
  opentab :: "nat \<Rightarrow> openfile"

definition BLKSIZE :: u32 where "BLKSIZE = PGSIZE"
definition BLKBITSIZE :: u32 where "BLKBITSIZE = BLKSIZE * 8"
definition SECTSIZE :: u32 where "SECTSIZE = 512"
definition BLKSECTS :: u32 where "BLKSECTS = BLKSIZE div SECTSIZE"
definition DISKMAP :: u32 where "DISKMAP = 0x10000000"
definition DISKSIZE :: u32 where "DISKSIZE = 0xC0000000"

definition set_present :: "u32 \<Rightarrow> bool \<Rightarrow> fs \<Rightarrow> fs" where
  "set_present p b s = s\<lparr>fs_present := (fs_present s)(p := b)\<rparr>"

definition set_written :: "u32 \<Rightarrow> bool \<Rightarrow> fs \<Rightarrow> fs" where
  "set_written p b s = s\<lparr>fs_written := (fs_written s)(p := b)\<rparr>"

section \<open>System calls of the server on itself\<close>

text \<open>
  \<^verbatim>\<open>sys_page_alloc\<close>, \<^verbatim>\<open>sys_page_map\<close> from an address to itself, and \<^verbatim>\<open>sys_page_unmap\<close>, as
  their caller sees them. Mapping a page again clears the hardware's \<^verbatim>\<open>PTE_D\<close>.
\<close>

definition self_page_alloc :: "u32 \<Rightarrow> fs \<Rightarrow> int \<times> fs" where
  "self_page_alloc va s =
     (if bad_va va then (- E_INVAL, s)
      else if fs_memory_left s \<noteq> [] \<and> \<not> hd (fs_memory_left s)
      then (- E_NO_MEM, s\<lparr>fs_memory_left := tl (fs_memory_left s)\<rparr>)
      else (0, set_written (PGNUM va) False (set_present (PGNUM va) True
        (s\<lparr>fs_memory_left := tl (fs_memory_left s), fs_mem := mem_set (fs_mem s) va 0 PGSIZE,
           fs_pageref := (fs_pageref s)(PGNUM va := 1)\<rparr>))))"

definition self_page_map :: "u32 \<Rightarrow> fs \<Rightarrow> int \<times> fs" where
  "self_page_map va s =
     (if bad_va va then (- E_INVAL, s)
      else if \<not> fs_present s (PGNUM va) then (- E_INVAL, s)
      else (0, set_written (PGNUM va) False s))"

definition self_page_unmap :: "u32 \<Rightarrow> fs \<Rightarrow> int \<times> fs" where
  "self_page_unmap va s =
     (if bad_va va then (- E_INVAL, s)
      else (0, set_present (PGNUM va) False s))"

section \<open>The disk driver\<close>

text \<open>The drive is addressed with 28 bits and steps to the next sector by itself.\<close>

definition lba :: "u32 \<Rightarrow> u32" where
  "lba secno = secno AND 0x0FFFFFFF"

definition next_answer :: "bool list \<Rightarrow> bool" where
  "next_answer bs \<longleftrightarrow> bs = [] \<or> hd bs"

fun ide_read_loop :: "nat \<Rightarrow> u32 \<Rightarrow> u32 \<Rightarrow> fs \<Rightarrow> int \<times> fs" where
  "ide_read_loop 0 sect dst s = (0, s)"
| "ide_read_loop (Suc n) sect dst s =
     (let ok = next_answer (fs_disk_works s); s = s\<lparr>fs_disk_works := tl (fs_disk_works s)\<rparr> in
      if \<not> ok then (- 1, s)
      else ide_read_loop n (sect + 1) (dst + SECTSIZE)
        (set_written (PGNUM dst) True (s\<lparr>fs_mem := (\<lambda>a. if a - dst < SECTSIZE then fs_disk s sect (a - dst) else fs_mem s a)\<rparr>)))"

definition ide_read :: "u32 \<Rightarrow> u32 \<Rightarrow> nat \<Rightarrow> fs \<Rightarrow> (int, fs) kres" where
  "ide_read secno dst nsecs s =
     bindK (assertK (nsecs \<le> 256) ''nsecs <= 256'' s) (\<lambda>_ s.
       case ide_read_loop nsecs (lba secno) dst s of (r, s) \<Rightarrow> Ret r s)"

fun ide_write_loop :: "nat \<Rightarrow> u32 \<Rightarrow> u32 \<Rightarrow> fs \<Rightarrow> int \<times> fs" where
  "ide_write_loop 0 sect src s = (0, s)"
| "ide_write_loop (Suc n) sect src s =
     (let ok = next_answer (fs_disk_works s); s = s\<lparr>fs_disk_works := tl (fs_disk_works s)\<rparr> in
      if \<not> ok then (- 1, s)
      else ide_write_loop n (sect + 1) (src + SECTSIZE)
        (s\<lparr>fs_disk := (fs_disk s)(sect := (\<lambda>ofs. if ofs < SECTSIZE then fs_mem s (src + ofs) else fs_disk s sect ofs))\<rparr>))"

definition ide_write :: "u32 \<Rightarrow> u32 \<Rightarrow> nat \<Rightarrow> fs \<Rightarrow> (int, fs) kres" where
  "ide_write secno src nsecs s =
     bindK (assertK (nsecs \<le> 256) ''nsecs <= 256'' s) (\<lambda>_ s.
       case ide_write_loop nsecs (lba secno) src s of (r, s) \<Rightarrow> Ret r s)"

section \<open>Faulting accesses\<close>

text \<open>
  A word of the cache, read with the page fault handler \<open>h\<close> installed. Addresses outside the
  cache are the server's own variables and buffers, which are always there.
\<close>

definition in_cache :: "u32 \<Rightarrow> bool" where
  "in_cache a \<longleftrightarrow> \<not> (a < DISKMAP \<or> a \<ge> DISKMAP + DISKSIZE)"

definition touch_with :: "(u32 \<Rightarrow> fs \<Rightarrow> (unit, fs) kres) \<Rightarrow> u32 \<Rightarrow> fs \<Rightarrow> (unit, fs) kres" where
  "touch_with h a s = (if in_cache a \<and> \<not> fs_present s (PGNUM a) then h a s else Ret () s)"

definition load_with :: "(u32 \<Rightarrow> fs \<Rightarrow> (unit, fs) kres) \<Rightarrow> u32 \<Rightarrow> fs \<Rightarrow> (u32, fs) kres" where
  "load_with h a s = bindK (touch_with h a s) (\<lambda>_ s. Ret (ld32 (fs_mem s) a) s)"

definition block_is_free_with :: "(u32 \<Rightarrow> fs \<Rightarrow> (unit, fs) kres) \<Rightarrow> u32 \<Rightarrow> fs \<Rightarrow> (bool, fs) kres" where
  "block_is_free_with h blockno s =
     (if super s = 0 then Ret False s
      else bindK (load_with h (super s + 4) s) (\<lambda>s_nblocks s.
        if blockno \<ge> s_nblocks then Ret False s
        else bindK (load_with h (bitmap s + 4 * (blockno div 32)) s) (\<lambda>w s.
          Ret (w AND push_bit (unat (blockno mod 32)) 1 \<noteq> 0) s)))"

text \<open>
  The page fault handler. The accesses it makes may fault themselves; the depth is bounded by
  the first argument, and four levels are enough: the bitmap word of a block, of a bitmap
  block, and of the first bitmap block.
\<close>

primrec bc_pgfault :: "nat \<Rightarrow> u32 \<Rightarrow> fs \<Rightarrow> (unit, fs) kres" where
  "bc_pgfault 0 = (\<lambda>addr s. Leave SpinForever s)"
| "bc_pgfault (Suc n) = (\<lambda>addr s.
     let blockno = (addr - DISKMAP) div BLKSIZE in
     if addr < DISKMAP \<or> addr \<ge> DISKMAP + DISKSIZE then Panic ''page fault in FS''
     else
       bindK (if super s \<noteq> 0 then bindK (load_with (bc_pgfault n) (super s + 4) s) (\<lambda>s_nblocks s. Ret (blockno \<ge> s_nblocks) s)
              else Ret False s) (\<lambda>bad s.
       if bad then Panic ''reading non-existent block''
       else
         let addr_base = ROUNDDOWN addr PGSIZE in
         case self_page_alloc addr_base s of (r, s) \<Rightarrow>
         if r < 0 then Panic ''bc_pgfault: sys_page_alloc''
         else bindK (ide_read (blockno * BLKSECTS) addr_base (unat BLKSECTS) s) (\<lambda>r s.
           if r < 0 then Panic ''bc_pgfault: ide_read''
           else case self_page_map addr s of (r, s) \<Rightarrow>
             if r < 0 then Panic ''in bc_pgfault, sys_page_map''
             else if bitmap s \<noteq> 0
             then bindK (block_is_free_with (bc_pgfault n) blockno s) (\<lambda>free s.
               if free then Panic ''reading free block'' else Ret () s)
             else Ret () s)))"

definition touch :: "u32 \<Rightarrow> fs \<Rightarrow> (unit, fs) kres" where
  "touch = touch_with (bc_pgfault 4)"

definition fs_load :: "u32 \<Rightarrow> fs \<Rightarrow> (u32, fs) kres" where
  "fs_load = load_with (bc_pgfault 4)"

definition fs_store :: "u32 \<Rightarrow> u32 \<Rightarrow> fs \<Rightarrow> (unit, fs) kres" where
  "fs_store a v s = bindK (touch a s) (\<lambda>_ s. Ret () (set_written (PGNUM a) True (s\<lparr>fs_mem := st32 (fs_mem s) a v\<rparr>)))"

definition block_is_free :: "u32 \<Rightarrow> fs \<Rightarrow> (bool, fs) kres" where
  "block_is_free = block_is_free_with (bc_pgfault 4)"

text \<open>\<^verbatim>\<open>memset\<close> and \<^verbatim>\<open>memmove\<close> on ranges that lie in one page; they start at the first address.\<close>

definition fs_memset :: "u32 \<Rightarrow> u8 \<Rightarrow> u32 \<Rightarrow> fs \<Rightarrow> (unit, fs) kres" where
  "fs_memset a v n s = (if n = 0 then Ret () s
     else bindK (touch a s) (\<lambda>_ s. Ret () (set_written (PGNUM a) True (s\<lparr>fs_mem := mem_set (fs_mem s) a v n\<rparr>))))"

definition fs_memmove :: "u32 \<Rightarrow> u32 \<Rightarrow> u32 \<Rightarrow> fs \<Rightarrow> (unit, fs) kres" where
  "fs_memmove dst src n s = (if n = 0 then Ret () s
     else bindK (touch src s) (\<lambda>_ s. bindK (touch dst s) (\<lambda>_ s.
       Ret () (set_written (PGNUM dst) True (s\<lparr>fs_mem := mem_copy (fs_mem s) dst src n\<rparr>)))))"

section \<open>The block cache\<close>

definition diskaddr :: "u32 \<Rightarrow> fs \<Rightarrow> (u32, fs) kres" where
  "diskaddr blockno s =
     bindK (if blockno = 0 then Ret True s
            else if super s \<noteq> 0 then bindK (fs_load (super s + 4) s) (\<lambda>s_nblocks s. Ret (blockno \<ge> s_nblocks) s)
            else Ret False s) (\<lambda>bad s.
     if bad then Panic ''bad block number in diskaddr'' else Ret (DISKMAP + blockno * BLKSIZE) s)"

definition va_is_mapped :: "u32 \<Rightarrow> fs \<Rightarrow> bool" where
  "va_is_mapped va s = fs_present s (PGNUM va)"

definition va_is_dirty :: "u32 \<Rightarrow> fs \<Rightarrow> bool" where
  "va_is_dirty va s = fs_written s (PGNUM va)"

definition flush_block :: "u32 \<Rightarrow> fs \<Rightarrow> (unit, fs) kres" where
  "flush_block addr s =
     (let blockno = (addr - DISKMAP) div BLKSIZE in
      if addr < DISKMAP \<or> addr \<ge> DISKMAP + DISKSIZE then Panic ''flush_block of bad va''
      else if va_is_mapped addr s \<and> va_is_dirty addr s then
        let addr_base = ROUNDDOWN addr PGSIZE in
        bindK (ide_write (blockno * BLKSECTS) addr_base (unat BLKSECTS) s) (\<lambda>r s.
          if r < 0 then Panic ''flush_block: ide_write''
          else case self_page_map addr_base s of (r, s) \<Rightarrow>
            if r < 0 then Panic ''in flush_block, sys_page_map'' else Ret () s)
      else Ret () s)"

text \<open>A string constant copied into the cache, and the comparison with it.\<close>

definition fs_put :: "u32 \<Rightarrow> u8 list \<Rightarrow> fs \<Rightarrow> (unit, fs) kres" where
  "fs_put a bs s = (if bs = [] then Ret () s
     else bindK (touch a s) (\<lambda>_ s. Ret () (set_written (PGNUM a) True
       (s\<lparr>fs_mem := (\<lambda>x. if x - a < of_nat (length bs) then bs ! unat (x - a) else fs_mem s x)\<rparr>))))"

definition fs_get :: "u32 \<Rightarrow> nat \<Rightarrow> fs \<Rightarrow> (u8 list, fs) kres" where
  "fs_get a n s = bindK (touch a s) (\<lambda>_ s. Ret (map (\<lambda>i. fs_mem s (a + of_nat i)) [0..<n]) s)"

definition oops_str :: "u8 list" where
  "oops_str = [79, 79, 80, 83, 33, 10, 0]"

definition check_bc :: "fs \<Rightarrow> (unit, fs) kres" where
  "check_bc s =
     bindK (diskaddr 1 s) (\<lambda>a s.
     bindK (fs_get a 264 s) (\<lambda>backup s.
     bindK (fs_put a oops_str s) (\<lambda>_ s.
     bindK (flush_block a s) (\<lambda>_ s.
     bindK (assertK (va_is_mapped a s) ''va_is_mapped(diskaddr(1))'' s) (\<lambda>_ s.
     bindK (assertK (\<not> va_is_dirty a s) ''!va_is_dirty(diskaddr(1))'' s) (\<lambda>_ s.
     case self_page_unmap a s of (_, s) \<Rightarrow>
     bindK (assertK (\<not> va_is_mapped a s) ''!va_is_mapped(diskaddr(1))'' s) (\<lambda>_ s.
     bindK (fs_get a 7 s) (\<lambda>bs s.
     bindK (assertK (bs = oops_str) ''strcmp(diskaddr(1), OOPS) == 0'' s) (\<lambda>_ s.
     bindK (fs_put a backup s) (\<lambda>_ s. flush_block a s))))))))))"

definition bc_init :: "fs \<Rightarrow> (unit, fs) kres" where
  "bc_init s = bindK (check_bc s) (\<lambda>_ s. bindK (diskaddr 1 s) (\<lambda>a s. bindK (fs_get a 264 s) (\<lambda>_ s. Ret () s)))"

end
