(* ===== verification/Fs.thy ===== *)
theory Fs
  imports Bcache
begin

text \<open>
  The file system (\<^verbatim>\<open>fs/fs.c\<close>). A pointer to a \<^verbatim>\<open>struct File\<close> is its address in the block
  cache; its fields are words at fixed offsets.
\<close>

lemma bindK_cong [fundef_cong]:
  assumes "m = m'" "\<And>a s. m' = Ret a s \<Longrightarrow> f a s = f' a s"
  shows "bindK m f = bindK m' f'"
  using assms by (cases m') simp_all

section \<open>Layout\<close>

definition NDIRECT :: u32 where "NDIRECT = 10"
definition NINDIRECT :: u32 where "NINDIRECT = BLKSIZE div 4"
definition MAXNAMELEN :: nat where "MAXNAMELEN = 128"
definition BLKFILES :: nat where "BLKFILES = 16"
definition FTYPE_DIR :: u32 where "FTYPE_DIR = 1"
definition FS_MAGIC :: u32 where "FS_MAGIC = 0x4A0530AE"

text \<open>Addresses of the fields of the \<^verbatim>\<open>struct File\<close> at \<open>f\<close>.\<close>

definition f_size :: "u32 \<Rightarrow> u32" where "f_size f = f + 128"
definition f_type :: "u32 \<Rightarrow> u32" where "f_type f = f + 132"
definition f_direct :: "u32 \<Rightarrow> u32 \<Rightarrow> u32" where "f_direct f i = f + 136 + 4 * i"
definition f_indirect :: "u32 \<Rightarrow> u32" where "f_indirect f = f + 176"

text \<open>The fields of the super block.\<close>

definition s_magic :: "fs \<Rightarrow> u32" where "s_magic s = super s"
definition s_nblocks :: "fs \<Rightarrow> u32" where "s_nblocks s = super s + 4"
definition s_root :: "fs \<Rightarrow> u32" where "s_root s = super s + 8"

text \<open>C division of a signed 32-bit number.\<close>

definition div_blk :: "u32 \<Rightarrow> u32" where
  "div_blk x = word_of_int (sint x sdiv sint BLKSIZE)"

definition mod_blk :: "u32 \<Rightarrow> u32" where
  "mod_blk x = word_of_int (sint x smod sint BLKSIZE)"

section \<open>Super block and bitmap\<close>

definition check_super :: "fs \<Rightarrow> (unit, fs) kres" where
  "check_super s =
     bindK (fs_load (s_magic s) s) (\<lambda>magic s.
     if magic \<noteq> FS_MAGIC then Panic ''bad file system magic number''
     else bindK (fs_load (s_nblocks s) s) (\<lambda>n s.
       if n > DISKSIZE div BLKSIZE then Panic ''file system is too large'' else Ret () s))"

definition free_block :: "u32 \<Rightarrow> fs \<Rightarrow> (unit, fs) kres" where
  "free_block blockno s =
     (if blockno = 0 then Panic ''attempt to free zero block''
      else let a = bitmap s + 4 * (blockno div 32) in
        bindK (fs_load a s) (\<lambda>w s. fs_store a (w OR push_bit (unat (blockno mod 32)) 1) s))"

function alloc_block_from :: "u32 \<Rightarrow> fs \<Rightarrow> (int, fs) kres" where
  "alloc_block_from blockno s =
     bindK (fs_load (s_nblocks s) s) (\<lambda>n s.
     if \<not> blockno < n then Ret (- E_NO_DISK) s
     else let a = bitmap s + 4 * (blockno div 32); b = push_bit (unat (blockno mod 32)) 1 in
       bindK (fs_load a s) (\<lambda>w s.
       if w AND b \<noteq> 0 then
         bindK (fs_load a s) (\<lambda>w s.
         bindK (fs_store a (w AND NOT b) s) (\<lambda>_ s.
         bindK (flush_block a s) (\<lambda>_ s. Ret (sint blockno) s)))
       else alloc_block_from (blockno + 1) s))"
  by pat_completeness auto
termination
proof (relation "measure (\<lambda>(b, s). 2 ^ 32 - unat b)", goal_cases)
  case (2 blockno s n)
  then have "blockno < n" by simp
  then have "unat blockno + 1 < 2 ^ 32" using unat_u32_less [of n] by (simp add: word_less_nat_alt)
  then show ?case by (simp add: unat_word_ariths)
qed simp

declare alloc_block_from.simps [simp del]

definition alloc_block :: "fs \<Rightarrow> (int, fs) kres" where
  "alloc_block s =
     (if super s = 0 then Panic ''alloc_block: Super block doesn't exist.'' else alloc_block_from 0 s)"

text \<open>
  The product wraps around; after \<open>2\<^sup>3\<^sup>2\<close> turns the loop is where it began, and never ends.
\<close>

primrec check_bitmap_from :: "nat \<Rightarrow> u32 \<Rightarrow> fs \<Rightarrow> (unit, fs) kres" where
  "check_bitmap_from 0 i s = Leave SpinForever s"
| "check_bitmap_from (Suc k) i s =
     bindK (fs_load (s_nblocks s) s) (\<lambda>n s.
     if \<not> i * BLKBITSIZE < n then Ret () s
     else bindK (block_is_free (2 + i) s) (\<lambda>free s.
       bindK (assertK (\<not> free) ''!block_is_free(2+i)'' s) (\<lambda>_ s. check_bitmap_from k (i + 1) s)))"

definition check_bitmap :: "fs \<Rightarrow> (unit, fs) kres" where
  "check_bitmap s =
     bindK (check_bitmap_from (2 ^ 32) 0 s) (\<lambda>_ s.
     bindK (block_is_free 0 s) (\<lambda>free s.
     bindK (assertK (\<not> free) ''!block_is_free(0)'' s) (\<lambda>_ s.
     bindK (block_is_free 1 s) (\<lambda>free s. assertK (\<not> free) ''!block_is_free(1)'' s))))"

text \<open>The choice of the disk drive is not part of the state.\<close>

definition fs_init :: "fs \<Rightarrow> (unit, fs) kres" where
  "fs_init s =
     bindK (bc_init s) (\<lambda>_ s.
     bindK (diskaddr 1 s) (\<lambda>a s.
     bindK (check_super (s\<lparr>super := a\<rparr>)) (\<lambda>_ s.
     bindK (diskaddr 2 s) (\<lambda>a s. check_bitmap (s\<lparr>bitmap := a\<rparr>)))))"

section \<open>Blocks of a file\<close>

text \<open>Allocating a block and clearing it, in the cache and on the disk.\<close>

definition new_block :: "fs \<Rightarrow> (int, fs) kres" where
  "new_block s =
     bindK (alloc_block s) (\<lambda>blockno s.
     if blockno < 0 then Ret (- E_NO_DISK) s
     else bindK (diskaddr (word_of_int blockno) s) (\<lambda>a s.
       bindK (fs_memset a 0 BLKSIZE s) (\<lambda>_ s.
       bindK (diskaddr (word_of_int blockno) s) (\<lambda>a s.
       bindK (flush_block a s) (\<lambda>_ s. Ret blockno s)))))"

text \<open>The result and the address stored through \<^verbatim>\<open>ppdiskbno\<close>, which is set on success only.\<close>

definition file_block_walk :: "u32 \<Rightarrow> u32 \<Rightarrow> bool \<Rightarrow> fs \<Rightarrow> (int \<times> u32, fs) kres" where
  "file_block_walk f filebno alloc s =
     (if filebno \<ge> NDIRECT + NINDIRECT then Ret (- E_INVAL, 0) s
      else if filebno < NDIRECT then Ret (0, f_direct f filebno) s
      else bindK (fs_load (f_indirect f) s) (\<lambda>ind s.
        bindK (if ind = 0 then
                 if \<not> alloc then Ret (- E_NOT_FOUND) s
                 else bindK (new_block s) (\<lambda>blockno s.
                   if blockno < 0 then Ret (- E_NO_DISK) s
                   else bindK (fs_store (f_indirect f) (word_of_int blockno) s) (\<lambda>_ s. Ret 0 s))
               else Ret 0 s) (\<lambda>r s.
        if r < 0 then Ret (r, 0) s
        else bindK (fs_load (f_indirect f) s) (\<lambda>ind s.
          bindK (diskaddr ind s) (\<lambda>indirect_array s.
            Ret (0, indirect_array + 4 * (filebno - NDIRECT)) s)))))"

definition file_get_block :: "u32 \<Rightarrow> u32 \<Rightarrow> fs \<Rightarrow> (int \<times> u32, fs) kres" where
  "file_get_block f filebno s =
     bindK (file_block_walk f filebno True s) (\<lambda>(r, pdiskbno) s.
     if r < 0 then Ret (r, 0) s
     else bindK (fs_load pdiskbno s) (\<lambda>d s.
       bindK (if d = 0 then
                bindK (new_block s) (\<lambda>blockno s.
                  if blockno < 0 then Ret (- E_NO_DISK) s
                  else bindK (fs_store pdiskbno (word_of_int blockno) s) (\<lambda>_ s. Ret 0 s))
              else Ret 0 s) (\<lambda>r s.
       if r < 0 then Ret (r, 0) s
       else bindK (fs_load pdiskbno s) (\<lambda>d s. bindK (diskaddr d s) (\<lambda>blk s. Ret (0, blk) s)))))"

section \<open>Directories\<close>

text \<open>\<^verbatim>\<open>strcmp(a, name) == 0\<close> for a name without null characters.\<close>

fun cstr_eq :: "mem \<Rightarrow> u32 \<Rightarrow> u8 list \<Rightarrow> bool" where
  "cstr_eq m a [] \<longleftrightarrow> m a = 0"
| "cstr_eq m a (b # bs) \<longleftrightarrow> m a = b \<and> cstr_eq m (a + 1) bs"

text \<open>The first of the \<^verbatim>\<open>struct File\<close>s of a block that satisfies a predicate.\<close>

fun dir_scan :: "(mem \<Rightarrow> u32 \<Rightarrow> bool) \<Rightarrow> u32 \<Rightarrow> nat list \<Rightarrow> fs \<Rightarrow> (u32 option, fs) kres" where
  "dir_scan P blk [] s = Ret None s"
| "dir_scan P blk (j # js) s =
     (let f = blk + 256 * of_nat j in
      bindK (touch f s) (\<lambda>_ s. if P (fs_mem s) f then Ret (Some f) s else dir_scan P blk js s))"

function dir_find :: "(mem \<Rightarrow> u32 \<Rightarrow> bool) \<Rightarrow> u32 \<Rightarrow> u32 \<Rightarrow> u32 \<Rightarrow> fs \<Rightarrow> (int \<times> u32, fs) kres" where
  "dir_find P dir nblock i s =
     (if \<not> i < nblock then Ret (- E_NOT_FOUND, 0) s
      else bindK (file_get_block dir i s) (\<lambda>(r, blk) s.
        if r < 0 then Ret (r, 0) s
        else bindK (dir_scan P blk [0..<BLKFILES] s) (\<lambda>found s. case found of
            Some f \<Rightarrow> Ret (0, f) s
          | None \<Rightarrow> dir_find P dir nblock (i + 1) s)))"
  by pat_completeness auto
termination
proof (relation "measure (\<lambda>(P, dir, nblock, i, s). unat nblock - unat i)", goal_cases)
  case (2 P dir nblock i s)
  then have "i < nblock" by simp
  then have "unat i < unat nblock" "unat i + 1 < 2 ^ 32" using unat_u32_less [of nblock] by (simp_all add: word_less_nat_alt)
  then show ?case by (simp add: unat_word_ariths)
qed simp

declare dir_find.simps [simp del]

text \<open>The number of blocks of a directory, whose size must be a multiple of the block size.\<close>

definition dir_nblock :: "u32 \<Rightarrow> fs \<Rightarrow> (u32, fs) kres" where
  "dir_nblock dir s =
     bindK (fs_load (f_size dir) s) (\<lambda>sz s.
     bindK (assertK (mod_blk sz = 0) ''(dir->f_size % BLKSIZE) == 0'' s) (\<lambda>_ s.
     bindK (fs_load (f_size dir) s) (\<lambda>sz s. Ret (div_blk sz) s)))"

definition dir_lookup :: "u32 \<Rightarrow> u8 list \<Rightarrow> fs \<Rightarrow> (int \<times> u32, fs) kres" where
  "dir_lookup dir name s =
     bindK (dir_nblock dir s) (\<lambda>nblock s. dir_find (\<lambda>m f. cstr_eq m f name) dir nblock 0 s)"

definition dir_alloc_file :: "u32 \<Rightarrow> fs \<Rightarrow> (int \<times> u32, fs) kres" where
  "dir_alloc_file dir s =
     bindK (dir_nblock dir s) (\<lambda>nblock s.
     bindK (dir_find (\<lambda>m f. m f = 0) dir nblock 0 s) (\<lambda>(r, f) s.
     if r \<noteq> - E_NOT_FOUND then Ret (r, f) s
     else bindK (fs_load (f_size dir) s) (\<lambda>sz s.
       bindK (fs_store (f_size dir) (sz + BLKSIZE) s) (\<lambda>_ s.
       bindK (file_get_block dir nblock s) (\<lambda>(r, blk) s. if r < 0 then Ret (r, 0) s else Ret (0, blk) s)))))"

section \<open>Paths\<close>

definition skip_slash :: "u8 list \<Rightarrow> u8 list" where
  "skip_slash p = dropWhile (\<lambda>c. c = 47) p"

lemma length_skip_slash: "length (skip_slash p) \<le> length p"
  by (simp add: skip_slash_def length_dropWhile_le)

text \<open>
  The loop of \<^verbatim>\<open>walk_path\<close>, with the directory and the file found so far. The result is what
  \<^verbatim>\<open>walk_path\<close> returns and stores through \<^verbatim>\<open>pdir\<close>, \<^verbatim>\<open>pf\<close> and \<^verbatim>\<open>lastelem\<close>; zero and the empty name
  stand for what it does not set.
\<close>

function walk_loop :: "u8 list \<Rightarrow> u32 \<Rightarrow> u32 \<Rightarrow> fs \<Rightarrow> (int \<times> u32 \<times> u32 \<times> u8 list, fs) kres" where
  "walk_loop path dir f s =
     (if path = [] then Ret (0, dir, f, []) s
      else
        let name = takeWhile (\<lambda>c. c \<noteq> 47) path; rest = dropWhile (\<lambda>c. c \<noteq> 47) path in
        if length name \<ge> MAXNAMELEN then Ret (- E_BAD_PATH, 0, 0, []) s
        else
          let rest = skip_slash rest in
          bindK (fs_load (f_type f) s) (\<lambda>ty s.
          if ty \<noteq> FTYPE_DIR then Ret (- E_NOT_FOUND, 0, 0, []) s
          else bindK (dir_lookup f name s) (\<lambda>(r, g) s.
            if r < 0 then
              if r = - E_NOT_FOUND \<and> rest = [] then Ret (r, f, 0, name) s else Ret (r, 0, 0, []) s
            else walk_loop rest f g s)))"
  by pat_completeness auto
termination
proof (relation "measure (\<lambda>(path, dir, f, s). length path)", goal_cases)
  case (2 path dir f s)
  then obtain c cs where p: "path = c # cs" by (cases path) auto
  show ?case
  proof (cases "c = 47")
    case True
    then have "skip_slash (dropWhile (\<lambda>c. c \<noteq> 47) path) = skip_slash cs" by (simp add: p skip_slash_def)
    then show ?thesis using 2 length_skip_slash [of cs] by (simp add: p)
  next
    case False
    then have "dropWhile (\<lambda>c. c \<noteq> 47) path = dropWhile (\<lambda>c. c \<noteq> 47) cs" by (simp add: p)
    then show ?thesis using 2 length_skip_slash [of "dropWhile (\<lambda>c. c \<noteq> 47) cs"] length_dropWhile_le [of "\<lambda>c. c \<noteq> 47" cs]
      by (simp add: p)
  qed
qed simp

declare walk_loop.simps [simp del]

definition walk_path :: "u8 list \<Rightarrow> fs \<Rightarrow> (int \<times> u32 \<times> u32 \<times> u8 list, fs) kres" where
  "walk_path path s = walk_loop (skip_slash path) 0 (s_root s) s"

section \<open>Files\<close>

definition file_free_block :: "u32 \<Rightarrow> u32 \<Rightarrow> fs \<Rightarrow> (int, fs) kres" where
  "file_free_block f filebno s =
     bindK (file_block_walk f filebno False s) (\<lambda>(r, ptr) s.
     if r < 0 then Ret r s
     else bindK (fs_load ptr s) (\<lambda>d s.
       if d \<noteq> 0 then bindK (free_block d s) (\<lambda>_ s. bindK (fs_store ptr 0 s) (\<lambda>_ s. Ret 0 s))
       else Ret 0 s))"

text \<open>The number of blocks a file of a size needs.\<close>

definition nblocks_of :: "u32 \<Rightarrow> u32" where
  "nblocks_of sz = div_blk (sz + BLKSIZE - 1)"

function free_blocks_from :: "u32 \<Rightarrow> u32 \<Rightarrow> u32 \<Rightarrow> fs \<Rightarrow> (unit, fs) kres" where
  "free_blocks_from f bno old_nblocks s =
     (if \<not> bno < old_nblocks then Ret () s
      else bindK (file_free_block f bno s) (\<lambda>_ s. free_blocks_from f (bno + 1) old_nblocks s))"
  by pat_completeness auto
termination
proof (relation "measure (\<lambda>(f, bno, n, s). unat n - unat bno)", goal_cases)
  case (2 f bno n s)
  then have "bno < n" by simp
  then have "unat bno < unat n" "unat bno + 1 < 2 ^ 32" using unat_u32_less [of n] by (simp_all add: word_less_nat_alt)
  then show ?case by (simp add: unat_word_ariths)
qed simp

declare free_blocks_from.simps [simp del]

definition file_truncate_blocks :: "u32 \<Rightarrow> u32 \<Rightarrow> fs \<Rightarrow> (unit, fs) kres" where
  "file_truncate_blocks f newsize s =
     bindK (fs_load (f_size f) s) (\<lambda>sz s.
     let old_nblocks = nblocks_of sz; new_nblocks = nblocks_of newsize in
     bindK (free_blocks_from f new_nblocks old_nblocks s) (\<lambda>_ s.
     if new_nblocks \<le> NDIRECT then
       bindK (fs_load (f_indirect f) s) (\<lambda>ind s.
       if ind \<noteq> 0 then
         bindK (fs_load (f_indirect f) s) (\<lambda>ind s.
         bindK (free_block ind s) (\<lambda>_ s. fs_store (f_indirect f) 0 s))
       else Ret () s)
     else Ret () s))"

definition file_set_size :: "u32 \<Rightarrow> u32 \<Rightarrow> fs \<Rightarrow> (int, fs) kres" where
  "file_set_size f newsize s =
     bindK (fs_load (f_size f) s) (\<lambda>sz s.
     bindK (if sint sz > sint newsize then file_truncate_blocks f newsize s else Ret () s) (\<lambda>_ s.
     bindK (fs_store (f_size f) newsize s) (\<lambda>_ s.
     bindK (flush_block f s) (\<lambda>_ s. Ret 0 s))))"

text \<open>
  The loops of \<^verbatim>\<open>file_read\<close> and \<^verbatim>\<open>file_write\<close>, to the position \<open>end\<close>. The comparison of
  positions is unsigned because \<^verbatim>\<open>count\<close> is. The two differ in the direction of the copy.
\<close>

definition chunk :: "u32 \<Rightarrow> u32 \<Rightarrow> u32" where
  "chunk pos to = MIN_u32 (BLKSIZE - mod_blk pos) (to - pos)"

lemma unat_word_of_int_u32: "0 \<le> k \<Longrightarrow> k < 2 ^ 32 \<Longrightarrow> unat (word_of_int k :: u32) = nat k"
  by (simp only: unat_eq_nat_uint uint_word_of_int take_bit_int_eq_self len_num1 len_bit0) simp

lemma chunk_bounds:
  assumes "pos < to"
  shows "0 < unat (chunk pos to)" "unat (chunk pos to) \<le> unat (to - pos)" "unat (chunk pos to) < 8192"
proof -
  define r where "r = sint pos smod 4096"
  have r: "r < 4096" "- 4096 < r" unfolding r_def using smod_int_range [of 4096 "sint pos"] by simp_all
  have "BLKSIZE - mod_blk pos = word_of_int (4096 - r)"
    by (simp add: BLKSIZE_def PGSIZE_def mod_blk_def r_def)
  moreover have "unat (word_of_int (4096 - r) :: u32) = nat (4096 - r)"
    using r by (intro unat_word_of_int_u32) simp_all
  ultimately have u: "unat (BLKSIZE - mod_blk pos) = nat (4096 - r)" by simp
  have "to - pos \<noteq> 0" using assms by auto
  then have "0 < unat (to - pos)" by (simp add: unat_gt_0)
  then show "0 < unat (chunk pos to)" "unat (chunk pos to) \<le> unat (to - pos)" "unat (chunk pos to) < 8192"
    using u r by (auto simp: chunk_def MIN_u32_def word_le_nat_alt)
qed

lemma chunk_less:
  assumes "pos < to"
  shows "unat (to - (pos + chunk pos to)) < unat (to - pos)"
proof -
  have "unat (to - pos - chunk pos to) = unat (to - pos) - unat (chunk pos to)"
    using chunk_bounds(2) [OF assms] by (simp add: unat_sub word_le_nat_alt)
  then show ?thesis using chunk_bounds(1,2) [OF assms] by (simp add: diff_diff_eq)
qed

function file_read_loop :: "u32 \<Rightarrow> u32 \<Rightarrow> u32 \<Rightarrow> u32 \<Rightarrow> fs \<Rightarrow> (int, fs) kres" where
  "file_read_loop f buf pos to s =
     (if \<not> pos < to then Ret 0 s
      else bindK (file_get_block f (div_blk pos) s) (\<lambda>(r, blk) s.
        if r < 0 then Ret r s
        else let bn = chunk pos to in
          bindK (fs_memmove buf (blk + mod_blk pos) bn s) (\<lambda>_ s. file_read_loop f (buf + bn) (pos + bn) to s)))"
  by pat_completeness auto
termination by (relation "measure (\<lambda>(f, buf, pos, to, s). unat (to - pos))") (auto simp: chunk_less)

function file_write_loop :: "u32 \<Rightarrow> u32 \<Rightarrow> u32 \<Rightarrow> u32 \<Rightarrow> fs \<Rightarrow> (int, fs) kres" where
  "file_write_loop f buf pos to s =
     (if \<not> pos < to then Ret 0 s
      else bindK (file_get_block f (div_blk pos) s) (\<lambda>(r, blk) s.
        if r < 0 then Ret r s
        else let bn = chunk pos to in
          bindK (fs_memmove (blk + mod_blk pos) buf bn s) (\<lambda>_ s. file_write_loop f (buf + bn) (pos + bn) to s)))"
  by pat_completeness auto
termination by (relation "measure (\<lambda>(f, buf, pos, to, s). unat (to - pos))") (auto simp: chunk_less)

declare file_read_loop.simps [simp del] file_write_loop.simps [simp del]

definition file_read :: "u32 \<Rightarrow> u32 \<Rightarrow> u32 \<Rightarrow> u32 \<Rightarrow> fs \<Rightarrow> (int, fs) kres" where
  "file_read f buf count offset s =
     bindK (fs_load (f_size f) s) (\<lambda>sz s.
     if sint offset \<ge> sint sz then Ret 0 s
     else bindK (fs_load (f_size f) s) (\<lambda>sz s.
       let count = MIN_u32 count (sz - offset) in
       bindK (file_read_loop f buf offset (offset + count) s) (\<lambda>r s.
         if r < 0 then Ret r s else Ret (sint count) s)))"

definition file_write :: "u32 \<Rightarrow> u32 \<Rightarrow> u32 \<Rightarrow> u32 \<Rightarrow> fs \<Rightarrow> (int, fs) kres" where
  "file_write f buf count offset s =
     bindK (fs_load (f_size f) s) (\<lambda>sz s.
     bindK (if offset + count > sz then file_set_size f (offset + count) s else Ret 0 s) (\<lambda>r s.
     if r < 0 then Ret r s
     else bindK (file_write_loop f buf offset (offset + count) s) (\<lambda>r s.
       if r < 0 then Ret r s else Ret (sint count) s)))"

function file_flush_from :: "u32 \<Rightarrow> int \<Rightarrow> fs \<Rightarrow> (unit, fs) kres" where
  "file_flush_from f i s =
     bindK (fs_load (f_size f) s) (\<lambda>sz s.
     if \<not> i < sint (nblocks_of sz) then Ret () s
     else bindK (file_block_walk f (word_of_int i) False s) (\<lambda>(r, pdiskbno) s.
       bindK (if r < 0 \<or> pdiskbno = 0 then Ret () s
              else bindK (fs_load pdiskbno s) (\<lambda>d s.
                if d = 0 then Ret () s
                else bindK (fs_load pdiskbno s) (\<lambda>d s.
                  bindK (diskaddr d s) (\<lambda>a s. flush_block a s)))) (\<lambda>_ s.
       file_flush_from f (i + 1) s)))"
  by pat_completeness auto
termination
proof (relation "measure (\<lambda>(f, i, s). nat (2 ^ 31 - i))", goal_cases)
  case (2 f i s sz)
  have "sint (nblocks_of sz) < 2 ^ 31" using sint_lt [of "nblocks_of sz"] by simp
  then show ?case using 2 by simp
qed simp

declare file_flush_from.simps [simp del]

definition file_flush :: "u32 \<Rightarrow> fs \<Rightarrow> (unit, fs) kres" where
  "file_flush f s =
     bindK (file_flush_from f 0 s) (\<lambda>_ s.
     bindK (flush_block f s) (\<lambda>_ s.
     bindK (fs_load (f_indirect f) s) (\<lambda>ind s.
     if ind \<noteq> 0 then
       bindK (fs_load (f_indirect f) s) (\<lambda>ind s. bindK (diskaddr ind s) (\<lambda>a s. flush_block a s))
     else Ret () s)))"

definition file_create :: "u8 list \<Rightarrow> fs \<Rightarrow> (int \<times> u32, fs) kres" where
  "file_create path s =
     bindK (walk_path path s) (\<lambda>(r, dir, f, name) s.
     if r = 0 then Ret (- E_FILE_EXISTS, 0) s
     else if r \<noteq> - E_NOT_FOUND \<or> dir = 0 then Ret (r, 0) s
     else bindK (dir_alloc_file dir s) (\<lambda>(r, f) s.
       if r < 0 then Ret (r, 0) s
       else bindK (fs_put f (name @ [0]) s) (\<lambda>_ s.
         bindK (file_flush dir s) (\<lambda>_ s. Ret (0, f) s))))"

definition file_open :: "u8 list \<Rightarrow> fs \<Rightarrow> (int \<times> u32, fs) kres" where
  "file_open path s = bindK (walk_path path s) (\<lambda>(r, dir, f, name) s. Ret (r, f) s)"

function fs_sync_from :: "u32 \<Rightarrow> fs \<Rightarrow> (unit, fs) kres" where
  "fs_sync_from i s =
     bindK (fs_load (s_nblocks s) s) (\<lambda>n s.
     if \<not> i < n then Ret () s
     else bindK (diskaddr i s) (\<lambda>a s. bindK (flush_block a s) (\<lambda>_ s. fs_sync_from (i + 1) s)))"
  by pat_completeness auto
termination
proof (relation "measure (\<lambda>(i, s). 2 ^ 32 - unat i)", goal_cases)
  case (2 i s n)
  then have "i < n" by simp
  then have "unat i + 1 < 2 ^ 32" using unat_u32_less [of n] by (simp add: word_less_nat_alt)
  then show ?case by (simp add: unat_word_ariths)
qed simp

declare fs_sync_from.simps [simp del]

definition fs_sync :: "fs \<Rightarrow> (unit, fs) kres" where
  "fs_sync s = fs_sync_from 1 s"

end
