(* ===== verification/Bcinv.thy ===== *)
theory Bcinv
  imports Bcache
begin

text \<open>
  What the block cache promises: the memory of the cache, with the disk behind it, is one
  flat memory. Faulting a block in and writing a block out leave it as it is.
\<close>

section \<open>The flat memory\<close>

definition disk_at :: "fs \<Rightarrow> u32 \<Rightarrow> u8" where
  "disk_at s a = fs_disk s ((a - DISKMAP) div SECTSIZE) (a mod SECTSIZE)"

definition fs_view :: "fs \<Rightarrow> mem" where
  "fs_view s a = (if in_cache a \<and> \<not> fs_present s (PGNUM a) then disk_at s a else fs_mem s a)"

definition coherent :: "fs \<Rightarrow> bool" where
  "coherent s \<longleftrightarrow> (\<forall>a. in_cache a \<and> fs_present s (PGNUM a) \<and> \<not> fs_written s (PGNUM a) \<longrightarrow> fs_mem s a = disk_at s a)"

text \<open>Changes that do not concern the cache.\<close>

lemma set_simps [simp]:
  "fs_mem (set_present p b s) = fs_mem s" "fs_mem (set_written p b s) = fs_mem s"
  "fs_disk (set_present p b s) = fs_disk s" "fs_disk (set_written p b s) = fs_disk s"
  "fs_present (set_present p b s) = (fs_present s)(p := b)" "fs_present (set_written p b s) = fs_present s"
  "fs_written (set_present p b s) = fs_written s" "fs_written (set_written p b s) = (fs_written s)(p := b)"
  "super (set_present p b s) = super s" "super (set_written p b s) = super s"
  "bitmap (set_present p b s) = bitmap s" "bitmap (set_written p b s) = bitmap s"
  "opentab (set_present p b s) = opentab s" "opentab (set_written p b s) = opentab s"
  "fs_pageref (set_present p b s) = fs_pageref s" "fs_pageref (set_written p b s) = fs_pageref s"
  "fs_disk_works (set_present p b s) = fs_disk_works s" "fs_disk_works (set_written p b s) = fs_disk_works s"
  by (simp_all add: set_present_def set_written_def)

lemma in_cache_page: "PGNUM a = PGNUM b \<Longrightarrow> in_cache a \<longleftrightarrow> in_cache b"
proof -
  assume "PGNUM a = PGNUM b"
  moreover have "in_cache x \<longleftrightarrow> 0x10000 \<le> PGNUM x \<and> PGNUM x < 0xD0000" for x
    by (simp add: in_cache_def DISKMAP_def DISKSIZE_def word_le_nat_alt word_less_nat_alt unat_PGNUM) linarith
  ultimately show ?thesis by simp
qed

section \<open>The disk driver\<close>

lemma sector_first:
  fixes d :: u32
  assumes "unat d < 512" "n < 2 ^ 22"
  shows "d div 512 = 0" "d mod 512 = d" "\<not> unat (d - 512) < 512 * n"
proof -
  show "d div 512 = 0" "d mod 512 = d" using assms(1) by (simp_all add: word_unat_eq_iff unat_div unat_mod)
  have "unat (d - 512) = unat d + 2 ^ 32 - 512" using assms(1) unat_sub_if_size [of d 512] by (simp add: word_size)
  then show "\<not> unat (d - 512) < 512 * n" using assms by simp
qed

lemma sector_next:
  fixes d :: u32
  assumes "512 \<le> unat d"
  shows "unat (d - 512) = unat d - 512" "1 + (d - 512) div 512 = d div 512" "(d - 512) mod 512 = d mod 512"
proof -
  have u: "unat (d - 512) = unat d - 512" using assms by (simp add: unat_sub word_le_nat_alt)
  then show "unat (d - 512) = unat d - 512" .
  have "(unat d - 512) div 512 = unat d div 512 - 1" "(unat d - 512) mod 512 = unat d mod 512" using assms
    by (simp_all add: le_div_geq le_mod_geq)
  moreover have x: "1 \<le> unat d div 512" "unat d div 512 < 2 ^ 31" using assms unat_u32_less [of d] by simp_all
  ultimately show "(d - 512) mod 512 = d mod 512" using u by (simp add: word_unat_eq_iff unat_mod)
  have "unat ((d - 512) div 512) = unat d div 512 - 1" using u \<open>(unat d - 512) div 512 = unat d div 512 - 1\<close> by (simp add: unat_div)
  moreover have "unat (1 + (d - 512) div 512) = 1 + unat ((d - 512) div 512)" using calculation x
    by (subst unat_word_ariths) simp
  ultimately show "1 + (d - 512) div 512 = d div 512" using x by (simp add: word_unat_eq_iff unat_div)
qed

text \<open>The parts of the state the disk and the page tables have nothing to do with.\<close>

definition same_vars :: "fs \<Rightarrow> fs \<Rightarrow> bool" where
  "same_vars s t \<longleftrightarrow> super t = super s \<and> bitmap t = bitmap s \<and> opentab t = opentab s"

lemma same_vars_refl [simp]: "same_vars s s"
  by (simp add: same_vars_def)

lemma same_vars_trans [trans]: "same_vars s t \<Longrightarrow> same_vars t u \<Longrightarrow> same_vars s u"
  by (simp add: same_vars_def)

lemma ide_read_loop_ok:
  assumes "ide_read_loop n sect dst s = (r, t)" "0 \<le> r" "n < 2 ^ 22"
  shows "fs_mem t = (\<lambda>a. if unat (a - dst) < 512 * n then fs_disk s (sect + (a - dst) div 512) ((a - dst) mod 512) else fs_mem s a) \<and>
    fs_disk t = fs_disk s \<and> fs_present t = fs_present s \<and> same_vars s t \<and>
    (\<forall>q. (\<forall>i<n. q \<noteq> PGNUM (dst + of_nat (512 * i))) \<longrightarrow> fs_written t q = fs_written s q)"
  using assms
proof (induction n arbitrary: sect dst s)
  case 0
  then show ?case by auto
next
  case (Suc n)
  let ?s = "s\<lparr>fs_disk_works := tl (fs_disk_works s)\<rparr>"
  let ?u = "set_written (PGNUM dst) True (?s\<lparr>fs_mem := (\<lambda>a. if a - dst < SECTSIZE then fs_disk ?s sect (a - dst) else fs_mem ?s a)\<rparr>)"
  have r: "ide_read_loop n (sect + 1) (dst + SECTSIZE) ?u = (r, t)"
    using Suc(2,3) by (auto simp: Let_def split: if_splits)
  have n: "n < 2 ^ 22" using Suc(4) by simp
  note ih = Suc.IH [OF r Suc(3) n]
  have "fs_mem t a = (if unat (a - dst) < 512 * Suc n then fs_disk s (sect + (a - dst) div 512) ((a - dst) mod 512) else fs_mem s a)" for a
  proof -
    have d: "a - (dst + 512) = (a - dst) - 512" by simp
    have m: "fs_mem t a = (if unat (a - dst - 512) < 512 * n then fs_disk s (sect + 1 + (a - dst - 512) div 512) ((a - dst - 512) mod 512)
        else if unat (a - dst) < 512 then fs_disk s sect (a - dst) else fs_mem s a)"
      using ih by (simp add: d SECTSIZE_def word_less_nat_alt)
    show ?thesis
    proof (cases "unat (a - dst) < 512")
      case True
      then show ?thesis using m sector_first [OF True n] by simp
    next
      case False
      then show ?thesis using m sector_next [of "a - dst"] by (auto simp: add.assoc)
    qed
  qed
  moreover have "fs_written t q = fs_written s q" if "\<forall>i<Suc n. q \<noteq> PGNUM (dst + of_nat (512 * i))" for q
  proof -
    have "\<forall>i<n. q \<noteq> PGNUM (dst + SECTSIZE + of_nat (512 * i))"
    proof (intro allI impI)
      fix i assume "i < n"
      then show "q \<noteq> PGNUM (dst + SECTSIZE + of_nat (512 * i))" using that [rule_format, of "Suc i"] by (simp add: SECTSIZE_def add.assoc)
    qed
    moreover have "q \<noteq> PGNUM dst" using that [rule_format, of 0] by simp
    ultimately show ?thesis using ih by simp
  qed
  ultimately show ?case using ih by (auto simp: same_vars_def)
qed

lemma ide_write_loop_ok:
  assumes "ide_write_loop n sect src s = (r, t)" "0 \<le> r" "n < 2 ^ 22"
  shows "fs_disk t = (\<lambda>q ofs. if unat (q - sect) < n \<and> ofs < 512 then fs_mem s (src + (q - sect) * 512 + ofs) else fs_disk s q ofs) \<and>
    fs_mem t = fs_mem s \<and> fs_present t = fs_present s \<and> fs_written t = fs_written s \<and> same_vars s t"
  using assms
proof (induction n arbitrary: sect src s)
  case 0
  then show ?case by auto
next
  case (Suc n)
  let ?s = "s\<lparr>fs_disk_works := tl (fs_disk_works s)\<rparr>"
  let ?u = "?s\<lparr>fs_disk := (fs_disk ?s)(sect := (\<lambda>ofs. if ofs < SECTSIZE then fs_mem ?s (src + ofs) else fs_disk ?s sect ofs))\<rparr>"
  have r: "ide_write_loop n (sect + 1) (src + SECTSIZE) ?u = (r, t)"
    using Suc(2,3) by (auto simp: Let_def split: if_splits)
  have n: "n < 2 ^ 22" using Suc(4) by simp
  note ih = Suc.IH [OF r Suc(3) n]
  have "fs_disk t q ofs = (if unat (q - sect) < Suc n \<and> ofs < 512 then fs_mem s (src + (q - sect) * 512 + ofs) else fs_disk s q ofs)" for q ofs
  proof (cases "q = sect")
    case True
    then have "q - (sect + 1) = - 1" by simp
    then have "unat (q - (sect + 1)) = 2 ^ 32 - 1" by (simp add: unsigned_minus_1_eq_mask mask_eq_exp_minus_1)
    then show ?thesis using ih n True by (simp add: SECTSIZE_def)
  next
    case False
    then have z: "q - sect \<noteq> 0" by simp
    have d: "q - (sect + 1) = q - sect - 1" by simp
    have m: "unat (q - sect - 1) = unat (q - sect) - 1" using z by (simp add: unat_minus_one)
    have p: "0 < unat (q - sect)" using z by (simp add: unat_gt_0)
    have a: "src + 512 + (q - sect - 1) * 512 + ofs = src + (q - sect) * 512 + ofs" by (simp add: algebra_simps)
    have "fs_disk t q ofs = (if unat (q - (sect + 1)) < n \<and> ofs < 512
        then fs_mem s (src + 512 + (q - (sect + 1)) * 512 + ofs) else fs_disk s q ofs)"
      using ih False by (simp add: SECTSIZE_def)
    then show ?thesis unfolding d m a using p by (simp add: less_Suc_eq_le Suc_diff_le less_diff_conv2 Suc_le_eq)
  qed
  then show ?case using ih by (auto simp: same_vars_def)
qed

section \<open>Where a block lies\<close>

lemma in_cache_unat: "in_cache a \<longleftrightarrow> 0x10000000 \<le> unat a \<and> unat a < 0xD0000000"
  by (auto simp: in_cache_def DISKMAP_def DISKSIZE_def word_le_nat_alt word_less_nat_alt)

lemma page_base: "ROUNDDOWN a PGSIZE = push_bit 12 (PGNUM a)"
proof -
  have "unat (ROUNDDOWN a PGSIZE) = 4096 * (unat a div 4096)" by (simp add: unat_ROUNDDOWN_mult PGSIZE_def)
  moreover have "unat (push_bit 12 (PGNUM a)) = 4096 * (unat a div 4096)" using unat_frame [OF PGNUM_less] by (simp add: unat_PGNUM)
  ultimately show ?thesis by (simp add: word_unat_eq_iff)
qed

lemma page_unat:
  assumes "PGNUM x = PGNUM a"
  shows "unat (x - push_bit 12 (PGNUM a)) = unat x mod 4096" "unat x = 4096 * (unat a div 4096) + unat x mod 4096"
proof -
  have p: "unat x div 4096 = unat a div 4096" using assms by (simp add: unat_PGNUM [symmetric])
  then show x: "unat x = 4096 * (unat a div 4096) + unat x mod 4096" by (metis mult_div_mod_eq)
  have "unat (push_bit 12 (PGNUM a)) = 4096 * (unat a div 4096)" using unat_frame [OF PGNUM_less] by (simp add: unat_PGNUM)
  then show "unat (x - push_bit 12 (PGNUM a)) = unat x mod 4096" using x by (simp add: unat_sub word_le_nat_alt)
qed

definition block_sect :: "u32 \<Rightarrow> u32" where
  "block_sect a = lba ((a - DISKMAP) div BLKSIZE * BLKSECTS)"

lemma diskmap_div:
  fixes a :: nat
  assumes "0x10000000 \<le> a"
  shows "(a - 0x10000000) div 4096 = a div 4096 - 0x10000" "(a - 0x10000000) div 512 = 8 * (a div 4096 - 0x10000) + a mod 4096 div 512"
proof -
  define k where "k = a - 0x10000000"
  have a: "a = k + 0x10000 * 4096" using assms by (simp add: k_def)
  have d: "a div 4096 = k div 4096 + 0x10000" "a mod 4096 = k mod 4096" unfolding a by (simp_all only: div_mult_self1 mod_mult_self1)
  then show "(a - 0x10000000) div 4096 = a div 4096 - 0x10000" by (simp add: k_def)
  have "k = 512 * (8 * (k div 4096)) + k mod 4096" by simp
  then have "k div 512 = (512 * (8 * (k div 4096)) + k mod 4096) div 512" by simp
  also have "\<dots> = 8 * (k div 4096) + k mod 4096 div 512" by (simp only: div_mult_self4)
  finally show "(a - 0x10000000) div 512 = 8 * (a div 4096 - 0x10000) + a mod 4096 div 512" using d by (simp add: k_def)
qed

lemma unat_block_sect:
  assumes "in_cache a"
  shows "unat (block_sect a) = 8 * (unat a div 4096 - 0x10000)"
proof -
  have a: "0x10000000 \<le> unat a" "unat a < 0xD0000000" using assms in_cache_unat by auto
  let ?q = "unat a div 4096 - 0x10000"
  have "unat a div 4096 < 0xD0000" using a(2) by (simp add: less_mult_imp_div_less)
  then have q: "8 * ?q < 2 ^ 28" by simp
  have "unat (a - DISKMAP) = unat a - 0x10000000" using a by (simp add: DISKMAP_def unat_sub word_le_nat_alt)
  then have "unat ((a - DISKMAP) div BLKSIZE) = ?q" using diskmap_div(1) [OF a(1)] by (simp add: BLKSIZE_def PGSIZE_def unat_div)
  then have m: "unat ((a - DISKMAP) div BLKSIZE * BLKSECTS) = 8 * ?q"
    using q by (simp add: BLKSECTS_def BLKSIZE_def PGSIZE_def SECTSIZE_def unat_word_ariths)
  have k: "(0x0FFFFFFF :: u32) = mask 28" by (simp add: mask_eq_exp_minus_1)
  have "unat (block_sect a) = take_bit 28 (8 * ?q)"
    unfolding block_sect_def lba_def k take_bit_eq_mask [symmetric] unsigned_take_bit_eq m ..
  then show ?thesis using q by (simp add: take_bit_nat_eq_self)
qed

lemma block_sector:
  assumes "in_cache a" "PGNUM x = PGNUM a"
  shows "block_sect a + (x - push_bit 12 (PGNUM a)) div 512 = (x - DISKMAP) div SECTSIZE"
    "(x - push_bit 12 (PGNUM a)) mod 512 = x mod SECTSIZE"
proof -
  have x: "0x10000000 \<le> unat x" "unat x < 0xD0000000" using in_cache_page [OF assms(2)] assms(1) in_cache_unat by auto
  have p: "unat x div 4096 = unat a div 4096" using assms(2) by (simp add: unat_PGNUM [symmetric])
  have "unat x mod 4096 mod 512 = unat x mod 512" by (simp add: mod_mod_cancel)
  then show "(x - push_bit 12 (PGNUM a)) mod 512 = x mod SECTSIZE"
    using page_unat(1) [OF assms(2)] by (simp add: word_unat_eq_iff unat_mod SECTSIZE_def)
  have "unat (x - DISKMAP) = unat x - 0x10000000" using x by (simp add: DISKMAP_def unat_sub word_le_nat_alt)
  then have r: "unat ((x - DISKMAP) div SECTSIZE) = 8 * (unat a div 4096 - 0x10000) + unat x mod 4096 div 512"
    using diskmap_div(2) [OF x(1)] p by (simp add: unat_div SECTSIZE_def)
  have "unat (block_sect a + (x - push_bit 12 (PGNUM a)) div 512) = 8 * (unat a div 4096 - 0x10000) + unat x mod 4096 div 512"
  proof -
    have "unat x div 4096 < 0xD0000" using x(2) by (simp add: less_mult_imp_div_less)
    then have "8 * (unat a div 4096 - 0x10000) + unat x mod 4096 div 512 < 2 ^ 32" using p by simp
    then show ?thesis using unat_block_sect [OF assms(1)] page_unat(1) [OF assms(2)] by (simp add: unat_word_ariths unat_div)
  qed
  then show "block_sect a + (x - push_bit 12 (PGNUM a)) div 512 = (x - DISKMAP) div SECTSIZE" using r by (simp add: word_unat_eq_iff)
qed

section \<open>Faulting a block in\<close>

text \<open>The pointers to the super block and to the bitmap, once set.\<close>

definition vars_ok :: "fs \<Rightarrow> bool" where
  "vars_ok s \<longleftrightarrow> (super s = 0 \<or> super s = DISKMAP + BLKSIZE) \<and> (bitmap s = 0 \<or> bitmap s = DISKMAP + 2 * BLKSIZE)"

lemma vars_ok_same: "same_vars s t \<Longrightarrow> vars_ok t = vars_ok s"
  by (simp add: vars_ok_def same_vars_def)

definition cache_ok :: "fs \<Rightarrow> bool" where
  "cache_ok s \<longleftrightarrow> coherent s \<and> vars_ok s"

definition faulted :: "fs \<Rightarrow> fs \<Rightarrow> bool" where
  "faulted s t \<longleftrightarrow> cache_ok t \<and> fs_view t = fs_view s \<and> same_vars s t \<and>
     (\<forall>p. fs_present s p \<longrightarrow> fs_present t p \<and> fs_written t p = fs_written s p) \<and>
     (\<forall>p. fs_present t p \<and> fs_written t p \<longrightarrow> fs_present s p)"

lemma faultedD:
  assumes "faulted s t"
  shows "cache_ok t" "fs_view t = fs_view s" "same_vars s t" "fs_present s p \<Longrightarrow> fs_present t p"
    "fs_present s p \<Longrightarrow> fs_written t p = fs_written s p" "fs_present t p \<Longrightarrow> fs_written t p \<Longrightarrow> fs_present s p"
  using assms unfolding faulted_def by blast+

lemma faultedI:
  assumes "cache_ok t" "fs_view t = fs_view s" "same_vars s t" "\<And>p. fs_present s p \<Longrightarrow> fs_present t p"
    "\<And>p. fs_present s p \<Longrightarrow> fs_written t p = fs_written s p" "\<And>p. fs_present t p \<Longrightarrow> fs_written t p \<Longrightarrow> fs_present s p"
  shows "faulted s t"
  using assms unfolding faulted_def by blast

lemma faulted_refl: "cache_ok s \<Longrightarrow> faulted s s"
  by (rule faultedI) simp_all

lemma faulted_trans:
  assumes "faulted s t" "faulted t u"
  shows "faulted s u"
proof (rule faultedI)
  show "cache_ok u" using faultedD(1) [OF assms(2)] .
  show "fs_view u = fs_view s" using faultedD(2) [OF assms(1)] faultedD(2) [OF assms(2)] by simp
  show "same_vars s u" using same_vars_trans faultedD(3) [OF assms(1)] faultedD(3) [OF assms(2)] .
  fix p assume p: "fs_present s p"
  note q = faultedD(4) [OF assms(1) p]
  show "fs_present u p" using faultedD(4) [OF assms(2) q] .
  show "fs_written u p = fs_written s p" using faultedD(5) [OF assms(1) p] faultedD(5) [OF assms(2) q] by simp
next
  fix p assume p: "fs_present u p" "fs_written u p"
  note q = faultedD(6) [OF assms(2) p]
  have "fs_written t p" using faultedD(5) [OF assms(2) q] p(2) by simp
  then show "fs_present s p" using faultedD(6) [OF assms(1) q] by blast
qed

text \<open>The state after the page has been allocated, filled from the disk and mapped again.\<close>

lemma fill_ok:
  assumes s: "cache_ok s" "in_cache a" "\<not> (fs_present s (PGNUM a) \<and> fs_written s (PGNUM a))"
    and al: "self_page_alloc (ROUNDDOWN a PGSIZE) s = (r1, s1)" "\<not> r1 < 0"
    and rd: "ide_read ((a - DISKMAP) div BLKSIZE * BLKSECTS) (ROUNDDOWN a PGSIZE) (unat BLKSECTS) s1 = Ret r2 s2" "\<not> r2 < 0"
    and mp: "self_page_map a s2 = (r3, s3)" "\<not> r3 < 0"
  shows "faulted s s3" "fs_present s3 (PGNUM a)"
proof -
  let ?p = "PGNUM a" and ?b = "push_bit 12 (PGNUM a)"
  have p: "?p < 0x100000" by (rule PGNUM_less)
  have pb: "PGNUM ?b = ?p" by (rule PGNUM_frame [OF p])
  have s1: "fs_present s1 = (fs_present s)(?p := True)" "fs_written s1 = (fs_written s)(?p := False)"
    "fs_mem s1 = mem_set (fs_mem s) ?b 0 PGSIZE" "fs_disk s1 = fs_disk s" "same_vars s s1"
    using al pb by (auto simp: self_page_alloc_def page_base same_vars_def set_present_def set_written_def split: if_splits)
  have ns: "unat BLKSECTS = 8" by (simp add: BLKSECTS_def BLKSIZE_def PGSIZE_def SECTSIZE_def)
  have "ide_read_loop 8 (block_sect a) ?b s1 = (r2, s2)"
    using rd(1) ns by (auto simp: ide_read_def page_base block_sect_def split: prod.splits)
  from ide_read_loop_ok [OF this] rd(2) have s2:
    "fs_mem s2 = (\<lambda>x. if unat (x - ?b) < 4096 then fs_disk s1 (block_sect a + (x - ?b) div 512) ((x - ?b) mod 512) else fs_mem s1 x)"
    "fs_disk s2 = fs_disk s1" "fs_present s2 = fs_present s1" "same_vars s1 s2"
    "\<And>q. (\<forall>i<8. q \<noteq> PGNUM (?b + of_nat (512 * i))) \<Longrightarrow> fs_written s2 q = fs_written s1 q" by auto
  have pg: "PGNUM (?b + of_nat (512 * i)) = ?p" if "i < 8" for i
  proof -
    have "?b + of_nat (512 * i) - ?b < 4096" using that by (simp add: word_less_nat_alt unat_word_ariths unat_of_nat)
    then show ?thesis using page_region_iff [OF p] by blast
  qed
  have s3: "s3 = set_written ?p False s2" using mp by (auto simp: self_page_map_def split: if_splits)
  have io: "unat (x - ?b) < 4096 \<longleftrightarrow> PGNUM x = ?p" for x using page_region_iff [OF p, of x] by (simp add: word_less_nat_alt)
  have m: "fs_mem s3 x = (if PGNUM x = ?p then disk_at s x else fs_mem s x)" for x
  proof (cases "PGNUM x = ?p")
    case True
    then have "fs_mem s3 x = fs_disk s (block_sect a + (x - ?b) div 512) ((x - ?b) mod 512)" using s3 s2(1) s1(4) io by simp
    then show ?thesis using True block_sector [OF s(2) True] by (simp add: disk_at_def)
  next
    case False
    then have "\<not> x - ?b < 4096" using page_region_iff [OF p] by simp
    then show ?thesis using False s3 s2(1) s1(3) io by (simp add: mem_set_def PGSIZE_def)
  qed
  have f: "fs_present s3 = (fs_present s)(?p := True)" "fs_disk s3 = fs_disk s" "same_vars s s3"
    using s1 s2 s3 by (auto simp: same_vars_def)
  have w: "fs_written s3 q = (if q = ?p then False else fs_written s q)" for q
    using s3 s2(5) [of q] pg s1(2) by auto
  have d: "disk_at s3 = disk_at s" by (rule ext) (simp add: disk_at_def f)
  have "cache_ok s3" using s(1) vars_ok_same [OF f(3)] by (auto simp: cache_ok_def coherent_def m f w d)
  moreover have "fs_view s3 = fs_view s" using in_cache_page [of _ a] s by (auto simp: fs_view_def m f d fun_eq_iff cache_ok_def coherent_def)
  ultimately show "faulted s s3" using f w s(3) by (intro faultedI) (auto split: if_splits)
  show "fs_present s3 ?p" using f by simp
qed

text \<open>A handler that brings the page in.\<close>

definition fills :: "(u32 \<Rightarrow> fs \<Rightarrow> (unit, fs) kres) \<Rightarrow> bool" where
  "fills h \<longleftrightarrow> (\<forall>a s. cache_ok s \<and> in_cache a \<and> \<not> fs_present s (PGNUM a) \<longrightarrow>
     wpK (\<lambda>_ t. faulted s t \<and> fs_present t (PGNUM a)) (\<lambda>_ _. True) (h a s))"

lemma touch_with_ok:
  assumes "fills h" "cache_ok s"
  shows "wpK (\<lambda>_ t. faulted s t \<and> (in_cache a \<longrightarrow> fs_present t (PGNUM a))) (\<lambda>_ _. True) (touch_with h a s)"
  using assms faulted_refl [OF assms(2)] by (auto simp: touch_with_def fills_def intro!: wpK_weaken [of _ _ "h a s"])

lemma view_word:
  assumes "aligned4 a" "in_cache a \<Longrightarrow> fs_present s (PGNUM a)"
  shows "ld32 (fs_view s) a = ld32 (fs_mem s) a"
proof (rule ld32_cong)
  fix i :: u32 assume "i < 4"
  then have p: "PGNUM (a + i) = PGNUM a" using PGNUM_aligned_add assms(1) by blast
  show "fs_view s (a + i) = fs_mem s (a + i)" using assms(2) in_cache_page [OF p] by (auto simp: fs_view_def p)
qed

lemma load_with_ok:
  assumes "fills h" "cache_ok s" "aligned4 a"
  shows "wpK (\<lambda>v t. faulted s t \<and> v = ld32 (fs_view s) a \<and> (in_cache a \<longrightarrow> fs_present t (PGNUM a))) (\<lambda>_ _. True) (load_with h a s)"
  unfolding load_with_def wpK_bind
proof (rule wpK_weaken [OF touch_with_ok [OF assms(1,2), of a]])
  fix t assume t: "faulted s t \<and> (in_cache a \<longrightarrow> fs_present t (PGNUM a))"
  then have "ld32 (fs_mem t) a = ld32 (fs_view s) a" using view_word [OF assms(3), of t] faultedD(2) [of s t] by simp
  then show "wpK (\<lambda>v t. faulted s t \<and> v = ld32 (fs_view s) a \<and> (in_cache a \<longrightarrow> fs_present t (PGNUM a))) (\<lambda>_ _. True)
    (Ret (ld32 (fs_mem t) a) t)" using t by simp
qed simp

lemma aligned4_iff: "aligned4 a \<longleftrightarrow> unat a mod 4 = 0"
proof -
  have "a AND 3 = take_bit 2 a" by (simp add: mask_numerals(3) take_bit_eq_mask)
  moreover have "unat (take_bit 2 a) = unat a mod 4" by (subst unsigned_take_bit_eq) (simp add: take_bit_eq_mod)
  ultimately show ?thesis by (simp add: aligned4_def word_unat_eq_iff)
qed

lemma aligned4_add: "aligned4 a \<Longrightarrow> aligned4 (a + 4 * i)"
proof -
  assume "aligned4 a"
  then have "unat a mod 4 = 0" by (simp add: aligned4_iff)
  moreover have "unat (a + 4 * i) mod 4 = (unat a + 4 * unat i) mod 4"
    by (simp add: unat_word_ariths mod_add_right_eq mod_mod_cancel)
  ultimately show ?thesis by (simp add: aligned4_iff mod_add_eq [symmetric])
qed

lemma vars_aligned:
  assumes "vars_ok s"
  shows "aligned4 (super s + 4)" "aligned4 (bitmap s + 4 * i)"
proof -
  have "aligned4 (super s)" "aligned4 (bitmap s)"
    using assms by (auto simp: vars_ok_def aligned4_def DISKMAP_def BLKSIZE_def PGSIZE_def)
  then show "aligned4 (super s + 4)" "aligned4 (bitmap s + 4 * i)" using aligned4_add [of _ 1] aligned4_add by simp_all
qed

lemma block_is_free_with_ok:
  assumes h: "fills h" and s: "cache_ok s"
  shows "wpK (\<lambda>_ t. faulted s t) (\<lambda>_ _. True) (block_is_free_with h b s)"
proof (cases "super s = 0")
  case True
  then show ?thesis using faulted_refl [OF s] by (simp add: block_is_free_with_def)
next
  case False
  have v: "aligned4 (super t + 4)" "aligned4 (bitmap t + 4 * i)" if "cache_ok t" for t i
    using that vars_aligned by (simp_all add: cache_ok_def)
  have *: "wpK (\<lambda>_ u. faulted s u) (\<lambda>_ _. True) (if b \<ge> v then Ret False t
        else bindK (load_with h (bitmap t + 4 * (b div 32)) t) (\<lambda>w t. Ret (w AND push_bit (unat (b mod 32)) 1 \<noteq> 0) t))"
    if t: "faulted s t" for t and v :: u32
    using wpK_weaken [OF load_with_ok [OF h faultedD(1) [OF t] v(2) [OF faultedD(1) [OF t]]], where Q' = "\<lambda>_ u. faulted s u" and R' = "\<lambda>_ _. True"]
      t faulted_trans [OF t] by (simp add: wpK_bind)
  show ?thesis using False unfolding block_is_free_with_def
    by (simp only: if_False wpK_bind) (rule wpK_weaken [OF load_with_ok [OF h s v(1) [OF s]]], use * in auto)
qed

lemma bc_pgfault_fills: "fills (bc_pgfault n)"
proof (induction n)
  case 0
  then show ?case by (simp add: fills_def)
next
  case (Suc n)
  show ?case unfolding fills_def
  proof (intro allI impI)
    fix a s assume s: "cache_ok s \<and> in_cache a \<and> \<not> fs_present s (PGNUM a)"
    let ?Q = "\<lambda>(_ :: unit) t. faulted s t \<and> fs_present t (PGNUM a)" and ?R = "\<lambda>(_ :: control) (_ :: fs). True"
    let ?b = "(a - DISKMAP) div BLKSIZE"
    let ?rest = "\<lambda>s. case self_page_alloc (ROUNDDOWN a PGSIZE) s of (r, s) \<Rightarrow>
         if r < 0 then Panic ''bc_pgfault: sys_page_alloc''
         else bindK (ide_read (?b * BLKSECTS) (ROUNDDOWN a PGSIZE) (unat BLKSECTS) s) (\<lambda>r s.
           if r < 0 then Panic ''bc_pgfault: ide_read''
           else case self_page_map a s of (r, s) \<Rightarrow>
             if r < 0 then Panic ''in bc_pgfault, sys_page_map''
             else if bitmap s \<noteq> 0
             then bindK (block_is_free_with (bc_pgfault n) ?b s) (\<lambda>free s.
               if free then Panic ''reading free block'' else Ret () s)
             else Ret () s)"
    have rest: "wpK ?Q ?R (?rest t)" if t: "faulted s t" for t
    proof (cases "self_page_alloc (ROUNDDOWN a PGSIZE) t")
      case (Pair r1 s1)
      show ?thesis
      proof (cases "ide_read (?b * BLKSECTS) (ROUNDDOWN a PGSIZE) (unat BLKSECTS) s1")
        case (Ret r2 s2)
        obtain r3 s3 where m: "self_page_map a s2 = (r3, s3)" by fastforce
        show ?thesis
        proof (cases "r1 < 0 \<or> r2 < 0 \<or> r3 < 0")
          case False
          have "\<not> (fs_present t (PGNUM a) \<and> fs_written t (PGNUM a))" using faultedD(6) [OF t] s by blast
          from fill_ok [OF faultedD(1) [OF t] _ this Pair _ Ret _ m] False s
          have f: "faulted t s3" "fs_present s3 (PGNUM a)" by auto
          have st: "faulted s s3" by (rule faulted_trans [OF t f(1)])
          have "wpK (\<lambda>_ u. faulted s3 u) ?R (block_is_free_with (bc_pgfault n) ?b s3)"
            by (rule block_is_free_with_ok [OF Suc faultedD(1) [OF f(1)]])
          then have "wpK ?Q ?R (bindK (block_is_free_with (bc_pgfault n) ?b s3) (\<lambda>free s. if free then Panic ''reading free block'' else Ret () s))"
            unfolding wpK_bind
          proof (rule wpK_weaken)
            fix free u assume u: "faulted s3 u"
            then have "fs_present u (PGNUM a)" using f(2) by (rule faultedD(4))
            then show "wpK ?Q ?R (if free then Panic ''reading free block'' else Ret () u)" using faulted_trans [OF st u] by simp
          qed simp
          then show ?thesis using False st f(2) by (simp add: Pair Ret m)
        qed (use Pair Ret m in auto)
      qed (use Pair in \<open>auto split: if_splits\<close>)
    qed
    have bl: "wpK (\<lambda>_ t. faulted s t) ?R (if super s \<noteq> 0 then bindK (load_with (bc_pgfault n) (super s + 4) s) (\<lambda>nb s. Ret (?b \<ge> nb) s) else Ret False s)"
      using wpK_weaken [OF load_with_ok [OF Suc, of s "super s + 4"], where Q' = "\<lambda>_ t. faulted s t" and R' = ?R] s vars_aligned(1) faulted_refl
      by (auto simp: wpK_bind cache_ok_def)
    have ic: "\<not> (a < DISKMAP \<or> a \<ge> DISKMAP + DISKSIZE)" using s by (simp add: in_cache_def)
    have eq: "bc_pgfault (Suc n) a s =
        bindK (if super s \<noteq> 0 then bindK (load_with (bc_pgfault n) (super s + 4) s) (\<lambda>nb s. Ret (?b \<ge> nb) s) else Ret False s)
          (\<lambda>bad t. if bad then Panic ''reading non-existent block'' else ?rest t)"
      unfolding bc_pgfault.simps Let_def using ic by (simp only: if_False)
    show "wpK ?Q ?R (bc_pgfault (Suc n) a s)"
      unfolding eq wpK_bind [of _ _ "if super s \<noteq> 0 then _ else _"]
    proof (rule wpK_weaken [OF bl])
      fix bad t assume "faulted s t"
      from rest [OF this] show "wpK ?Q ?R (if bad then Panic ''reading non-existent block'' else ?rest t)" by simp
    qed simp
  qed
qed

text \<open>The accesses of the server: what they return and store is what the flat memory would have.\<close>

lemma touch_ok:
  assumes "cache_ok s"
  shows "wpK (\<lambda>_ t. faulted s t \<and> (in_cache a \<longrightarrow> fs_present t (PGNUM a))) (\<lambda>_ _. True) (touch a s)"
  unfolding touch_def by (rule touch_with_ok [OF bc_pgfault_fills assms])

lemma fs_load_ok:
  assumes "cache_ok s" "aligned4 a"
  shows "wpK (\<lambda>v t. faulted s t \<and> v = ld32 (fs_view s) a \<and> (in_cache a \<longrightarrow> fs_present t (PGNUM a))) (\<lambda>_ _. True) (fs_load a s)"
  unfolding fs_load_def by (rule load_with_ok [OF bc_pgfault_fills assms])

text \<open>A store into a page that is present.\<close>

definition stored :: "fs \<Rightarrow> fs \<Rightarrow> (mem \<Rightarrow> mem) \<Rightarrow> bool" where
  "stored s t g \<longleftrightarrow> cache_ok t \<and> fs_view t = g (fs_view s) \<and> same_vars s t"

lemma store_present:
  assumes s: "cache_ok s" "in_cache a \<Longrightarrow> fs_present s (PGNUM a)"
    and x: "\<And>x. PGNUM x \<noteq> PGNUM a \<Longrightarrow> g (fs_mem s) x = fs_mem s x"
    and v: "\<And>x. PGNUM x \<noteq> PGNUM a \<Longrightarrow> g (fs_view s) x = fs_view s x"
    and m: "\<And>x. PGNUM x = PGNUM a \<Longrightarrow> g (fs_view s) x = g (fs_mem s) x"
  shows "stored s (set_written (PGNUM a) True (s\<lparr>fs_mem := g (fs_mem s)\<rparr>)) g"
proof -
  let ?t = "set_written (PGNUM a) True (s\<lparr>fs_mem := g (fs_mem s)\<rparr>)"
  have f: "fs_mem ?t = g (fs_mem s)" "fs_present ?t = fs_present s" "fs_written ?t = (fs_written s)(PGNUM a := True)" "same_vars s ?t"
    by (simp_all add: same_vars_def)
  have d: "disk_at ?t = disk_at s" by (rule ext) (simp add: disk_at_def)
  have "coherent ?t" unfolding coherent_def f d using s(1) x by (auto simp: cache_ok_def coherent_def)
  then have "cache_ok ?t" using s(1) vars_ok_same [OF f(4)] by (simp add: cache_ok_def)
  moreover have "fs_view ?t y = g (fs_view s) y" for y
  proof (cases "PGNUM y = PGNUM a")
    case True
    then have "fs_view ?t y = g (fs_mem s) y" using s(2) in_cache_page [OF True] by (auto simp: fs_view_def f)
    then show ?thesis using m [OF True] by simp
  next
    case False
    then show ?thesis using x v by (simp add: fs_view_def f d)
  qed
  ultimately show ?thesis using f(4) by (auto simp: stored_def fun_eq_iff)
qed

lemma fs_store_ok:
  assumes "cache_ok s" "aligned4 a"
  shows "wpK (\<lambda>_ t. stored s t (\<lambda>m. st32 m a v)) (\<lambda>_ _. True) (fs_store a v s)"
  unfolding fs_store_def wpK_bind
proof (rule wpK_weaken [OF touch_ok [OF assms(1), of a]])
  fix t assume t: "faulted s t \<and> (in_cache a \<longrightarrow> fs_present t (PGNUM a))"
  have pg: "PGNUM (a + i) = PGNUM a" if "i < 4" for i using PGNUM_aligned_add assms(2) that by blast
  have o: "st32 m a v x = m x" if "PGNUM x \<noteq> PGNUM a" for m x using that pg by (intro st32_other_byte) auto
  have "stored t (set_written (PGNUM a) True (t\<lparr>fs_mem := st32 (fs_mem t) a v\<rparr>)) (\<lambda>m. st32 m a v)"
  proof (rule store_present)
    fix x assume x: "PGNUM x = PGNUM a"
    have "fs_view t x = fs_mem t x" using t in_cache_page [OF x] by (auto simp: fs_view_def x)
    then show "st32 (fs_view t) a v x = st32 (fs_mem t) a v x" by (simp add: st32_def)
  qed (use t o faultedD(1) in auto)
  then show "wpK (\<lambda>_ t. stored s t (\<lambda>m. st32 m a v)) (\<lambda>_ _. True)
      (Ret () (set_written (PGNUM a) True (t\<lparr>fs_mem := st32 (fs_mem t) a v\<rparr>)))"
    using t faultedD(2) [of s t] faultedD(3) [of s t] same_vars_trans [of s t] by (auto simp: stored_def)
qed simp

section \<open>Writing a block out\<close>

definition flushed :: "fs \<Rightarrow> fs \<Rightarrow> u32 \<Rightarrow> bool" where
  "flushed s t a \<longleftrightarrow> cache_ok t \<and> fs_view t = fs_view s \<and> same_vars s t \<and> fs_present t = fs_present s \<and>
     (\<forall>x. in_cache x \<longrightarrow> disk_at t x = (if PGNUM x = PGNUM a then fs_view s x else disk_at s x))"

lemma disk_block:
  assumes a: "in_cache a" and x: "in_cache x"
  shows "unat ((x - DISKMAP) div SECTSIZE - block_sect a) < 8 \<longleftrightarrow> PGNUM x = PGNUM a"
proof
  assume "PGNUM x = PGNUM a"
  note b = block_sector(1) [OF a this] page_unat(1) [OF this]
  have "(x - DISKMAP) div SECTSIZE - block_sect a = (x - push_bit 12 (PGNUM a)) div 512" using b(1) by (simp add: algebra_simps)
  moreover have "unat ((x - push_bit 12 (PGNUM a)) div 512) < 8" using b(2) by (simp add: unat_div less_mult_imp_div_less)
  ultimately show "unat ((x - DISKMAP) div SECTSIZE - block_sect a) < 8" by simp
next
  let ?q = "(x - DISKMAP) div SECTSIZE" and ?s = "block_sect a"
  assume l: "unat (?q - ?s) < 8"
  have ax: "0x10000000 \<le> unat a" "unat a < 0xD0000000" "0x10000000 \<le> unat x" "unat x < 0xD0000000" using a x in_cache_unat by auto
  have q: "unat ?q = 8 * (unat x div 4096 - 0x10000) + unat x mod 4096 div 512"
    using diskmap_div(2) [OF ax(3)] ax by (simp add: unat_div SECTSIZE_def DISKMAP_def unat_sub word_le_nat_alt)
  have s: "unat ?s = 8 * (unat a div 4096 - 0x10000)" by (rule unat_block_sect [OF a])
  have "unat a div 4096 < 0xD0000" using ax(2) by (simp add: less_mult_imp_div_less)
  then have "unat ?q = unat ?s + unat (?q - ?s)" using l s unat_add_of_nat [of ?s "unat (?q - ?s)"] by simp
  moreover have "unat x mod 4096 div 512 < 8" by (simp add: less_mult_imp_div_less)
  ultimately have "unat x div 4096 - 0x10000 = unat a div 4096 - 0x10000" using q s l by simp
  moreover have "0x10000 \<le> unat x div 4096" "0x10000 \<le> unat a div 4096" using ax by simp_all
  ultimately have "unat x div 4096 = unat a div 4096" by simp
  then show "PGNUM x = PGNUM a" by (simp add: unat_PGNUM [symmetric] word_unat_eq_iff)
qed

lemma in_cache_base:
  assumes "in_cache a"
  shows "in_cache (push_bit 12 (PGNUM a))" "\<not> bad_va (push_bit 12 (PGNUM a))"
proof -
  have "PGNUM (push_bit 12 (PGNUM a)) = PGNUM a" by (rule PGNUM_frame [OF PGNUM_less])
  then show ic: "in_cache (push_bit 12 (PGNUM a))" using in_cache_page assms by blast
  then have "push_bit 12 (PGNUM a) < UTOP" by (simp add: in_cache_unat layout_values word_less_nat_alt)
  moreover have "push_bit 12 (PGNUM a) mod PGSIZE = 0" unfolding page_base [symmetric] by (rule ROUNDDOWN_aligned)
  ultimately show "\<not> bad_va (push_bit 12 (PGNUM a))" by (simp add: bad_va_def)
qed

lemma flush_block_ok:
  assumes s: "cache_ok s"
  shows "wpK (\<lambda>_ t. flushed s t a \<and> in_cache a) (\<lambda>_ _. True) (flush_block a s)"
proof (cases "in_cache a")
  case False
  then show ?thesis by (auto simp: flush_block_def in_cache_def)
next
  case ic: True
  let ?b = "push_bit 12 (PGNUM a)"
  show ?thesis
  proof (cases "fs_present s (PGNUM a) \<and> fs_written s (PGNUM a)")
    case False
    then have "fs_view s x = disk_at s x" if "PGNUM x = PGNUM a" for x
      using that s ic in_cache_page [OF that] by (auto simp: fs_view_def cache_ok_def coherent_def)
    then have "flushed s s a" using s by (auto simp: flushed_def)
    then show ?thesis using False ic by (auto simp: flush_block_def in_cache_def va_is_mapped_def va_is_dirty_def Let_def)
  next
    case True
    obtain r u where w: "ide_write_loop 8 (block_sect a) ?b s = (r, u)" by fastforce
    have ns: "unat BLKSECTS = 8" by (simp add: BLKSECTS_def BLKSIZE_def PGSIZE_def SECTSIZE_def)
    have iw: "ide_write ((a - DISKMAP) div BLKSIZE * BLKSECTS) (ROUNDDOWN a PGSIZE) (unat BLKSECTS) s = Ret r u"
      using w ns by (simp add: ide_write_def page_base block_sect_def)
    show ?thesis
    proof (cases "r < 0")
      case neg: True
      then show ?thesis using True ic iw by (simp add: flush_block_def in_cache_def va_is_mapped_def va_is_dirty_def Let_def)
    next
      case False
      have pb: "PGNUM ?b = PGNUM a" by (rule PGNUM_frame [OF PGNUM_less])
      from ide_write_loop_ok [OF w] False have u: "fs_disk u = (\<lambda>q ofs. if unat (q - block_sect a) < 8 \<and> ofs < 512
          then fs_mem s (?b + (q - block_sect a) * 512 + ofs) else fs_disk s q ofs)"
        "fs_mem u = fs_mem s" "fs_present u = fs_present s" "fs_written u = fs_written s" "same_vars s u" by auto
      have nb: "\<not> bad_va ?b" using in_cache_base(2) [OF ic] .
      then have mp: "self_page_map ?b u = (0, set_written (PGNUM a) False u)" using True u(3) by (simp add: self_page_map_def pb)
      let ?t = "set_written (PGNUM a) False u"
      have vx: "fs_view s x = fs_mem s x" if "PGNUM x = PGNUM a" for x using True that by (simp add: fs_view_def)
      have d: "disk_at ?t x = (if PGNUM x = PGNUM a then fs_view s x else disk_at s x)" if x: "in_cache x" for x
      proof (cases "PGNUM x = PGNUM a")
        case pa: True
        let ?d = "x - ?b"
        note bs = block_sector [OF ic pa]
        have q: "(x - DISKMAP) div SECTSIZE - block_sect a = ?d div 512" using bs(1) by (simp add: algebra_simps)
        have "?d div 512 * 512 + ?d mod 512 = ?d" by (rule div_mult_mod_eq)
        then have e: "?b + ?d div 512 * 512 + x mod SECTSIZE = x" using bs(2) by (simp add: algebra_simps)
        have "x mod SECTSIZE < 512" by (simp add: SECTSIZE_def word_less_nat_alt unat_mod)
        then have "disk_at ?t x = fs_mem s x" using disk_block [OF ic x] pa q e by (simp add: disk_at_def u(1))
        then show ?thesis using pa vx by simp
      next
        case pn: False
        then show ?thesis using disk_block [OF ic x] by (simp add: disk_at_def u(1))
      qed
      have f: "fs_mem ?t = fs_mem s" "fs_present ?t = fs_present s" "fs_written ?t = (fs_written s)(PGNUM a := False)" "same_vars s ?t"
        using u by (simp_all add: same_vars_def)
      have "coherent ?t" unfolding coherent_def f
      proof (intro allI impI)
        fix x assume "in_cache x \<and> fs_present s (PGNUM x) \<and> \<not> ((fs_written s)(PGNUM a := False)) (PGNUM x)"
        then show "fs_mem s x = disk_at ?t x" using d [of x] vx [of x] s by (cases "PGNUM x = PGNUM a") (auto simp: cache_ok_def coherent_def)
      qed
      moreover have "fs_view ?t x = fs_view s x" for x
        using d [of x] True by (cases "PGNUM x = PGNUM a") (auto simp: fs_view_def u(2,3))
      ultimately have "flushed s ?t a" using s f vars_ok_same [OF f(4)] d by (auto simp: flushed_def cache_ok_def fun_eq_iff)
      then show ?thesis using True False ic iw mp
        by (simp add: flush_block_def in_cache_def va_is_mapped_def va_is_dirty_def Let_def page_base)
    qed
  qed
qed

text \<open>Clearing a whole block.\<close>

lemma fs_memset_block_ok:
  assumes "cache_ok s" "a = push_bit 12 (PGNUM a)"
  shows "wpK (\<lambda>_ t. stored s t (\<lambda>m. mem_set m a v BLKSIZE)) (\<lambda>_ _. True) (fs_memset a v BLKSIZE s)"
proof -
  have n: "BLKSIZE \<noteq> 0" by (simp add: BLKSIZE_def PGSIZE_def)
  have r: "x - a < BLKSIZE \<longleftrightarrow> PGNUM x = PGNUM a" for x
    using page_region_iff [OF PGNUM_less, of x a] assms(2) by (simp add: BLKSIZE_def PGSIZE_def)
  show ?thesis unfolding fs_memset_def if_not_P [OF n] wpK_bind
  proof (rule wpK_weaken [OF touch_ok [OF assms(1), of a]])
    fix t assume t: "faulted s t \<and> (in_cache a \<longrightarrow> fs_present t (PGNUM a))"
    have "stored t (set_written (PGNUM a) True (t\<lparr>fs_mem := mem_set (fs_mem t) a v BLKSIZE\<rparr>)) (\<lambda>m. mem_set m a v BLKSIZE)"
      by (rule store_present) (use t faultedD(1) in \<open>auto simp: mem_set_def r\<close>)
    then show "wpK (\<lambda>_ t. stored s t (\<lambda>m. mem_set m a v BLKSIZE)) (\<lambda>_ _. True)
        (Ret () (set_written (PGNUM a) True (t\<lparr>fs_mem := mem_set (fs_mem t) a v BLKSIZE\<rparr>)))"
      using t faultedD(2) [of s t] faultedD(3) [of s t] same_vars_trans [of s t] by (auto simp: stored_def)
  qed simp
qed

section \<open>The cache as a flat memory\<close>

datatype bc_op = Load u32 | Store u32 u32 | Flush u32

text \<open>A sequence of accesses to the cache, and the same on a flat memory, where flushing is nothing.\<close>

fun bc_run :: "bc_op list \<Rightarrow> fs \<Rightarrow> (u32 list, fs) kres" where
  "bc_run [] s = Ret [] s"
| "bc_run (Load a # ops) s = bindK (fs_load a s) (\<lambda>v s. bindK (bc_run ops s) (\<lambda>vs s. Ret (v # vs) s))"
| "bc_run (Store a v # ops) s = bindK (fs_store a v s) (\<lambda>_ s. bc_run ops s)"
| "bc_run (Flush a # ops) s = bindK (flush_block a s) (\<lambda>_ s. bc_run ops s)"

fun flat_run :: "bc_op list \<Rightarrow> mem \<Rightarrow> u32 list \<times> mem" where
  "flat_run [] m = ([], m)"
| "flat_run (Load a # ops) m = (case flat_run ops m of (vs, m') \<Rightarrow> (ld32 m a # vs, m'))"
| "flat_run (Store a v # ops) m = flat_run ops (st32 m a v)"
| "flat_run (Flush a # ops) m = flat_run ops m"

fun op_aligned :: "bc_op \<Rightarrow> bool" where
  "op_aligned (Load a) = aligned4 a"
| "op_aligned (Store a v) = aligned4 a"
| "op_aligned (Flush a) = True"

lemma bc_run_flat:
  assumes "cache_ok s" "\<forall>op \<in> set ops. op_aligned op" "bc_run ops s = Ret vs t"
  shows "flat_run ops (fs_view s) = (vs, fs_view t) \<and> cache_ok t"
  using assms
proof (induction ops s arbitrary: vs t rule: bc_run.induct)
  case (2 a ops s)
  then obtain v u ws where u: "fs_load a s = Ret v u" "bc_run ops u = Ret ws t" "vs = v # ws" by (auto simp: bindK_eq_Ret)
  with fs_load_ok [of s a] 2(2,3) have f: "faulted s u" "v = ld32 (fs_view s) a" by auto
  from 2(1) [OF faultedD(1) [OF f(1)] _ u(2)] 2(3) show ?case using f u(3) faultedD(2) [OF f(1)] by simp
next
  case (3 a v ops s)
  then obtain u where u: "fs_store a v s = Ret () u" "bc_run ops u = Ret vs t" by (auto simp: bindK_eq_Ret)
  with fs_store_ok [of s a v] 3(2,3) have f: "cache_ok u" "fs_view u = st32 (fs_view s) a v" by (auto simp: stored_def)
  from 3(1) [OF f(1) _ u(2)] 3(3) show ?case using f by simp
next
  case (4 a ops s)
  then obtain u where u: "flush_block a s = Ret () u" "bc_run ops u = Ret vs t" by (auto simp: bindK_eq_Ret)
  with flush_block_ok [OF 4(2), of a] have f: "cache_ok u" "fs_view u = fs_view s" by (auto simp: flushed_def)
  from 4(1) [OF f(1) _ u(2)] 4(3) show ?case using f by simp
qed simp

end
