(* ===== verification/Fsinv.thy ===== *)
theory Fsinv
  imports Fs Bcinv Usermem
begin

text \<open>
  The file system on top of the cache: the free block bitmap as a set of blocks, writing
  everything out, and the blocks of a file as one sequence of bytes.
\<close>

section \<open>Accesses that do not fault\<close>

definition resident :: "fs \<Rightarrow> u32 \<Rightarrow> bool" where
  "resident s a \<longleftrightarrow> (in_cache a \<longrightarrow> fs_present s (PGNUM a))"

lemma touch_resident: "resident s a \<Longrightarrow> touch a s = Ret () s"
  by (auto simp: resident_def touch_def touch_with_def)

lemma fs_load_resident: "resident s a \<Longrightarrow> fs_load a s = Ret (ld32 (fs_mem s) a) s"
  by (auto simp: resident_def fs_load_def load_with_def touch_with_def)

lemma fs_store_resident:
  "resident s a \<Longrightarrow> fs_store a v s = Ret () (set_written (PGNUM a) True (s\<lparr>fs_mem := st32 (fs_mem s) a v\<rparr>))"
  by (simp add: fs_store_def touch_resident)

lemma resident_view: "aligned4 a \<Longrightarrow> resident s a \<Longrightarrow> ld32 (fs_view s) a = ld32 (fs_mem s) a"
  by (rule view_word) (simp_all add: resident_def)

section \<open>A disk without errors\<close>

lemma ide_write_loop_works:
  assumes "fs_disk_works s = []"
  shows "\<exists>t. ide_write_loop n sect src s = (0, t) \<and> fs_disk_works t = []"
  using assms by (induction n arbitrary: sect src s) (simp_all add: next_answer_def Let_def)

lemma flush_block_total:
  assumes s: "cache_ok s" "in_cache a" and w: "fs_disk_works s = []"
  shows "\<exists>t. flush_block a s = Ret () t \<and> flushed s t a \<and> fs_disk_works t = []"
proof -
  have "\<exists>t. flush_block a s = Ret () t \<and> fs_disk_works t = []"
  proof (cases "fs_present s (PGNUM a) \<and> fs_written s (PGNUM a)")
    case False
    then show ?thesis using s(2) w by (auto simp: flush_block_def in_cache_def va_is_mapped_def va_is_dirty_def Let_def)
  next
    case True
    let ?b = "push_bit 12 (PGNUM a)"
    obtain t where t: "ide_write_loop 8 (block_sect a) ?b s = (0, t)" "fs_disk_works t = []"
      using ide_write_loop_works [OF w] by blast
    have ns: "unat BLKSECTS = 8" by (simp add: BLKSECTS_def BLKSIZE_def PGSIZE_def SECTSIZE_def)
    have p: "fs_present t = fs_present s" using ide_write_loop_ok [OF t(1)] by simp
    have iw: "ide_write ((a - DISKMAP) div BLKSIZE * BLKSECTS) (ROUNDDOWN a PGSIZE) (unat BLKSECTS) s = Ret 0 t"
      using t ns by (simp add: ide_write_def page_base block_sect_def)
    have "self_page_map ?b t = (0, set_written (PGNUM a) False t)"
      using True p in_cache_base(2) [OF s(2)] PGNUM_frame [OF PGNUM_less, of a] by (simp add: self_page_map_def)
    then show ?thesis using True s(2) iw t(2)
      by (simp add: flush_block_def in_cache_def va_is_mapped_def va_is_dirty_def Let_def page_base)
  qed
  then obtain t where t: "flush_block a s = Ret () t" "fs_disk_works t = []" by blast
  with flush_block_ok [OF s(1), of a] show ?thesis by auto
qed

text \<open>Accesses to pages that are there, and flushes, always return.\<close>

fun op_resident :: "fs \<Rightarrow> bc_op \<Rightarrow> bool" where
  "op_resident s (Load a) = resident s a"
| "op_resident s (Store a v) = resident s a"
| "op_resident s (Flush a) = in_cache a"

lemma op_resident_cong: "fs_present t = fs_present s \<Longrightarrow> op_resident t op = op_resident s op"
  by (cases op) (simp_all add: resident_def)

lemma bc_run_total:
  assumes "cache_ok s" "fs_disk_works s = []" "\<forall>op \<in> set ops. op_aligned op \<and> op_resident s op"
  shows "\<exists>vs t. bc_run ops s = Ret vs t"
  using assms
proof (induction ops arbitrary: s)
  case (Cons op ops)
  have "\<exists>v t. bc_run [op] s = Ret v t \<and> cache_ok t \<and> fs_disk_works t = [] \<and> fs_present t = fs_present s"
  proof (cases op)
    case (Load a)
    then show ?thesis using Cons.prems fs_load_resident [of s a] by simp
  next
    case (Store a v)
    then have r: "resident s a" "aligned4 a" using Cons.prems(3) by simp_all
    then show ?thesis using Store Cons.prems(1,2) fs_store_resident [OF r(1)] fs_store_ok [OF Cons.prems(1) r(2), of v] by (simp add: stored_def)
  next
    case (Flush a)
    then have "in_cache a" using Cons.prems(3) by simp
    from flush_block_total [OF Cons.prems(1) this Cons.prems(2)]
    obtain t where "flush_block a s = Ret () t" "flushed s t a" "fs_disk_works t = []" by (elim exE conjE)
    then show ?thesis using Flush by (simp add: flushed_def)
  qed
  then obtain v t where t: "bc_run [op] s = Ret v t" "cache_ok t" "fs_disk_works t = []" "fs_present t = fs_present s" by (elim exE conjE)
  then obtain vs u where u: "bc_run ops t = Ret vs u" using Cons.IH [of t] Cons.prems(3) op_resident_cong [OF t(4)] by auto
  then show ?case using t(1) by (cases op) (auto simp: bindK_eq_Ret)
qed simp

section \<open>The mounted file system\<close>

text \<open>
  After \<^verbatim>\<open>fs_init\<close> the super block is in the cache; nothing ever removes it.
\<close>

definition fs_nblocks :: "fs \<Rightarrow> u32" where
  "fs_nblocks s = ld32 (fs_view s) (s_nblocks s)"

definition mounted :: "fs \<Rightarrow> bool" where
  "mounted s \<longleftrightarrow> cache_ok s \<and> super s = DISKMAP + BLKSIZE \<and> bitmap s = DISKMAP + 2 * BLKSIZE \<and>
     resident s (super s) \<and> fs_nblocks s \<le> 0xC0000"

lemma super_addr: "PGNUM (DISKMAP + BLKSIZE + 4) = PGNUM (DISKMAP + BLKSIZE)" "aligned4 (DISKMAP + BLKSIZE + 4)"
  "PGNUM (DISKMAP + BLKSIZE) = 0x10001"
  by (simp_all add: DISKMAP_def BLKSIZE_def PGSIZE_def PGNUM_def aligned4_def)

lemma mounted_nblocks:
  assumes "mounted s"
  shows "fs_load (s_nblocks s) s = Ret (fs_nblocks s) s"
proof -
  have "resident s (s_nblocks s)" using assms super_addr(1) in_cache_page [OF super_addr(1)]
    by (auto simp: mounted_def resident_def s_nblocks_def)
  then show ?thesis using fs_load_resident resident_view [of "s_nblocks s" s] super_addr(2) assms
    by (simp add: fs_nblocks_def mounted_def s_nblocks_def)
qed

definition block_addr :: "u32 \<Rightarrow> u32" where
  "block_addr b = DISKMAP + b * BLKSIZE"

lemma unat_block_addr: "b < 0xC0000 \<Longrightarrow> unat (block_addr b) = 0x10000000 + 4096 * unat b"
  by (simp add: block_addr_def DISKMAP_def BLKSIZE_def PGSIZE_def unat_word_ariths word_less_nat_alt)

lemma block_addr_page:
  assumes "b < 0xC0000"
  shows "in_cache (block_addr b)" "PGNUM (block_addr b) = 0x10000 + b" "block_addr b = push_bit 12 (0x10000 + b)"
proof -
  have b: "unat b < 0xC0000" using assms by (simp add: word_less_nat_alt)
  then show "in_cache (block_addr b)" using unat_block_addr [OF assms] by (simp add: in_cache_unat)
  have u: "unat (0x10000 + b) = 0x10000 + unat b" using b by (simp add: unat_word_ariths)
  then show "PGNUM (block_addr b) = 0x10000 + b" using unat_block_addr [OF assms] by (simp add: word_unat_eq_iff unat_PGNUM)
  have "0x10000 + b < 0x100000" using u b by (simp add: word_less_nat_alt)
  then show "block_addr b = push_bit 12 (0x10000 + b)" using unat_block_addr [OF assms] unat_frame [of "0x10000 + b"] u
    by (simp add: word_unat_eq_iff)
qed

lemma diskaddr_mounted:
  assumes "mounted s"
  shows "diskaddr b s = (if b = 0 \<or> b \<ge> fs_nblocks s then Panic ''bad block number in diskaddr'' else Ret (block_addr b) s)"
proof -
  have "super s \<noteq> 0" using assms by (auto simp: mounted_def DISKMAP_def BLKSIZE_def PGSIZE_def)
  then show ?thesis using mounted_nblocks [OF assms] by (simp add: diskaddr_def s_nblocks_def block_addr_def)
qed

lemma flushed_mounted:
  assumes "mounted s" "flushed s t a"
  shows "mounted t" "fs_nblocks t = fs_nblocks s"
  using assms by (auto simp: mounted_def flushed_def same_vars_def resident_def fs_nblocks_def s_nblocks_def)

section \<open>Writing everything out\<close>

definition blk :: "u32 \<Rightarrow> u32" where
  "blk x = PGNUM x - 0x10000"

lemma fs_sync_from_ok:
  assumes "mounted s" "fs_disk_works s = []" "0 < i" "i \<le> fs_nblocks s"
  shows "\<exists>t. fs_sync_from i s = Ret () t \<and> mounted t \<and> fs_view t = fs_view s \<and> fs_disk_works t = [] \<and>
    (\<forall>x. in_cache x \<longrightarrow> disk_at t x = (if i \<le> blk x \<and> blk x < fs_nblocks s then fs_view s x else disk_at s x))"
  using assms
proof (induction i s rule: fs_sync_from.induct)
  case (1 i s)
  note m = mounted_nblocks [OF 1(2)]
  show ?case
  proof (cases "i < fs_nblocks s")
    case False
    then have i: "i = fs_nblocks s" using 1(5) by simp
    have "fs_sync_from i s = Ret () s" using False m by (simp add: fs_sync_from.simps [of i s])
    then show ?thesis using 1(2,3) i by (intro exI [of _ s]) auto
  next
    case True
    have nb: "fs_nblocks s \<le> 0xC0000" using 1(2) by (simp add: mounted_def)
    then have i: "i < 0xC0000" using True by simp
    have d: "diskaddr i s = Ret (block_addr i) s" using True 1(4) diskaddr_mounted [OF 1(2), of i] by (auto simp: not_le)
    obtain u where u: "flush_block (block_addr i) s = Ret () u" "flushed s u (block_addr i)" "fs_disk_works u = []"
      using flush_block_total [OF _ block_addr_page(1) [OF i] 1(3)] 1(2) by (auto simp: mounted_def)
    note mu = flushed_mounted [OF 1(2) u(2)]
    have i1: "unat (i + 1) = unat i + 1" using i by (simp add: unat_word_ariths word_less_nat_alt)
    have "0 < i + 1" "i + 1 \<le> fs_nblocks u" using True i1 mu(2) by (simp_all add: word_less_nat_alt word_le_nat_alt)
    then obtain t where t: "fs_sync_from (i + 1) u = Ret () t" "mounted t" "fs_view t = fs_view u" "fs_disk_works t = []"
      "\<And>x. in_cache x \<Longrightarrow> disk_at t x = (if i + 1 \<le> blk x \<and> blk x < fs_nblocks u then fs_view u x else disk_at u x)"
      using 1(1) [OF m _ d u(1) mu(1) u(3)] True by auto
    have r: "fs_sync_from i s = Ret () t" using m True d u(1) t(1) by (simp add: fs_sync_from.simps [of i s])
    have "disk_at t x = (if i \<le> blk x \<and> blk x < fs_nblocks s then fs_view s x else disk_at s x)" if x: "in_cache x" for x
    proof -
      have "PGNUM x = PGNUM (block_addr i) \<longleftrightarrow> blk x = i" using block_addr_page(2) [OF i] by (auto simp: blk_def)
      then have du: "disk_at u x = (if blk x = i then fs_view s x else disk_at s x)" using u(2) x by (simp add: flushed_def)
      have "i \<le> blk x \<longleftrightarrow> i + 1 \<le> blk x \<or> blk x = i" using i1 by (auto simp: word_le_nat_alt word_unat_eq_iff)
      moreover have "fs_view u = fs_view s" using u(2) by (simp add: flushed_def)
      ultimately show ?thesis using t(5) [OF x] du mu(2) True by auto
    qed
    then show ?thesis using r t(2-4) u(2) by (auto simp: flushed_def)
  qed
qed

section \<open>The free blocks\<close>

definition bit_addr :: "fs \<Rightarrow> u32 \<Rightarrow> u32" where
  "bit_addr s b = bitmap s + 4 * (b div 32)"

definition free_bit :: "fs \<Rightarrow> u32 \<Rightarrow> bool" where
  "free_bit s b \<longleftrightarrow> bit (ld32 (fs_view s) (bit_addr s b)) (unat (b mod 32))"

definition free_set :: "fs \<Rightarrow> u32 set" where
  "free_set s = {b. b < fs_nblocks s \<and> free_bit s b}"

text \<open>The bitmap is in the cache.\<close>

definition bitmap_resident :: "fs \<Rightarrow> bool" where
  "bitmap_resident s \<longleftrightarrow> (\<forall>b < fs_nblocks s. resident s (bit_addr s b))"

lemma and_bit_iff: "(w :: u32) AND push_bit k 1 \<noteq> 0 \<longleftrightarrow> bit w k"
  by (simp add: bit_iff_and_push_bit_not_eq_0)

lemma unat_bit_addr:
  assumes "mounted s" "b < 0xC0000"
  shows "unat (bit_addr s b) = 0x10002000 + 4 * (unat b div 32)"
proof -
  have "unat b < 0xC0000" using assms(2) by (simp add: word_less_nat_alt)
  then have "4 * (unat b div 32) < 0x18000" by simp
  then show ?thesis using assms(1) by (simp add: bit_addr_def mounted_def DISKMAP_def BLKSIZE_def PGSIZE_def unat_word_ariths unat_div)
qed

lemma bit_addr_ok:
  assumes "mounted s" "b < 0xC0000"
  shows "aligned4 (bit_addr s b)" "in_cache (bit_addr s b)" "bit_addr s b \<noteq> s_nblocks s"
    "c < 0xC0000 \<Longrightarrow> bit_addr s b = bit_addr s c \<longleftrightarrow> b div 32 = c div 32"
proof -
  note u = unat_bit_addr [OF assms]
  show "aligned4 (bit_addr s b)" using u by (simp add: aligned4_iff)
  have "unat b < 0xC0000" using assms(2) by (simp add: word_less_nat_alt)
  then show "in_cache (bit_addr s b)" using u by (simp add: in_cache_unat)
  have "unat (s_nblocks s) = 0x10001004" using assms(1) by (simp add: s_nblocks_def mounted_def DISKMAP_def BLKSIZE_def PGSIZE_def)
  then show "bit_addr s b \<noteq> s_nblocks s" using u by auto
  show "bit_addr s b = bit_addr s c \<longleftrightarrow> b div 32 = c div 32" if "c < 0xC0000"
    using u unat_bit_addr [OF assms(1) that] by (simp add: word_unat_eq_iff unat_div)
qed

text \<open>Changing one bit of the bitmap changes the membership of one block.\<close>

lemma set_bit_blocks:
  assumes s: "mounted s" "b < fs_nblocks s" and t: "mounted t" "same_vars s t"
    and v: "fs_view t = st32 (fs_view s) (bit_addr s b) w"
    and w: "\<And>k. k < 32 \<Longrightarrow> k \<noteq> unat (b mod 32) \<Longrightarrow> bit w k = bit (ld32 (fs_view s) (bit_addr s b)) k"
  shows "fs_nblocks t = fs_nblocks s" "free_set t = (if bit w (unat (b mod 32)) then insert b (free_set s) else free_set s - {b})"
proof -
  have nb: "fs_nblocks s \<le> 0xC0000" using s(1) by (simp add: mounted_def)
  have b: "b < 0xC0000" using s(2) nb by simp
  have va: "s_nblocks t = s_nblocks s" "bit_addr t c = bit_addr s c" for c
    using t(2) by (simp_all add: same_vars_def s_nblocks_def bit_addr_def)
  have al: "aligned4 (s_nblocks s)" using super_addr(2) s(1) by (simp add: s_nblocks_def mounted_def)
  show n: "fs_nblocks t = fs_nblocks s" unfolding fs_nblocks_def va v
    using ld32_st32_other bit_addr_ok(1,3) [OF s(1) b] al by simp
  have "free_bit t c = (if c = b then bit w (unat (b mod 32)) else free_bit s c)" if c: "c < fs_nblocks s" for c
  proof -
    have c': "c < 0xC0000" using c nb by simp
    note ba = bit_addr_ok(4) [OF s(1) b c']
    show ?thesis
    proof (cases "b div 32 = c div 32")
      case True
      then have "free_bit t c = bit w (unat (c mod 32))" using ba by (simp add: free_bit_def va v ld32_st32_same)
      moreover have "c mod 32 = b mod 32 \<longleftrightarrow> c = b" using True div_mult_mod_eq [of c 32] div_mult_mod_eq [of b 32] by metis
      moreover have "unat (c mod 32) < 32" by (simp add: unat_mod)
      moreover have "bit_addr s c = bit_addr s b" using ba True by simp
      moreover have "unat (c mod 32) = unat (b mod 32) \<longleftrightarrow> c mod 32 = b mod 32" by (simp add: word_unat_eq_iff)
      ultimately show ?thesis using w [of "unat (c mod 32)"] by (auto simp: free_bit_def)
    next
      case False
      then have "bit_addr s c \<noteq> bit_addr s b" using ba by auto
      then have "ld32 (fs_view t) (bit_addr s c) = ld32 (fs_view s) (bit_addr s c)"
        unfolding v using ld32_st32_other bit_addr_ok(1) [OF s(1)] b c' by simp
      then show ?thesis using False by (auto simp: free_bit_def va)
    qed
  qed
  then show "free_set t = (if bit w (unat (b mod 32)) then insert b (free_set s) else free_set s - {b})"
    using s(2) n by (auto simp: free_set_def split: if_splits)
qed

lemma stored_mounted:
  assumes s: "mounted s" and st: "stored s t g" and p: "fs_present t = fs_present s" and n: "fs_nblocks t \<le> 0xC0000"
  shows "mounted t"
  using assms by (auto simp: mounted_def stored_def same_vars_def resident_def)

text \<open>Writing a word of the bitmap that is in the cache, and flushing it.\<close>

lemma bitmap_store:
  assumes s: "mounted s" "b < fs_nblocks s" "resident s (bit_addr s b)"
    and w: "\<And>k. k < 32 \<Longrightarrow> k \<noteq> unat (b mod 32) \<Longrightarrow> bit w k = bit (ld32 (fs_view s) (bit_addr s b)) k"
  shows "\<exists>t. fs_store (bit_addr s b) w s = Ret () t \<and> mounted t \<and> same_vars s t \<and> fs_present t = fs_present s \<and>
    fs_disk_works t = fs_disk_works s \<and> fs_nblocks t = fs_nblocks s \<and> fs_view t = st32 (fs_view s) (bit_addr s b) w \<and>
    free_set t = (if bit w (unat (b mod 32)) then insert b (free_set s) else free_set s - {b})"
proof -
  let ?a = "bit_addr s b"
  let ?t = "set_written (PGNUM ?a) True (s\<lparr>fs_mem := st32 (fs_mem s) ?a w\<rparr>)"
  have nb: "fs_nblocks s \<le> 0xC0000" using s(1) by (simp add: mounted_def)
  have b: "b < 0xC0000" using s(2) nb by simp
  have r: "fs_store ?a w s = Ret () ?t" by (rule fs_store_resident [OF s(3)])
  have st: "stored s ?t (\<lambda>m. st32 m ?a w)" using fs_store_ok [OF _ bit_addr_ok(1) [OF s(1) b], of s w] s(1) r by (simp add: mounted_def)
  then have v: "fs_view ?t = st32 (fs_view s) ?a w" "same_vars s ?t" by (simp_all add: stored_def)
  have "fs_nblocks ?t = fs_nblocks s"
    unfolding fs_nblocks_def v using ld32_st32_other bit_addr_ok(1,3) [OF s(1) b] super_addr(2) s(1)
    by (simp add: s_nblocks_def mounted_def)
  then have m: "mounted ?t" using stored_mounted [OF s(1) st] nb by simp
  note sb = set_bit_blocks [OF s(1,2) m v(2,1) w]
  show ?thesis using r m v sb by (intro exI [of _ ?t]) simp
qed

lemma flushed_free_set: "flushed s t a \<Longrightarrow> free_set t = free_set s"
  by (simp add: flushed_def free_set_def free_bit_def fs_nblocks_def s_nblocks_def bit_addr_def same_vars_def)

lemma sint_small: "unat (x :: u32) < 2 ^ 31 \<Longrightarrow> sint x = int (unat x)"
proof -
  assume x: "unat x < 2 ^ 31"
  have u: "int (unat x) = uint x" by simp
  have "sint x = signed_take_bit 31 (uint x)" by (simp add: sint_uint)
  also have "\<dots> = uint x"
  proof (rule signed_take_bit_int_eq_self)
    have "nat (uint x) < 2 ^ 31" using x by (simp only: unat_eq_nat_uint)
    then have "uint x < int (2 ^ 31)" by (rule nat_less_iff [THEN iffD1, rotated]) simp
    then show "uint x < 2 ^ 31" by simp
    have "0 \<le> uint x" by simp
    then show "- (2 ^ 31) \<le> uint x" by (rule order_trans [rotated]) simp
  qed
  finally show "sint x = int (unat x)" using u by simp
qed

lemma alloc_block_from_ok:
  assumes "mounted s" "bitmap_resident s" "fs_disk_works s = []" "b \<le> fs_nblocks s"
  shows "(\<forall>c \<in> free_set s. c < b) \<and> alloc_block_from b s = Ret (- E_NO_DISK) s \<or>
    (\<exists>c t. c \<in> free_set s \<and> b \<le> c \<and> (\<forall>d \<in> free_set s. b \<le> d \<longrightarrow> c \<le> d) \<and>
      alloc_block_from b s = Ret (int (unat c)) t \<and> mounted t \<and> same_vars s t \<and> fs_present t = fs_present s \<and> fs_disk_works t = [] \<and>
      free_set t = free_set s - {c} \<and> (\<forall>x. PGNUM x \<noteq> PGNUM (bit_addr s c) \<longrightarrow> fs_view t x = fs_view s x) \<and>
      (\<forall>x. PGNUM x = PGNUM (bit_addr s c) \<longrightarrow> disk_at t x = fs_view t x))"
  using assms
proof (induction b s rule: alloc_block_from.induct)
  case (1 b s)
  note m = mounted_nblocks [OF 1(2)]
  let ?a = "bit_addr s b" and ?k = "unat (b mod 32)"
  let ?w = "ld32 (fs_view s) ?a"
  show ?case
  proof (cases "b < fs_nblocks s")
    case False
    then have "alloc_block_from b s = Ret (- E_NO_DISK) s" using m by (simp add: alloc_block_from.simps [of b s])
    moreover have "c < b" if "c \<in> free_set s" for c using that False 1(5) by (simp add: free_set_def)
    ultimately show ?thesis by blast
  next
    case True
    have "fs_nblocks s \<le> 0xC0000" using 1(2) by (simp add: mounted_def)
    then have b: "b < 0xC0000" using True by simp
    have r: "resident s ?a" using 1(3) True by (simp add: bitmap_resident_def)
    have l: "fs_load ?a s = Ret ?w s" using fs_load_resident [OF r] resident_view [OF bit_addr_ok(1) [OF 1(2) b] r] by simp
    show ?thesis
    proof (cases "free_bit s b")
      case free: True
      let ?v = "?w AND NOT (push_bit ?k 1)"
      have "bit ?v k = bit ?w k" if "k < 32" "k \<noteq> ?k" for k using that by (simp add: bit_simps)
      from bitmap_store [OF 1(2) True r this] obtain t where t: "fs_store ?a ?v s = Ret () t" "mounted t" "same_vars s t"
        "fs_present t = fs_present s" "fs_disk_works t = []" "fs_view t = st32 (fs_view s) ?a ?v"
        "free_set t = (if bit ?v ?k then insert b (free_set s) else free_set s - {b})" using 1(4) by auto
      have "\<not> bit ?v ?k" by (simp add: bit_simps)
      then have ft: "free_set t = free_set s - {b}" using t(7) by simp
      obtain u where u: "flush_block ?a t = Ret () u" "flushed t u ?a" "fs_disk_works u = []"
        using flush_block_total [OF _ bit_addr_ok(2) [OF 1(2) b] t(5)] t(2) by (auto simp: mounted_def)
      have al: "alloc_block_from b s = Ret (sint b) u"
        using m True l free t(1) u(1) and_bit_iff [of ?w ?k] by (simp add: alloc_block_from.simps [of b s] Let_def bit_addr_def free_bit_def)
      have sb: "sint b = int (unat b)" by (rule sint_small) (use b in \<open>simp add: word_less_nat_alt\<close>)
      have pg: "PGNUM (?a + i) = PGNUM ?a" if "i < 4" for i using PGNUM_aligned_add bit_addr_ok(1) [OF 1(2) b] that by blast
      have "fs_view t x = fs_view s x" if "PGNUM x \<noteq> PGNUM ?a" for x unfolding t(6) using that pg by (intro st32_other_byte) auto
      moreover have "fs_view u = fs_view t" "mounted u" "same_vars s u" "fs_present u = fs_present s" "free_set u = free_set s - {b}"
        using u(2) flushed_mounted [OF t(2) u(2)] t(3,4) same_vars_trans [OF t(3)] flushed_free_set [OF u(2)] ft by (simp_all add: flushed_def)
      moreover have "disk_at u x = fs_view u x" if "PGNUM x = PGNUM ?a" for x
        using u(2) that in_cache_page [OF that] bit_addr_ok(2) [OF 1(2) b] by (simp add: flushed_def)
      moreover have "b \<in> free_set s" using True free by (simp add: free_set_def)
      ultimately show ?thesis using al sb u(3) by (intro disjI2 exI [of _ b] exI [of _ u]) simp
    next
      case nfree: False
      have b1: "unat (b + 1) = unat b + 1" using b by (simp add: unat_word_ariths word_less_nat_alt)
      have le: "b + 1 \<le> fs_nblocks s" using True b1 by (simp add: word_less_nat_alt word_le_nat_alt)
      have eq: "alloc_block_from b s = alloc_block_from (b + 1) s"
        using m True l nfree and_bit_iff [of ?w ?k] by (simp add: alloc_block_from.simps [of b s] Let_def bit_addr_def free_bit_def)
      have s: "d < b + 1 \<longleftrightarrow> d < b" "b + 1 \<le> d \<longleftrightarrow> b \<le> d" if "d \<in> free_set s" for d
      proof -
        have "d \<noteq> b" using that nfree by (auto simp: free_set_def)
        then show "d < b + 1 \<longleftrightarrow> d < b" "b + 1 \<le> d \<longleftrightarrow> b \<le> d" using b1 by (auto simp: word_less_nat_alt word_le_nat_alt word_unat_eq_iff)
      qed
      have "(\<forall>c \<in> free_set s. c < b + 1) \<and> alloc_block_from (b + 1) s = Ret (- E_NO_DISK) s \<or>
        (\<exists>c t. c \<in> free_set s \<and> b + 1 \<le> c \<and> (\<forall>d \<in> free_set s. b + 1 \<le> d \<longrightarrow> c \<le> d) \<and>
          alloc_block_from (b + 1) s = Ret (int (unat c)) t \<and> mounted t \<and> same_vars s t \<and> fs_present t = fs_present s \<and> fs_disk_works t = [] \<and>
          free_set t = free_set s - {c} \<and> (\<forall>x. PGNUM x \<noteq> PGNUM (bit_addr s c) \<longrightarrow> fs_view t x = fs_view s x) \<and>
          (\<forall>x. PGNUM x = PGNUM (bit_addr s c) \<longrightarrow> disk_at t x = fs_view t x))"
        by (rule 1(1) [OF m _ refl refl l [unfolded bit_addr_def] _ 1(2-4) le])
          (use True nfree and_bit_iff [of ?w ?k] in \<open>simp_all add: bit_addr_def free_bit_def\<close>)
      then show ?thesis
      proof (elim disjE)
        assume "(\<forall>c \<in> free_set s. c < b + 1) \<and> alloc_block_from (b + 1) s = Ret (- E_NO_DISK) s"
        with s(1) show ?thesis using eq by (intro disjI1) auto
      next
        assume "\<exists>c t. c \<in> free_set s \<and> b + 1 \<le> c \<and> (\<forall>d \<in> free_set s. b + 1 \<le> d \<longrightarrow> c \<le> d) \<and>
          alloc_block_from (b + 1) s = Ret (int (unat c)) t \<and> mounted t \<and> same_vars s t \<and> fs_present t = fs_present s \<and> fs_disk_works t = [] \<and>
          free_set t = free_set s - {c} \<and> (\<forall>x. PGNUM x \<noteq> PGNUM (bit_addr s c) \<longrightarrow> fs_view t x = fs_view s x) \<and>
          (\<forall>x. PGNUM x = PGNUM (bit_addr s c) \<longrightarrow> disk_at t x = fs_view t x)"
        then obtain c t where ct: "c \<in> free_set s" "b + 1 \<le> c" "\<forall>d \<in> free_set s. b + 1 \<le> d \<longrightarrow> c \<le> d" 
          "alloc_block_from (b + 1) s = Ret (int (unat c)) t" "mounted t" "same_vars s t" "fs_present t = fs_present s" "fs_disk_works t = []"
          "free_set t = free_set s - {c}" "\<forall>x. PGNUM x \<noteq> PGNUM (bit_addr s c) \<longrightarrow> fs_view t x = fs_view s x"
          "\<forall>x. PGNUM x = PGNUM (bit_addr s c) \<longrightarrow> disk_at t x = fs_view t x" by (elim exE conjE)
        have "b \<le> c" "\<forall>d \<in> free_set s. b \<le> d \<longrightarrow> c \<le> d" using ct(1-3) s(2) by blast+
        then show ?thesis using ct eq by (intro disjI2 exI [of _ c] exI [of _ t]) simp
      qed
    qed
  qed
qed

lemma free_block_ok:
  assumes s: "mounted s" and b: "0 < b" "b < fs_nblocks s" "resident s (bit_addr s b)"
  shows "\<exists>t. free_block b s = Ret () t \<and> mounted t \<and> free_set t = insert b (free_set s) \<and> fs_nblocks t = fs_nblocks s \<and>
    same_vars s t \<and> fs_present t = fs_present s \<and> fs_disk_works t = fs_disk_works s"
proof -
  let ?a = "bit_addr s b" and ?k = "unat (b mod 32)"
  let ?w = "ld32 (fs_view s) ?a OR push_bit ?k 1"
  have "b < 0xC0000" using b(2) s by (auto simp: mounted_def)
  then have "ld32 (fs_mem s) ?a = ld32 (fs_view s) ?a" using resident_view [OF bit_addr_ok(1) [OF s] b(3)] by simp
  then have l: "fs_load ?a s = Ret (ld32 (fs_view s) ?a) s" using fs_load_resident [OF b(3)] by simp
  have bit: "bit ?w k \<longleftrightarrow> bit (ld32 (fs_view s) ?a) k \<or> k = ?k" if "k < 32" for k
    using that by (auto simp: bit_or_iff bit_push_bit_iff bit_exp_iff possible_bit_word)
  have "?k < 32" by (simp add: unat_mod)
  then have w: "bit ?w ?k" using bit by simp
  from bitmap_store [OF s b(2,3), of ?w] bit obtain t where t: "fs_store ?a ?w s = Ret () t" "mounted t"
      "fs_nblocks t = fs_nblocks s" "free_set t = (if bit ?w ?k then insert b (free_set s) else free_set s - {b})"
      "same_vars s t" "fs_present t = fs_present s" "fs_disk_works t = fs_disk_works s" by auto
  have "free_block b s = Ret () t" using l t(1) b(1) by (simp only: free_block_def Let_def bit_addr_def) auto
  then show ?thesis using t w by (intro exI [of _ t]) simp
qed

text \<open>
  The bitmap, once it is in the cache and its first block is marked as in use, which
  \<^verbatim>\<open>check_bitmap\<close> insists on, is an allocator of blocks.
\<close>

definition bitmap_inv :: "fs \<Rightarrow> bool" where
  "bitmap_inv s \<longleftrightarrow> mounted s \<and> bitmap_resident s \<and> fs_disk_works s = [] \<and> 0 \<notin> free_set s"

definition block_idle :: "u32 \<Rightarrow> fs \<Rightarrow> bool" where
  "block_idle b s \<longleftrightarrow> 0 < b \<and> b < fs_nblocks s"

definition alloc_block_opt :: "fs \<Rightarrow> (u32 option, fs) kres" where
  "alloc_block_opt s = bindK (alloc_block s) (\<lambda>r s. Ret (if r < 0 then None else Some (word_of_int r)) s)"

lemma nblocks_keep:
  assumes s: "mounted s" and t: "same_vars s t" and c: "c < 0xC0000"
    and v: "\<forall>x. PGNUM x \<noteq> PGNUM (bit_addr s c) \<longrightarrow> fs_view t x = fs_view s x"
  shows "fs_nblocks t = fs_nblocks s"
proof -
  have sn: "s_nblocks s = DISKMAP + BLKSIZE + 4" "s_nblocks t = s_nblocks s"
    using s t by (simp_all add: mounted_def same_vars_def s_nblocks_def)
  have "unat (PGNUM (bit_addr s c)) \<noteq> 0x10001" using unat_bit_addr [OF s c] by (simp add: unat_PGNUM)
  then have "PGNUM (bit_addr s c) \<noteq> 0x10001" by (auto simp: word_unat_eq_iff)
  moreover have "PGNUM (s_nblocks s + i) = 0x10001" if "i < 4" for i
    using PGNUM_aligned_add [OF _ that] super_addr sn(1) by simp
  ultimately have "ld32 (fs_view t) (s_nblocks s) = ld32 (fs_view s) (s_nblocks s)"
    by (intro ld32_cong) (use v in simp)
  then show ?thesis by (simp add: fs_nblocks_def sn(2))
qed

lemma bitmap_inv_keep:
  assumes s: "bitmap_inv s" and t: "mounted t" "same_vars s t" "fs_present t = fs_present s" "fs_disk_works t = []"
    "fs_nblocks t = fs_nblocks s" "0 \<notin> free_set t"
  shows "bitmap_inv t"
proof -
  have "bit_addr t b = bit_addr s b" for b using t(2) by (simp add: bit_addr_def same_vars_def)
  then show ?thesis using s t by (simp add: bitmap_inv_def bitmap_resident_def resident_def)
qed

interpretation blks: allocator bitmap_inv free_set alloc_block_opt free_block block_idle
proof unfold_locales
  fix s assume s: "bitmap_inv s"
  then have m: "mounted s" "bitmap_resident s" "fs_disk_works s = []" "0 \<notin> free_set s" by (simp_all add: bitmap_inv_def)
  show "finite (free_set s)" by simp
  have "super s \<noteq> 0" using m(1) by (simp add: mounted_def DISKMAP_def BLKSIZE_def PGSIZE_def)
  then have e: "alloc_block s = alloc_block_from 0 s" by (simp add: alloc_block_def)
  note a = alloc_block_from_ok [OF m(1-3) word_zero_le, folded e]
  show "alloc_block_opt s = Ret None s" if "free_set s = {}" using a that by (simp add: alloc_block_opt_def E_NO_DISK_def)
  show "\<exists>b t. alloc_block_opt s = Ret (Some b) t \<and> bitmap_inv t \<and> b \<in> free_set s \<and> free_set t = free_set s - {b} \<and> block_idle b t"
    if "free_set s \<noteq> {}"
  proof -
    from a that obtain b t where t: "b \<in> free_set s" "alloc_block s = Ret (int (unat b)) t" "mounted t" "same_vars s t"
        "fs_present t = fs_present s" "fs_disk_works t = []" "free_set t = free_set s - {b}"
        "\<forall>x. PGNUM x \<noteq> PGNUM (bit_addr s b) \<longrightarrow> fs_view t x = fs_view s x"
      by (auto simp del: word_neq_0_conv)
    have b: "b < fs_nblocks s" "b \<noteq> 0" using t(1) m(4) by (auto simp: free_set_def)
    then have "b < 0xC0000" using m(1) by (auto simp: mounted_def)
    from nblocks_keep [OF m(1) t(4) this t(8)] have n: "fs_nblocks t = fs_nblocks s" .
    have "bitmap_inv t" by (rule bitmap_inv_keep [OF s t(3-6) n]) (use t(7) m(4) in simp)
    moreover have "alloc_block_opt s = Ret (Some b) t" using t(2) by (simp add: alloc_block_opt_def)
    moreover have "block_idle b t" using b n by (simp add: block_idle_def word_neq_0_conv)
    ultimately show ?thesis using t(1,7) by blast
  qed
next
  fix s b assume s: "bitmap_inv s" and b: "block_idle b s" "b \<notin> free_set s"
  have m: "mounted s" "bitmap_resident s" "fs_disk_works s = []" "0 \<notin> free_set s" using s by (simp_all add: bitmap_inv_def)
  have b': "0 < b" "b < fs_nblocks s" "resident s (bit_addr s b)" using b(1) m(2) by (simp_all add: block_idle_def bitmap_resident_def)
  from free_block_ok [OF m(1) b'] obtain t where t: "free_block b s = Ret () t" "mounted t" "free_set t = insert b (free_set s)"
      "fs_nblocks t = fs_nblocks s" "same_vars s t" "fs_present t = fs_present s" "fs_disk_works t = fs_disk_works s" by (elim exE conjE)
  have "bitmap_inv t" by (rule bitmap_inv_keep [OF s t(2,5,6) _ t(4)]) (use t(3,7) m(3,4) b'(1) in auto)
  then show "\<exists>t. free_block b s = Ret () t \<and> bitmap_inv t \<and> free_set t = insert b (free_set s)" using t by blast
qed

section \<open>The first access to a block\<close>

lemma ide_read_loop_works:
  assumes "fs_disk_works s = []"
  shows "\<exists>t. ide_read_loop n sect dst s = (0, t) \<and> fs_disk_works t = []"
  using assms by (induction n arbitrary: sect dst s) (simp_all add: next_answer_def Let_def set_written_def)

lemma blk_div: "in_cache a \<Longrightarrow> (a - DISKMAP) div BLKSIZE = blk a"
proof -
  assume "in_cache a"
  then have a: "0x10000000 \<le> unat a" by (simp add: in_cache_unat)
  then have "unat (a - DISKMAP) = unat a - 0x10000000" by (simp add: unat_sub DISKMAP_def word_le_nat_alt)
  then have "unat ((a - DISKMAP) div BLKSIZE) = unat a div 4096 - 0x10000"
    using diskmap_div(1) [OF a] by (simp add: unat_div BLKSIZE_def PGSIZE_def)
  moreover have "0x10000 \<le> unat a div 4096" using div_le_mono [OF a, of 4096] by simp
  then have "unat (blk a) = unat a div 4096 - 0x10000"
    by (simp add: blk_def unat_sub word_le_nat_alt unat_PGNUM)
  ultimately show ?thesis by (simp add: word_unat_eq_iff)
qed

lemma load_with_resident: "resident s a \<Longrightarrow> load_with h a s = Ret (ld32 (fs_mem s) a) s"
  by (auto simp: resident_def load_with_def touch_with_def)

lemma mounted_load:
  assumes m: "mounted s"
  shows "load_with h (super s + 4) s = Ret (fs_nblocks s) s"
proof -
  have s: "super s = DISKMAP + BLKSIZE" "resident s (super s)" using m by (auto simp: mounted_def)
  have r: "resident s (super s + 4)" using s in_cache_page [OF super_addr(1)] super_addr(1) by (simp add: resident_def)
  have "ld32 (fs_mem s) (super s + 4) = fs_nblocks s"
    using resident_view [OF _ r] super_addr(2) s(1) by (simp add: fs_nblocks_def s_nblocks_def)
  then show ?thesis using load_with_resident [OF r] by simp
qed

lemma block_is_free_resident:
  assumes m: "mounted s" and b: "b < fs_nblocks s" "resident s (bit_addr s b)"
  shows "block_is_free_with h b s = Ret (free_bit s b) s"
proof -
  have s: "super s = DISKMAP + BLKSIZE" "fs_nblocks s \<le> 0xC0000" using m by (simp_all add: mounted_def)
  have "ld32 (fs_mem s) (bit_addr s b) = ld32 (fs_view s) (bit_addr s b)"
    using resident_view [OF _ b(2)] bit_addr_ok(1) [OF m less_le_trans [OF b(1) s(2)]] by simp
  moreover have "super s \<noteq> 0" using s(1) by (simp add: DISKMAP_def BLKSIZE_def PGSIZE_def)
  ultimately show ?thesis using mounted_load [OF m] load_with_resident [OF b(2)] b(1)
    by (simp add: block_is_free_with_def bit_addr_def free_bit_def and_bit_iff [unfolded push_bit_eq_mult mult_1] not_le [symmetric])
qed

lemma faulted_mounted:
  assumes "mounted s" "faulted s t"
  shows "mounted t" "fs_nblocks t = fs_nblocks s" "free_bit t b = free_bit s b" "bit_addr t b = bit_addr s b" "resident s a \<Longrightarrow> resident t a"
proof -
  note f = faultedD(1-3) [OF assms(2)]
  have v: "super t = super s" "bitmap t = bitmap s" using f(3) by (simp_all add: same_vars_def)
  show r: "resident s a \<Longrightarrow> resident t a" for a using faultedD(4) [OF assms(2)] by (simp add: resident_def)
  show n: "fs_nblocks t = fs_nblocks s" "bit_addr t b = bit_addr s b" by (simp_all add: fs_nblocks_def s_nblocks_def bit_addr_def f(2) v)
  then show "free_bit t b = free_bit s b" by (simp add: free_bit_def f(2))
  show "mounted t" using assms(1) r [of "super s"] f(1) n(1) v by (auto simp: mounted_def)
qed

lemma bad_va_cache: "in_cache a \<Longrightarrow> bad_va a \<longleftrightarrow> PGOFF a \<noteq> 0"
proof -
  assume "in_cache a"
  then have "\<not> a \<ge> UTOP" by (simp add: in_cache_unat layout_values word_le_nat_alt)
  moreover have "unat (a mod PGSIZE) = unat (PGOFF a)" by (simp add: unat_PGOFF unat_mod PGSIZE_def)
  then have "a mod PGSIZE = PGOFF a" by (simp only: word_unat_eq_iff)
  ultimately show ?thesis by (simp add: bad_va_def)
qed

lemma touch_first:
  assumes m: "mounted s" and a: "in_cache a" "\<not> fs_present s (PGNUM a)" "blk a < fs_nblocks s"
    and w: "fs_memory_left s = []" "fs_disk_works s = []"
  shows "PGOFF a \<noteq> 0 \<Longrightarrow> touch a s = Panic ''in bc_pgfault, sys_page_map''"
    "PGOFF a = 0 \<Longrightarrow> resident s (bit_addr s (blk a)) \<Longrightarrow> \<exists>t. faulted s t \<and> fs_present t (PGNUM a) \<and>
       touch a s = (if free_bit s (blk a) then Panic ''reading free block'' else Ret () t)"
proof -
  have s: "cache_ok s" "super s = DISKMAP + BLKSIZE" "bitmap s = DISKMAP + 2 * BLKSIZE" "resident s (super s)" using m by (auto simp: mounted_def)
  have sz: "super s \<noteq> 0" "bitmap s \<noteq> 0" using s by (simp_all add: DISKMAP_def BLKSIZE_def PGSIZE_def)
  have ns: "load_with h (super s + 4) s = Ret (fs_nblocks s) s" for h
    using mounted_load [OF m] .
  have al: "\<exists>s1. self_page_alloc (ROUNDDOWN a PGSIZE) s = (0, s1) \<and> fs_disk_works s1 = [] \<and> fs_present s1 (PGNUM a)"
    using w in_cache_base(2) [OF a(1)] PGNUM_frame [OF PGNUM_less, of a] by (simp add: self_page_alloc_def page_base set_present_def set_written_def)
  then obtain s1 where s1: "self_page_alloc (ROUNDDOWN a PGSIZE) s = (0, s1)" "fs_disk_works s1 = []" "fs_present s1 (PGNUM a)"
    by (elim exE conjE)
  have n8: "unat BLKSECTS = 8" by (simp add: BLKSECTS_def BLKSIZE_def PGSIZE_def SECTSIZE_def)
  obtain s2 where s2: "ide_read_loop 8 (lba (blk a * BLKSECTS)) (ROUNDDOWN a PGSIZE) s1 = (0, s2)"
    using ide_read_loop_works [OF s1(2)] by blast
  have rd: "ide_read (blk a * BLKSECTS) (ROUNDDOWN a PGSIZE) (unat BLKSECTS) s1 = Ret 0 s2"
    using s2 n8 by (simp add: ide_read_def)
  have p2: "fs_present s2 (PGNUM a)" using ide_read_loop_ok [OF s2] s1(3) by simp
  have mp: "self_page_map a s2 = (if PGOFF a \<noteq> 0 then (- E_INVAL, s2) else (0, set_written (PGNUM a) False s2))"
    using bad_va_cache [OF a(1)] p2 by (simp add: self_page_map_def)
  have four: "(4 :: nat) = Suc 3" by simp
  have eq: "touch a s = (case self_page_map a s2 of (r, t) \<Rightarrow>
      if r < 0 then Panic ''in bc_pgfault, sys_page_map''
      else if bitmap t \<noteq> 0 then bindK (block_is_free_with (bc_pgfault 3) (blk a) t) (\<lambda>free t.
        if free then Panic ''reading free block'' else Ret () t) else Ret () t)"
    using a ns sz(1) s1(1) rd blk_div [OF a(1)] not_le [of "fs_nblocks s" "blk a"]
    unfolding touch_def touch_with_def four bc_pgfault.simps(2) by (simp add: in_cache_def)
  show "PGOFF a \<noteq> 0 \<Longrightarrow> touch a s = Panic ''in bc_pgfault, sys_page_map''"
    unfolding eq mp by (simp add: E_INVAL_def)
  assume o: "PGOFF a = 0" and b: "resident s (bit_addr s (blk a))"
  define t where "t = set_written (PGNUM a) False s2"
  have mp': "self_page_map a s2 = (0, t)" using mp o by (simp add: t_def)
  have f: "faulted s t" "fs_present t (PGNUM a)"
    using fill_ok [OF s(1) a(1) _ s1(1) _ _ _ mp'] rd a(2) blk_div [OF a(1)] by simp_all
  note ft = faulted_mounted [OF m f(1)]
  have "block_is_free_with (bc_pgfault 3) (blk a) t = Ret (free_bit s (blk a)) t"
    using block_is_free_resident [OF ft(1), of "blk a" "bc_pgfault 3"] ft(2-4) ft(5) [OF b] a(3) by simp
  moreover have "bitmap t \<noteq> 0" using sz(2) faultedD(3) [OF f(1)] by (simp add: same_vars_def)
  ultimately have "touch a s = (if free_bit s (blk a) then Panic ''reading free block'' else Ret () t)"
    unfolding eq mp' by simp
  then show "\<exists>t. faulted s t \<and> fs_present t (PGNUM a) \<and> touch a s = (if free_bit s (blk a) then Panic ''reading free block'' else Ret () t)"
    using f by blast
qed

end
