(* ===== verification/Filedata.thy ===== *)
theory Filedata
  imports Fsinv Usermem
begin

text \<open>
  The contents of a file whose blocks are allocated and in the cache: reading and writing
  through the loops of \<^verbatim>\<open>file_read\<close> and \<^verbatim>\<open>file_write\<close>, block by block, is reading and writing
  one sequence of bytes.
\<close>

section \<open>The blocks of a file\<close>

definition nb :: "fs \<Rightarrow> u32" where
  "nb s = ld32 (fs_mem s) (s_nblocks s)"

definition fs_ind :: "fs \<Rightarrow> u32 \<Rightarrow> u32" where
  "fs_ind s f = ld32 (fs_mem s) (f_indirect f)"

definition slot :: "fs \<Rightarrow> u32 \<Rightarrow> nat \<Rightarrow> u32" where
  "slot s f k = (if k < 10 then f_direct f (of_nat k) else block_addr (fs_ind s f) + 4 * of_nat (k - 10))"

definition fblk :: "fs \<Rightarrow> u32 \<Rightarrow> nat \<Rightarrow> u32" where
  "fblk s f k = ld32 (fs_mem s) (slot s f k)"

definition file_ready :: "fs \<Rightarrow> u32 \<Rightarrow> nat \<Rightarrow> bool" where
  "file_ready s f N \<longleftrightarrow> super s = DISKMAP + BLKSIZE \<and> resident s (super s) \<and> nb s \<le> 0xC0000 \<and> N \<le> 1034 \<and>
     aligned4 f \<and> unat (PGOFF f) + 256 \<le> 4096 \<and> resident s f \<and>
     (10 < N \<longrightarrow> fs_ind s f \<noteq> 0 \<and> fs_ind s f < nb s \<and> resident s (block_addr (fs_ind s f))) \<and>
     (\<forall>k<N. fblk s f k \<noteq> 0 \<and> fblk s f k < nb s \<and> resident s (block_addr (fblk s f k)) \<and>
        PGNUM (block_addr (fblk s f k)) \<notin> {PGNUM f, PGNUM (super s)} \<and> (10 < N \<longrightarrow> fblk s f k \<noteq> fs_ind s f)) \<and>
     inj_on (fblk s f) {..<N} \<and> in_cache f"

lemma field_page:
  assumes "unat (PGOFF f) + 256 \<le> 4096" "d < 256"
  shows "PGNUM (f + d) = PGNUM f"
proof -
  have d: "unat d < 256" using assms(2) by (simp add: word_less_nat_alt)
  have o: "unat f mod 4096 + 256 \<le> 4096" using assms(1) by (simp add: unat_PGOFF)
  have "unat f < 2 ^ 32" by (rule unat_u32_less)
  then have "unat f div 4096 < 1048576" by simp
  moreover have f: "unat f = 4096 * (unat f div 4096) + unat f mod 4096" by simp
  ultimately have "unat f + unat d < 4294967296" using d o by linarith
  then have "unat (f + d) = unat f + unat d" by (simp add: unat_word_ariths)
  then have "unat (f + d) = 4096 * (unat f div 4096) + (unat f mod 4096 + unat d)" using f by simp
  then have "unat (f + d) div 4096 = unat f div 4096" using d o page_split [of "unat f mod 4096 + unat d" "unat f div 4096"]
    by (simp only: mult.commute [of 4096])
  then show ?thesis by (intro word_unat_eq_iff [THEN iffD2]) (simp only: unat_PGNUM)
qed

lemma readyD:
  assumes "file_ready s f N"
  shows "super s = DISKMAP + BLKSIZE" "resident s (DISKMAP + BLKSIZE)" "nb s \<le> 0xC0000" "N \<le> 1034" "aligned4 f"
    "unat (PGOFF f) + 256 \<le> 4096" "resident s f"
    "10 < N \<Longrightarrow> fs_ind s f \<noteq> 0 \<and> fs_ind s f < nb s \<and> resident s (block_addr (fs_ind s f))"
    "k < N \<Longrightarrow> fblk s f k \<noteq> 0 \<and> fblk s f k < nb s \<and> resident s (block_addr (fblk s f k))"
    "k < N \<Longrightarrow> PGNUM (block_addr (fblk s f k)) \<noteq> PGNUM f" "k < N \<Longrightarrow> PGNUM (block_addr (fblk s f k)) \<noteq> PGNUM (DISKMAP + BLKSIZE)"
    "k < N \<Longrightarrow> 10 < N \<Longrightarrow> fblk s f k \<noteq> fs_ind s f" "inj_on (fblk s f) {..<N}"
    "in_cache f"
  using assms by (auto simp: file_ready_def)

lemma aligned4_block_addr: "aligned4 (block_addr b)"
proof -
  have "aligned4 DISKMAP" by (simp add: aligned4_def DISKMAP_def)
  then have "aligned4 (DISKMAP + 4 * (b * 1024))" by (rule aligned4_add)
  moreover have "4 * (b * 1024) = b * BLKSIZE" unfolding BLKSIZE_def PGSIZE_def mult.left_commute [of 4 b] by simp
  ultimately show ?thesis by (simp add: block_addr_def)
qed

lemma resident_page: "PGNUM a = PGNUM b \<Longrightarrow> resident s a \<longleftrightarrow> resident s b"
  using in_cache_page [of a b] by (simp add: resident_def)

lemma ready_nblocks:
  assumes "file_ready s f N"
  shows "fs_load (s_nblocks s) s = Ret (nb s) s"
proof -
  have "resident s (s_nblocks s)"
    using readyD(1,2) [OF assms] resident_page [OF super_addr(1)] by (simp add: s_nblocks_def)
  then show ?thesis by (simp add: fs_load_resident nb_def)
qed

lemma ready_diskaddr:
  assumes "file_ready s f N" "b \<noteq> 0" "b < nb s"
  shows "diskaddr b s = Ret (block_addr b) s"
proof -
  have "super s \<noteq> 0" using readyD(1) [OF assms(1)] by (simp add: DISKMAP_def BLKSIZE_def PGSIZE_def)
  then show ?thesis using ready_nblocks [OF assms(1)] assms(2,3)
    by (simp add: diskaddr_def s_nblocks_def block_addr_def not_le [symmetric])
qed

text \<open>Addresses of the slots.\<close>

lemma slot_page:
  assumes r: "file_ready s f N" and k: "k < N"
  shows "PGNUM (slot s f k) = (if k < 10 then PGNUM f else PGNUM (block_addr (fs_ind s f)))" "resident s (slot s f k)" "aligned4 (slot s f k)"
    "in_cache (slot s f k)"
proof -
  note d = readyD [OF r]
  show p: "PGNUM (slot s f k) = (if k < 10 then PGNUM f else PGNUM (block_addr (fs_ind s f)))"
  proof (cases "k < 10")
    case True
    have "(136 :: u32) + 4 * of_nat k < 256" using True by (simp add: word_less_nat_alt unat_word_ariths unat_of_nat)
    then show ?thesis using field_page [OF d(6), of "136 + 4 * of_nat k"] True by (simp add: slot_def f_direct_def add.assoc)
  next
    case False
    then have N10: "10 < N" using k by simp
    have i: "fs_ind s f < 0xC0000" using d(8) [OF N10] d(3) by auto
    note b = block_addr_page [OF i]
    have "(4 :: u32) * of_nat (k - 10) < 4096" using k d(4) by (simp add: word_less_nat_alt unat_word_ariths unat_of_nat)
    then have "slot s f k - push_bit 12 (0x10000 + fs_ind s f) < 4096" using False b(3) by (simp add: slot_def)
    moreover have "0x10000 + fs_ind s f < 0x100000" using PGNUM_less [of "block_addr (fs_ind s f)"] b(2) by simp
    ultimately show ?thesis using False page_region_iff b(2) by simp
  qed
  show "resident s (slot s f k)"
    using p resident_page [of "slot s f k" f] resident_page [of "slot s f k" "block_addr (fs_ind s f)"] d(7,8) k by (cases "k < 10") auto
  have "aligned4 (f + 136)" using aligned4_add [of f 34] d(5) by simp
  then show "aligned4 (slot s f k)" unfolding slot_def f_direct_def
    by (cases "k < 10") (simp_all only: if_True if_False aligned4_add aligned4_block_addr)
  show "in_cache (slot s f k)"
  proof (cases "k < 10")
    case True
    then show ?thesis using in_cache_page [of "slot s f k" f] p d(14) by simp
  next
    case False
    then have i: "fs_ind s f < 0xC0000" using d(8) k d(3) by auto
    show ?thesis using False in_cache_page [of "slot s f k" "block_addr (fs_ind s f)"] p block_addr_page(1) [OF i] by simp
  qed
qed

text \<open>Finding a block that is there changes nothing.\<close>

lemma ready_get_block:
  assumes r: "file_ready s f N" and k: "k < N"
  shows "file_get_block f (of_nat k) s = Ret (0, block_addr (fblk s f k)) s"
proof -
  note d = readyD [OF r]
  have kk: "k < 1034" using k d(4) by simp
  have u: "unat (of_nat k :: u32) = k" using kk by (intro unat_of_nat_u32) simp
  have lim: "NDIRECT = 10" "NINDIRECT = 1024" by (simp_all add: NDIRECT_def NINDIRECT_def BLKSIZE_def PGSIZE_def)
  have w: "file_block_walk f (of_nat k) True s = Ret (0, slot s f k) s"
  proof (cases "k < 10")
    case True
    then show ?thesis using u kk by (simp add: file_block_walk_def lim word_le_nat_alt word_less_nat_alt slot_def)
  next
    case False
    then have N10: "10 < N" using k by simp
    note i = d(8) [OF N10]
    have "f_indirect f = f + 176" by (simp add: f_indirect_def)
    then have "resident s (f_indirect f)" using resident_page [OF field_page [OF d(6), of 176]] d(7) by simp
    then have l: "fs_load (f_indirect f) s = Ret (fs_ind s f) s" by (simp add: fs_load_resident fs_ind_def)
    obtain j where j: "k = 10 + j" using False by (metis le_iff_add not_less)
    have "of_nat k - NDIRECT = (of_nat (k - 10) :: u32)" unfolding lim j by simp
    then show ?thesis using False u kk l i ready_diskaddr [OF r, of "fs_ind s f"]
      by (simp add: file_block_walk_def lim word_le_nat_alt word_less_nat_alt slot_def)
  qed
  have l: "fs_load (slot s f k) s = Ret (fblk s f k) s" using fs_load_resident [OF slot_page(2) [OF r k]] by (simp add: fblk_def)
  show ?thesis using w l d(9) [OF k] ready_diskaddr [OF r, of "fblk s f k"] by (simp add: file_get_block_def)
qed

section \<open>The bytes of a file\<close>

definition faddr :: "fs \<Rightarrow> u32 \<Rightarrow> nat \<Rightarrow> u32" where
  "faddr s f q = block_addr (fblk s f (q div 4096)) + of_nat (q mod 4096)"

lemma block_addr_add:
  assumes "b < 0xC0000" "i < 4096"
  shows "PGNUM (block_addr b + of_nat i) = 0x10000 + b" "in_cache (block_addr b + of_nat i)"
proof -
  note p = block_addr_page [OF assms(1)]
  have "block_addr b + of_nat i - push_bit 12 (0x10000 + b) < 4096" using p(3) assms(2) by (simp add: word_less_nat_alt unat_of_nat)
  moreover have "0x10000 + b < 0x100000" using PGNUM_less [of "block_addr b"] p(2) by simp
  ultimately show g: "PGNUM (block_addr b + of_nat i) = 0x10000 + b" using page_region_iff by blast
  then have "PGNUM (block_addr b + of_nat i) = PGNUM (block_addr b)" using p(2) by simp
  then show "in_cache (block_addr b + of_nat i)" using in_cache_page p(1) by blast
qed

lemma ready_small: "file_ready s f N \<Longrightarrow> k < N \<Longrightarrow> fblk s f k < 0xC0000"
  using readyD(3) [of s f N] readyD(9) [of s f N k] less_le_trans by blast

lemma faddr_page:
  assumes r: "file_ready s f N" and q: "q < 4096 * N"
  shows "PGNUM (faddr s f q) = PGNUM (block_addr (fblk s f (q div 4096)))" "in_cache (faddr s f q)"
proof -
  have k: "q div 4096 < N" using q by (simp add: less_mult_imp_div_less)
  note b = ready_small [OF r k]
  show "PGNUM (faddr s f q) = PGNUM (block_addr (fblk s f (q div 4096)))" "in_cache (faddr s f q)"
    using block_addr_add [OF b, of "q mod 4096"] block_addr_page(2) [OF b] by (simp_all add: faddr_def)
qed

lemma faddr_inj:
  assumes r: "file_ready s f N" and q: "q < 4096 * N" "q' < 4096 * N" and e: "faddr s f q = faddr s f q'"
  shows "q = q'"
proof -
  have k: "q div 4096 < N" "q' div 4096 < N" using q by (simp_all add: less_mult_imp_div_less)
  have small: "i mod 4096 < 2 ^ 32" for i :: nat using less_trans [OF mod_less_divisor [of 4096 i]] by simp
  note b = ready_small [OF r k(1)] ready_small [OF r k(2)]
  have "0x10000 + fblk s f (q div 4096) = 0x10000 + fblk s f (q' div 4096)"
    using block_addr_add(1) [OF b(1), of "q mod 4096"] block_addr_add(1) [OF b(2), of "q' mod 4096"] e by (simp add: faddr_def)
  then have "fblk s f (q div 4096) = fblk s f (q' div 4096)" by (rule add_left_imp_eq)
  then have d: "q div 4096 = q' div 4096" using inj_onD [OF readyD(13) [OF r]] k by simp
  then have "(of_nat (q mod 4096) :: u32) = of_nat (q' mod 4096)" using e by (simp add: faddr_def)
  then have "q mod 4096 = q' mod 4096" using of_nat_u32_inject [of "q' mod 4096" "q mod 4096"] by (metis small)
  then show ?thesis using d div_mult_mod_eq [of q 4096] div_mult_mod_eq [of q' 4096] by metis
qed

lemma super_in_cache: "in_cache (DISKMAP + BLKSIZE)"
  by (simp add: in_cache_def DISKMAP_def BLKSIZE_def PGSIZE_def DISKSIZE_def)

text \<open>What only changes data blocks leaves the file as it is.\<close>

lemma ready_upd:
  assumes r: "file_ready s f N" and t: "super t = super s" "fs_present t = fs_present s"
    and m: "\<And>x. in_cache x \<Longrightarrow> (\<And>k. k < N \<Longrightarrow> PGNUM x \<noteq> PGNUM (block_addr (fblk s f k))) \<Longrightarrow> fs_mem t x = fs_mem s x"
  shows "file_ready t f N" "k < N \<Longrightarrow> fblk t f k = fblk s f k" "q < 4096 * N \<Longrightarrow> faddr t f q = faddr s f q"
    "ld32 (fs_mem t) (f_size f) = ld32 (fs_mem s) (f_size f)"
proof -
  note d = readyD [OF r]
  have w: "ld32 (fs_mem t) a = ld32 (fs_mem s) a"
    if "aligned4 a" "in_cache a" "\<And>k. k < N \<Longrightarrow> PGNUM a \<noteq> PGNUM (block_addr (fblk s f k))" for a
  proof (rule ld32_cong)
    fix i :: u32 assume "i < 4"
    then have e: "PGNUM (a + i) = PGNUM a" using PGNUM_aligned_add that(1) by blast
    then have "in_cache (a + i)" using in_cache_page that(2) by blast
    then show "fs_mem t (a + i) = fs_mem s (a + i)" using m e that(3) by metis
  qed
  have wf: "ld32 (fs_mem t) (f + 4 * i) = ld32 (fs_mem s) (f + 4 * i)" if "4 * i < 256" for i
    using w [of "f + 4 * i"] aligned4_add [OF d(5)] field_page [OF d(6) that] in_cache_page [OF field_page [OF d(6) that]] d(10,14) by metis
  have n: "nb t = nb s" unfolding nb_def s_nblocks_def t(1) using w [OF super_addr(2)] super_addr(1) in_cache_page [OF super_addr(1)] super_in_cache d(1,11) by metis
  have i: "fs_ind t f = fs_ind s f" using wf [of 44] by (simp add: fs_ind_def f_indirect_def)
  show "ld32 (fs_mem t) (f_size f) = ld32 (fs_mem s) (f_size f)" using wf [of 32] by (simp add: f_size_def)
  have sl: "slot t f k = slot s f k" for k by (simp add: slot_def i)
  have res: "resident t = resident s" using t(2) by (auto simp: resident_def fun_eq_iff)
  have fb: "fblk t f k = fblk s f k" if k: "k < N" for k
  proof -
    have "PGNUM (slot s f k) \<noteq> PGNUM (block_addr (fblk s f j))" if j: "j < N" for j
    proof (cases "k < 10")
      case True
      then show ?thesis using slot_page(1) [OF r k] d(10) [OF j] by auto
    next
      case False
      then have N10: "10 < N" using k by simp
      have s: "fs_ind s f < 0xC0000" using d(8) [OF N10] d(3) by auto
      show ?thesis using False slot_page(1) [OF r k] d(12) [OF j N10] block_addr_page(2) [OF s] block_addr_page(2) [OF ready_small [OF r j]] by auto
    qed
    then show ?thesis using w [OF slot_page(3) [OF r k] slot_page(4) [OF r k]] by (simp add: fblk_def sl)
  qed
  then show "k < N \<Longrightarrow> fblk t f k = fblk s f k" .
  show "q < 4096 * N \<Longrightarrow> faddr t f q = faddr s f q" using fb [of "q div 4096"] by (simp add: faddr_def less_mult_imp_div_less)
  have "inj_on (fblk t f) {..<N}" using d(13) fb by (simp add: inj_on_def)
  then show "file_ready t f N" using d fb n i res t(1) by (simp add: file_ready_def)
qed

lemma sint_of_nat_u32: "n < 2 ^ 31 \<Longrightarrow> sint (of_nat n :: u32) = int n"
  using sint_small [of "of_nat n"] unat_of_nat_u32 [of n] by (simp add: uint_nat)

lemma div_blk_nat: "q < 2 ^ 31 \<Longrightarrow> div_blk (of_nat q) = of_nat (q div 4096)" "q < 2 ^ 31 \<Longrightarrow> mod_blk (of_nat q) = of_nat (q mod 4096)"
proof -
  assume "q < 2 ^ 31"
  then have s: "sint (of_nat q :: u32) = int q" by (rule sint_of_nat_u32)
  have b: "sint BLKSIZE = 4096" by (simp add: BLKSIZE_def PGSIZE_def)
  have "int q sdiv 4096 = int (q div 4096)" "int q smod 4096 = int (q mod 4096)"
    by (simp_all add: signed_divide_int_def signed_modulo_int_def sgn_if zdiv_int zmod_int minus_div_mult_eq_mod)
  then show "div_blk (of_nat q) = of_nat (q div 4096)" "mod_blk (of_nat q) = of_nat (q mod 4096)"
    by (simp_all add: div_blk_def mod_blk_def s b)
qed

text \<open>One turn of the loops copies a run of bytes of one block.\<close>

lemma chunk_nat:
  assumes "p < e" "e < 2 ^ 31"
  shows "chunk (of_nat p) (of_nat e) = of_nat (min (4096 - p mod 4096) (e - p))"
proof -
  have m: "mod_blk (of_nat p) = of_nat (p mod 4096)" using assms by (intro div_blk_nat) simp
  have "BLKSIZE - of_nat (p mod 4096) = (of_nat (4096 - p mod 4096) :: u32)" by (simp add: BLKSIZE_def PGSIZE_def of_nat_diff)
  moreover have "(of_nat e - of_nat p :: u32) = of_nat (e - p)" using assms by (simp add: of_nat_diff)
  moreover have "unat (of_nat (4096 - p mod 4096) :: u32) = 4096 - p mod 4096" "unat (of_nat (e - p) :: u32) = e - p"
    using assms by (intro unat_of_nat_u32; simp)+
  then have "(of_nat (4096 - p mod 4096) :: u32) \<le> of_nat (e - p) \<longleftrightarrow> 4096 - p mod 4096 \<le> e - p"
    by (simp only: word_le_nat_alt)
  ultimately show ?thesis by (simp only: chunk_def m MIN_u32_def min_def if_distrib [of of_nat])
qed

lemma run_faddr:
  assumes "i < 4096 - p mod 4096"
  shows "(p + i) div 4096 = p div 4096" "faddr s f (p + i) = faddr s f p + of_nat i"
proof -
  have "p + i = p div 4096 * 4096 + (p mod 4096 + i)" by simp
  moreover have "p mod 4096 + i < 4096" using assms by linarith
  ultimately have "(p + i) div 4096 = p div 4096 \<and> (p + i) mod 4096 = p mod 4096 + i"
    using page_split [of "p mod 4096 + i" "p div 4096"] by metis
  then show "(p + i) div 4096 = p div 4096" "faddr s f (p + i) = faddr s f p + of_nat i" by (simp_all add: faddr_def)
qed

lemma copy_run:
  assumes "n < 2 ^ 32"
  shows "i < n \<Longrightarrow> mem_copy m d s (of_nat n) (d + of_nat i) = m (s + of_nat i)"
    "(\<And>i. i < n \<Longrightarrow> x \<noteq> d + of_nat i) \<Longrightarrow> mem_copy m d s (of_nat n) x = m x"
proof -
  show "i < n \<Longrightarrow> mem_copy m d s (of_nat n) (d + of_nat i) = m (s + of_nat i)"
    using assms by (simp add: mem_copy_def of_nat_u32_less)
  assume a: "\<And>i. i < n \<Longrightarrow> x \<noteq> d + of_nat i"
  have "\<not> x - d < of_nat n"
  proof
    assume "x - d < of_nat n"
    then have "unat (x - d) < n" using assms by (simp add: word_less_nat_alt unat_of_nat_u32)
    then show False using a [of "unat (x - d)"] by simp
  qed
  then show "mem_copy m d s (of_nat n) x = m x" by (simp add: mem_copy_def)
qed

text \<open>
  The effect of a loop: the bytes at the addresses \<open>A q\<close>, for \<open>q\<close> from \<open>p\<close> to \<open>e\<close>, become \<open>g q\<close>,
  and nothing else of the memory, of the mapped pages or of the variables changes.
\<close>

definition copied :: "(nat \<Rightarrow> u32) \<Rightarrow> (nat \<Rightarrow> u8) \<Rightarrow> nat \<Rightarrow> nat \<Rightarrow> fs \<Rightarrow> fs \<Rightarrow> bool" where
  "copied A g p e s t \<longleftrightarrow> super t = super s \<and> fs_present t = fs_present s \<and>
     (\<forall>q. p \<le> q \<longrightarrow> q < e \<longrightarrow> fs_mem t (A q) = g q) \<and>
     (\<forall>x. (\<forall>q. p \<le> q \<longrightarrow> q < e \<longrightarrow> x \<noteq> A q) \<longrightarrow> fs_mem t x = fs_mem s x)"

lemma copied_at: "copied A g p e s t \<Longrightarrow> p \<le> q \<Longrightarrow> q < e \<Longrightarrow> fs_mem t (A q) = g q"
  by (simp add: copied_def)

lemma copied_none: "copied A g p p s s"
  by (simp add: copied_def)

lemma copied_trans:
  assumes "copied A g p m s t" "copied A g m e t u" "p \<le> m" "m \<le> e" "inj_on A {p..<e}"
  shows "copied A g p e s u"
proof -
  have "fs_mem u (A q) = g q" if q: "p \<le> q" "q < e" for q
  proof (cases "q < m")
    case True
    then have "A q \<noteq> A q'" if "m \<le> q'" "q' < e" for q' using inj_onD [OF assms(5), of q q'] that q assms(3) by auto
    then show ?thesis using assms(1,2) True q by (simp add: copied_def)
  next
    case False
    then show ?thesis using assms(2) q by (simp add: copied_def)
  qed
  then show ?thesis using assms by (simp add: copied_def)
qed

lemma copied_cong:
  assumes "copied A g p e s t" "\<And>q. p \<le> q \<Longrightarrow> q < e \<Longrightarrow> A q = A' q"
  shows "copied A' g p e s t"
  using assms by (simp add: copied_def)

lemma copied_run:
  assumes n: "n < 2 ^ 32" and A: "\<And>i. i < n \<Longrightarrow> A (p + i) = A p + of_nat i"
    and g: "\<And>i. i < n \<Longrightarrow> fs_mem s (S + of_nat i) = g (p + i)"
  shows "copied A g p (p + n) s (set_written w True (s\<lparr>fs_mem := mem_copy (fs_mem s) (A p) S (of_nat n)\<rparr>))"
proof -
  have "mem_copy (fs_mem s) (A p) S (of_nat n) (A q) = g q" if q: "p \<le> q" "q < p + n" for q
    using copied_def copy_run(1) [OF n, of "q - p" "fs_mem s" "A p" S] A [of "q - p"] g [of "q - p"] q by simp
  moreover have "mem_copy (fs_mem s) (A p) S (of_nat n) x = fs_mem s x" if x: "\<forall>q. p \<le> q \<longrightarrow> q < p + n \<longrightarrow> x \<noteq> A q" for x
  proof (rule copy_run(2) [OF n])
    fix i assume "i < n"
    then show "x \<noteq> A p + of_nat i" using x [rule_format, of "p + i"] A [of i] by simp
  qed
  ultimately show ?thesis by (simp add: copied_def set_written_def)
qed

lemma copied_outside:
  assumes "copied A g p e s t" "\<And>q. p \<le> q \<Longrightarrow> q < e \<Longrightarrow> x \<noteq> A q"
  shows "fs_mem t x = fs_mem s x"
  using assms by (simp add: copied_def)

text \<open>Writing to a file's blocks, and to memory outside the cache, keeps the file.\<close>

lemma copied_ready:
  assumes r: "file_ready s f N" and c: "copied A g p e s t"
    and A: "\<And>q. p \<le> q \<Longrightarrow> q < e \<Longrightarrow> in_cache (A q) \<Longrightarrow> q < 4096 * N \<and> A q = faddr s f q"
  shows "file_ready t f N" "q < 4096 * N \<Longrightarrow> faddr t f q = faddr s f q" "ld32 (fs_mem t) (f_size f) = ld32 (fs_mem s) (f_size f)"
proof -
  have t: "super t = super s" "fs_present t = fs_present s" using c by (simp_all add: copied_def)
  have m: "fs_mem t x = fs_mem s x" if x: "in_cache x" "\<And>k. k < N \<Longrightarrow> PGNUM x \<noteq> PGNUM (block_addr (fblk s f k))" for x
  proof (rule copied_outside [OF c])
    fix q assume q: "p \<le> q" "q < e"
    show "x \<noteq> A q"
    proof
      assume e: "x = A q"
      then have a: "q < 4096 * N" "x = faddr s f q" using A [OF q] x(1) by auto
      then show False using x(2) [of "q div 4096"] faddr_page(1) [OF r a(1)] by (simp add: less_mult_imp_div_less)
    qed
  qed
  show "file_ready t f N" "q < 4096 * N \<Longrightarrow> faddr t f q = faddr s f q" "ld32 (fs_mem t) (f_size f) = ld32 (fs_mem s) (f_size f)"
    using ready_upd [OF r t m] by blast+
qed

lemma faddr_resident:
  assumes r: "file_ready s f N" and q: "q < 4096 * N"
  shows "resident s (faddr s f q)"
  using resident_page [OF faddr_page(1) [OF r q]] readyD(9) [OF r] q by (simp add: less_mult_imp_div_less)

lemma loop_turn:
  assumes r: "file_ready s f N" and p: "p < e" "e \<le> 4096 * N"
  defines "n \<equiv> min (4096 - p mod 4096) (e - p)"
  shows "(of_nat p :: u32) < of_nat e" "chunk (of_nat p) (of_nat e) = of_nat n" "mod_blk (of_nat p) = of_nat (p mod 4096)"
    "file_get_block f (div_blk (of_nat p)) s = Ret (0, block_addr (fblk s f (p div 4096))) s"
    "0 < n" "p + n \<le> e" "n < 2 ^ 32" "n \<le> 4096 - p mod 4096" "(of_nat n :: u32) \<noteq> 0"
proof -
  have e: "e < 2 ^ 31" using p(2) readyD(4) [OF r] by simp
  show "(of_nat p :: u32) < of_nat e" using p e by (simp add: of_nat_u32_less)
  show "chunk (of_nat p) (of_nat e) = of_nat n" unfolding n_def by (rule chunk_nat [OF p(1) e])
  have k: "p div 4096 < N" using p by (simp add: less_mult_imp_div_less)
  show "mod_blk (of_nat p) = of_nat (p mod 4096)" "file_get_block f (div_blk (of_nat p)) s = Ret (0, block_addr (fblk s f (p div 4096))) s"
    using div_blk_nat [of p] ready_get_block [OF r k] p e by simp_all
  show n: "0 < n" "p + n \<le> e" "n < 2 ^ 32" "n \<le> 4096 - p mod 4096" using p by (auto simp: n_def min_def)
  show "(of_nat n :: u32) \<noteq> 0" using n(1,3) unat_of_nat_u32 [of n] by (metis less_irrefl unat_0)
qed

lemma write_loop_ok:
  assumes "file_ready s f N" "p \<le> e" "e \<le> 4096 * N"
    and "\<And>q. p \<le> q \<Longrightarrow> q < e \<Longrightarrow> \<not> in_cache (B + of_nat q) \<and> fs_mem s (B + of_nat q) = g q"
  shows "\<exists>t. file_write_loop f (B + of_nat p) (of_nat p) (of_nat e) s = Ret 0 t \<and> copied (faddr s f) g p e s t"
  using assms
proof (induction "e - p" arbitrary: p s rule: less_induct)
  case less
  show ?case
  proof (cases "p < e")
    case False
    then have "p = e" using less.prems(2) by simp
    then show ?thesis using copied_none by (simp add: file_write_loop.simps)
  next
    case True
    define n where "n = min (4096 - p mod 4096) (e - p)"
    note l = loop_turn [OF less.prems(1) True less.prems(3), folded n_def]
    define t where "t = set_written (PGNUM (faddr s f p)) True (s\<lparr>fs_mem := mem_copy (fs_mem s) (faddr s f p) (B + of_nat p) (of_nat n)\<rparr>)"
    have c: "copied (faddr s f) g p (p + n) s t" unfolding t_def
    proof (rule copied_run [OF l(7)])
      show "faddr s f (p + i) = faddr s f p + of_nat i" if "i < n" for i using run_faddr(2) that l(8) by simp
      show "fs_mem s (B + of_nat p + of_nat i) = g (p + i)" if "i < n" for i
        using less.prems(4) [of "p + i"] that l(6) by (simp add: add.assoc)
    qed
    have res: "resident s (B + of_nat p)" "resident s (faddr s f p)"
      using less.prems(4) [of p] True faddr_resident [OF less.prems(1)] less.prems(3) by (simp_all add: resident_def)
    have m: "fs_memmove (faddr s f p) (B + of_nat p) (of_nat n) s = Ret () t"
      using l(9) touch_resident [OF res(1)] touch_resident [OF res(2)] by (simp add: fs_memmove_def t_def)
    have in_f: "q < 4096 * N" if "q < p + n" for q using that l(6) less.prems(3) by simp
    note rd = copied_ready [OF less.prems(1) c] in_f
    have buf: "\<not> in_cache (B + of_nat q) \<and> fs_mem t (B + of_nat q) = g q" if q: "p + n \<le> q" "q < e" for q
    proof -
      have b: "\<not> in_cache (B + of_nat q)" "fs_mem s (B + of_nat q) = g q" using less.prems(4) [of q] q by simp_all
      have "B + of_nat q \<noteq> faddr s f q'" if "q' < p + n" for q' using faddr_page(2) [OF less.prems(1) in_f [OF that]] b(1) by auto
      then show ?thesis using copied_outside [OF c] b by simp
    qed
    have "\<exists>u. file_write_loop f (B + of_nat (p + n)) (of_nat (p + n)) (of_nat e) t = Ret 0 u \<and> copied (faddr t f) g (p + n) e t u"
      by (rule less.hyps) (use rd l(5,6) less.prems(3) buf True in auto)
    then obtain u where u: "file_write_loop f (B + of_nat (p + n)) (of_nat (p + n)) (of_nat e) t = Ret 0 u" "copied (faddr t f) g (p + n) e t u"
      by (elim exE conjE)
    have u': "copied (faddr s f) g (p + n) e t u"
      by (rule copied_cong [OF u(2)]) (use rd(2) less.prems(3) in auto)
    have "inj_on (faddr s f) {p..<e}" using faddr_inj [OF less.prems(1)] less.prems(3) by (auto intro!: inj_onI)
    from copied_trans [OF c u' _ l(6) this] have "copied (faddr s f) g p e s u" by simp
    moreover have "file_write_loop f (B + of_nat p) (of_nat p) (of_nat e) s = Ret 0 u"
      using l(1-4) m u(1) by (subst file_write_loop.simps) (simp add: Let_def faddr_def [symmetric] add.assoc)
    ultimately show ?thesis by blast
  qed
qed

lemma read_loop_ok:
  assumes "file_ready s f N" "p \<le> e" "e \<le> 4096 * N"
    and "\<And>q. p \<le> q \<Longrightarrow> q < e \<Longrightarrow> \<not> in_cache (B + of_nat q) \<and> fs_mem s (faddr s f q) = g q"
  shows "\<exists>t. file_read_loop f (B + of_nat p) (of_nat p) (of_nat e) s = Ret 0 t \<and> copied (\<lambda>q. B + of_nat q) g p e s t"
  using assms
proof (induction "e - p" arbitrary: p s rule: less_induct)
  case less
  show ?case
  proof (cases "p < e")
    case False
    then have "p = e" using less.prems(2) by simp
    then show ?thesis using copied_none by (simp add: file_read_loop.simps)
  next
    case True
    let ?A = "\<lambda>q. B + of_nat q"
    define n where "n = min (4096 - p mod 4096) (e - p)"
    note l = loop_turn [OF less.prems(1) True less.prems(3), folded n_def]
    define t where "t = set_written (PGNUM (B + of_nat p)) True (s\<lparr>fs_mem := mem_copy (fs_mem s) (B + of_nat p) (faddr s f p) (of_nat n)\<rparr>)"
    have c: "copied ?A g p (p + n) s t" unfolding t_def
    proof (rule copied_run [OF l(7)])
      show "fs_mem s (faddr s f p + of_nat i) = g (p + i)" if "i < n" for i
        using less.prems(4) [of "p + i"] run_faddr(2) [of i p s f] that l(6,8) by simp
    qed (simp add: add.assoc)
    have res: "resident s (B + of_nat p)" "resident s (faddr s f p)"
      using less.prems(4) [of p] True faddr_resident [OF less.prems(1)] less.prems(3) by (simp_all add: resident_def)
    have m: "fs_memmove (B + of_nat p) (faddr s f p) (of_nat n) s = Ret () t"
      using l(9) touch_resident [OF res(1)] touch_resident [OF res(2)] by (simp add: fs_memmove_def t_def)
    have out: "\<not> in_cache (B + of_nat q)" if "p \<le> q" "q < p + n" for q using that l(6) less.prems(4) [of q] by simp
    note rd = copied_ready [OF less.prems(1) c] out
    have dat: "\<not> in_cache (B + of_nat q) \<and> fs_mem t (faddr t f q) = g q" if q: "p + n \<le> q" "q < e" for q
    proof -
      have b: "\<not> in_cache (B + of_nat q)" "fs_mem s (faddr s f q) = g q" using less.prems(4) [of q] q by simp_all
      have i: "q < 4096 * N" using q less.prems(3) by simp
      have "faddr s f q \<noteq> ?A q'" if "p \<le> q'" "q' < p + n" for q' using faddr_page(2) [OF less.prems(1) i] out [OF that] by auto
      then show ?thesis using copied_outside [OF c] b rd(2) [OF _ i] out by simp
    qed
    have "\<exists>u. file_read_loop f (B + of_nat (p + n)) (of_nat (p + n)) (of_nat e) t = Ret 0 u \<and> copied ?A g (p + n) e t u"
      by (rule less.hyps) (use rd l(5,6) less.prems(3) dat True in auto)
    then obtain u where u: "file_read_loop f (B + of_nat (p + n)) (of_nat (p + n)) (of_nat e) t = Ret 0 u" "copied ?A g (p + n) e t u"
      by (elim exE conjE)
    have e: "e < 2 ^ 32" using less.prems(3) readyD(4) [OF less.prems(1)] by simp
    have "inj_on ?A {p..<e}" using e of_nat_u32_inject by (auto intro!: inj_onI)
    from copied_trans [OF c u(2) _ l(6) this] have "copied ?A g p e s u" by simp
    moreover have "file_read_loop f (B + of_nat p) (of_nat p) (of_nat e) s = Ret 0 u"
      using l(1-4) m u(1) by (subst file_read_loop.simps) (simp add: Let_def faddr_def [symmetric] add.assoc)
    ultimately show ?thesis by blast
  qed
qed

section \<open>Reading and writing a file\<close>

lemma size_resident: "file_ready s f N \<Longrightarrow> resident s (f_size f)"
  using resident_page [OF field_page [OF readyD(6), of s f N 128]] readyD(7) by (simp add: f_size_def)

lemma file_write_ok:
  assumes r: "file_ready s f N" and sz: "ld32 (fs_mem s) (f_size f) = of_nat len" "len \<le> 4096 * N"
    and c: "off + cnt \<le> len"
    and buf: "\<And>i. i < cnt \<Longrightarrow> \<not> in_cache (buf + of_nat i) \<and> fs_mem s (buf + of_nat i) = g (off + i)"
  shows "\<exists>t. file_write f buf (of_nat cnt) (of_nat off) s = Ret (int cnt) t \<and> copied (faddr s f) g off (off + cnt) s t"
proof -
  have l: "len < 2 ^ 31" using sz(2) readyD(4) [OF r] by simp
  have "\<not> in_cache (buf - of_nat off + of_nat q) \<and> fs_mem s (buf - of_nat off + of_nat q) = g q" if q: "off \<le> q" "q < off + cnt" for q
    using buf [of "q - off"] q by (simp add: of_nat_diff algebra_simps)
  then obtain t where t: "file_write_loop f (buf - of_nat off + of_nat off) (of_nat off) (of_nat (off + cnt)) s = Ret 0 t"
      "copied (faddr s f) g off (off + cnt) s t"
    using write_loop_ok [OF r, of off "off + cnt" "buf - of_nat off" g] c sz(2) by auto
  have "\<not> (of_nat (off + cnt) :: u32) > of_nat len" 
    using c l unat_of_nat_u32 [of len] unat_of_nat_u32 [of "off + cnt"] by (simp add: word_less_nat_alt del: of_nat_add)
  moreover have "sint (of_nat cnt :: u32) = int cnt" using sint_of_nat_u32 c l by simp
  ultimately show ?thesis using t fs_load_resident [OF size_resident [OF r]] sz(1) by (simp add: file_write_def)
qed

lemma file_read_ok:
  assumes r: "file_ready s f N" and sz: "ld32 (fs_mem s) (f_size f) = of_nat len" "len \<le> 4096 * N"
    and c: "off < len" "cnt < 2 ^ 32"
    and buf: "\<And>i. i < cnt \<Longrightarrow> \<not> in_cache (buf + of_nat i)"
  shows "\<exists>t. file_read f buf (of_nat cnt) (of_nat off) s = Ret (int (min cnt (len - off))) t \<and>
    copied (\<lambda>q. buf - of_nat off + of_nat q) (\<lambda>q. fs_mem s (faddr s f q)) off (off + min cnt (len - off)) s t"
proof -
  have l: "len < 2 ^ 31" using sz(2) readyD(4) [OF r] by simp
  define k where "k = min cnt (len - off)"
  have k: "off + k \<le> len" "k \<le> cnt" "k < 2 ^ 31" using c l by (auto simp: k_def)
  have "\<not> in_cache (buf - of_nat off + of_nat q)" if q: "off \<le> q" "q < off + k" for q
    using buf [of "q - off"] q k by (simp add: of_nat_diff algebra_simps)
  then obtain t where t: "file_read_loop f (buf - of_nat off + of_nat off) (of_nat off) (of_nat (off + k)) s = Ret 0 t"
      "copied (\<lambda>q. buf - of_nat off + of_nat q) (\<lambda>q. fs_mem s (faddr s f q)) off (off + k) s t"
    using read_loop_ok [OF r, of off "off + k" "buf - of_nat off" "\<lambda>q. fs_mem s (faddr s f q)"] k sz(2) by auto
  note si = sint_of_nat_u32
  have "\<not> sint (of_nat off :: u32) \<ge> sint (of_nat len :: u32)" using si [of off] si [of len] c l by simp
  moreover have "MIN_u32 (of_nat cnt) (of_nat len - of_nat off) = of_nat k"
  proof -
    have "(of_nat len - of_nat off :: u32) = of_nat (len - off)" using c by (simp add: of_nat_diff)
    moreover have "(of_nat cnt :: u32) \<le> of_nat (len - off) \<longleftrightarrow> cnt \<le> len - off"
      using unat_of_nat_u32 [of cnt] unat_of_nat_u32 [of "len - off"] c l by (simp add: word_le_nat_alt del: of_nat_diff)
    ultimately show ?thesis by (simp only: MIN_u32_def k_def min_def if_distrib [of of_nat])
  qed
  ultimately have "file_read f buf (of_nat cnt) (of_nat off) s = Ret (int k) t"
    using t(1) fs_load_resident [OF size_resident [OF r]] sz(1) si [OF k(3)] by (simp add: file_read_def Let_def)
  then show ?thesis using t(2) by (auto simp: k_def)
qed

end
