(* ===== verification/Fserv.thy ===== *)
theory Fserv
  imports Fs
begin

text \<open>
  The requests the file server answers (\<^verbatim>\<open>fs/serv.c\<close>). The page with the request of a client
  is at \<^verbatim>\<open>fsreq\<close>, where results are stored as well; each open file has a page for its
  \<^verbatim>\<open>struct Fd\<close>, shared with the clients that have it open, whose reference count tells whether
  any of them still has.
\<close>

definition MAXOPEN :: nat where "MAXOPEN = 1024"
definition MAXPATHLEN :: nat where "MAXPATHLEN = 1024"
definition FILEVA :: u32 where "FILEVA = 0xD0000000"
definition fsreq :: u32 where "fsreq = 0x0ffff000"

definition O_ACCMODE :: u32 where "O_ACCMODE = 0x0003"
definition O_CREAT :: u32 where "O_CREAT = 0x0100"
definition O_TRUNC :: u32 where "O_TRUNC = 0x0200"
definition O_EXCL :: u32 where "O_EXCL = 0x0400"
definition PTE_SHARE :: u32 where "PTE_SHARE = 0x400"

text \<open>Addresses of the fields of the \<^verbatim>\<open>struct Fd\<close> at \<open>fd\<close>.\<close>

definition fd_dev_id :: "u32 \<Rightarrow> u32" where "fd_dev_id fd = fd"
definition fd_offset :: "u32 \<Rightarrow> u32" where "fd_offset fd = fd + 4"
definition fd_omode :: "u32 \<Rightarrow> u32" where "fd_omode fd = fd + 8"
definition fd_file_id :: "u32 \<Rightarrow> u32" where "fd_file_id fd = fd + 12"

definition set_open :: "nat \<Rightarrow> (openfile \<Rightarrow> openfile) \<Rightarrow> fs \<Rightarrow> fs" where
  "set_open i g s = s\<lparr>opentab := (opentab s)(i := g (opentab s i))\<rparr>"

definition serve_init :: "fs \<Rightarrow> fs" where
  "serve_init s = fold (\<lambda>i. set_open i (\<lambda>x. x\<lparr>o_fileid := of_nat i, o_fd := FILEVA + of_nat i * PGSIZE\<rparr>)) [0..<MAXOPEN] s"

definition pageref :: "u32 \<Rightarrow> fs \<Rightarrow> u32" where
  "pageref v s = (if fs_present s (PGNUM v) then fs_pageref s (PGNUM v) else 0)"

section \<open>The table of open files\<close>

text \<open>The result of \<^verbatim>\<open>openfile_alloc\<close> and the index of the entry it found.\<close>

fun openfile_alloc_from :: "nat list \<Rightarrow> fs \<Rightarrow> (int \<times> nat, fs) kres" where
  "openfile_alloc_from [] s = Ret (- E_MAX_OPEN, 0) s"
| "openfile_alloc_from (i # is) s =
     (let fd = o_fd (opentab s i) in
      if pageref fd s = 0 \<or> pageref fd s = 1 then
        case (if pageref fd s = 0 then self_page_alloc fd s else (0, s)) of (r, s) \<Rightarrow>
        if r < 0 then Ret (r, 0) s
        else let s = set_open i (\<lambda>x. x\<lparr>o_fileid := o_fileid x + of_nat MAXOPEN\<rparr>) s in
          bindK (fs_memset (o_fd (opentab s i)) 0 PGSIZE s) (\<lambda>_ s. Ret (sint (o_fileid (opentab s i)), i) s)
      else openfile_alloc_from is s)"

definition openfile_alloc :: "fs \<Rightarrow> (int \<times> nat, fs) kres" where
  "openfile_alloc s = openfile_alloc_from [0..<MAXOPEN] s"

definition openfile_lookup :: "u32 \<Rightarrow> fs \<Rightarrow> int \<times> nat" where
  "openfile_lookup fileid s =
     (let i = unat (fileid mod of_nat MAXOPEN); x = opentab s i in
      if sint (pageref (o_fd x) s) \<le> 1 \<or> o_fileid x \<noteq> fileid then (- E_INVAL, 0) else (0, i))"

section \<open>Requests\<close>

text \<open>The string in the first \<open>n\<close> bytes, cut off there.\<close>

definition cstr_at :: "mem \<Rightarrow> u32 \<Rightarrow> nat \<Rightarrow> u8 list" where
  "cstr_at m a n = takeWhile (\<lambda>c. c \<noteq> 0) (map (\<lambda>i. m (a + of_nat i)) [0..<n])"

definition serve_open_file :: "u8 list \<Rightarrow> u32 \<Rightarrow> fs \<Rightarrow> (int \<times> u32, fs) kres" where
  "serve_open_file path omode s =
     (if omode AND O_CREAT \<noteq> 0 then
        bindK (file_create path s) (\<lambda>(r, f) s.
        if r < 0 then
          if omode AND O_EXCL = 0 \<and> r = - E_FILE_EXISTS then file_open path s else Ret (r, 0) s
        else Ret (r, f) s)
      else file_open path s)"

text \<open>The result, the page to send back and its permissions.\<close>

definition serve_open :: "u32 \<Rightarrow> fs \<Rightarrow> (int \<times> u32 \<times> u32, fs) kres" where
  "serve_open perm s =
     (let path = cstr_at (fs_mem s) fsreq (MAXPATHLEN - 1) in
      bindK (openfile_alloc s) (\<lambda>(r, i) s.
      if r < 0 then Ret (r, 0, perm) s
      else let omode = ld32 (fs_mem s) (fsreq + 1024) in
        bindK (serve_open_file path omode s) (\<lambda>(r, f) s.
        if r < 0 then Ret (r, 0, perm) s
        else bindK (if omode AND O_TRUNC \<noteq> 0 then file_set_size f 0 s else Ret 0 s) (\<lambda>r s.
          if r < 0 then Ret (r, 0, perm) s
          else bindK (file_open path s) (\<lambda>(r, f) s.
            if r < 0 then Ret (r, 0, perm) s
            else
              let s = set_open i (\<lambda>x. x\<lparr>o_file := f\<rparr>) s; fd = o_fd (opentab s i) in
              bindK (fs_store (fd_file_id fd) (o_fileid (opentab s i)) s) (\<lambda>_ s.
              bindK (fs_store (fd_omode fd) (omode AND O_ACCMODE) s) (\<lambda>_ s.
              bindK (fs_store (fd_dev_id fd) 102 s) (\<lambda>_ s.
              let s = set_open i (\<lambda>x. x\<lparr>o_mode := omode\<rparr>) s in
              Ret (0, o_fd (opentab s i), PTE_P OR PTE_U OR PTE_W OR PTE_SHARE) s))))))))"

text \<open>The open file a request names in its first word.\<close>

definition with_open :: "(nat \<Rightarrow> fs \<Rightarrow> (int, fs) kres) \<Rightarrow> fs \<Rightarrow> (int, fs) kres" where
  "with_open k s = (case openfile_lookup (ld32 (fs_mem s) fsreq) s of (r, i) \<Rightarrow> if r < 0 then Ret r s else k i s)"

definition serve_set_size :: "fs \<Rightarrow> (int, fs) kres" where
  "serve_set_size s = with_open (\<lambda>i s. file_set_size (o_file (opentab s i)) (ld32 (fs_mem s) (fsreq + 4)) s) s"

definition serve_read :: "fs \<Rightarrow> (int, fs) kres" where
  "serve_read s =
     (let n_to_read = ld32 (fs_mem s) (fsreq + 4) in
      with_open (\<lambda>i s.
        let n_to_read = (if ld32 (fs_mem s) (fsreq + 4) > PGSIZE then PGSIZE else n_to_read);
            fd = o_fd (opentab s i) in
        bindK (fs_load (fd_offset fd) s) (\<lambda>offset s.
        bindK (file_read (o_file (opentab s i)) fsreq n_to_read offset s) (\<lambda>n_read s.
        if n_read < 0 then Ret n_read s
        else bindK (fs_load (fd_offset fd) s) (\<lambda>offset s.
          bindK (fs_store (fd_offset fd) (offset + word_of_int n_read) s) (\<lambda>_ s. Ret n_read s))))) s)"

definition serve_write :: "fs \<Rightarrow> (int, fs) kres" where
  "serve_write s =
     with_open (\<lambda>i s.
       let req_n = ld32 (fs_mem s) (fsreq + 4); fd = o_fd (opentab s i) in
       bindK (assertK (req_n \<le> PGSIZE - 8) ''req->req_n <= PGSIZE - (sizeof(int) + sizeof(size_t))'' s) (\<lambda>_ s.
       bindK (fs_load (fd_offset fd) s) (\<lambda>offset s.
       bindK (file_write (o_file (opentab s i)) (fsreq + 8) req_n offset s) (\<lambda>n_write s.
       if n_write < 0 then Ret n_write s
       else bindK (fs_load (fd_offset fd) s) (\<lambda>offset s.
         bindK (fs_store (fd_offset fd) (offset + word_of_int n_write) s) (\<lambda>_ s. Ret n_write s)))))) s"

text \<open>The name of a file, with its terminator, as \<^verbatim>\<open>strcpy\<close> copies it.\<close>

definition copy_name :: "u32 \<Rightarrow> u32 \<Rightarrow> fs \<Rightarrow> (unit, fs) kres" where
  "copy_name dst src s =
     bindK (touch src s) (\<lambda>_ s. case strcpy (fs_mem s) dst src of
       None \<Rightarrow> Leave SpinForever s | Some m \<Rightarrow> Ret () (s\<lparr>fs_mem := m\<rparr>))"

definition serve_stat :: "fs \<Rightarrow> (int, fs) kres" where
  "serve_stat s =
     with_open (\<lambda>i s.
       let f = o_file (opentab s i) in
       bindK (copy_name fsreq f s) (\<lambda>_ s.
       bindK (fs_load (f_size f) s) (\<lambda>sz s.
       bindK (fs_store (fsreq + 128) sz s) (\<lambda>_ s.
       bindK (fs_load (f_type f) s) (\<lambda>ty s.
       bindK (fs_store (fsreq + 132) (if ty = FTYPE_DIR then 1 else 0) s) (\<lambda>_ s. Ret 0 s)))))) s"

definition serve_flush :: "fs \<Rightarrow> (int, fs) kres" where
  "serve_flush s = with_open (\<lambda>i s. bindK (file_flush (o_file (opentab s i)) s) (\<lambda>_ s. Ret 0 s)) s"

definition serve_sync :: "fs \<Rightarrow> (int, fs) kres" where
  "serve_sync s = bindK (fs_sync s) (\<lambda>_ s. Ret 0 s)"

text \<open>
  One turn of the main loop, for the request number and the page permissions received. The
  answer to send back is the result, a page and its permissions; there is none for a request
  without a page.
\<close>

definition serve :: "u32 \<Rightarrow> u32 \<Rightarrow> fs \<Rightarrow> ((int \<times> u32 \<times> u32) option, fs) kres" where
  "serve req perm s =
     (if perm AND PTE_P = 0 then Ret None s
      else
        bindK (if req = 1 then serve_open perm s
               else bindK (if req = 2 then serve_set_size s
                 else if req = 3 then serve_read s
                 else if req = 4 then serve_write s
                 else if req = 5 then serve_stat s
                 else if req = 6 then serve_flush s
                 else if req = 8 then serve_sync s
                 else Ret (- E_INVAL) s) (\<lambda>r s. Ret (r, 0, perm) s)) (\<lambda>a s.
        case self_page_unmap fsreq s of (_, s) \<Rightarrow> Ret (Some a) s))"

end
