(* ===== verification/Fservinv.thy ===== *)
theory Fservinv
  imports Fserv Fsinv
begin

text \<open>
  The table of open files: which entry \<^verbatim>\<open>openfile_alloc\<close> takes, and which identifiers
  \<^verbatim>\<open>openfile_lookup\<close> accepts afterwards.
\<close>

definition file_page :: "nat \<Rightarrow> u32" where
  "file_page i = FILEVA + of_nat i * PGSIZE"

definition table_ok :: "fs \<Rightarrow> bool" where
  "table_ok s \<longleftrightarrow> (\<forall>i<MAXOPEN. o_fd (opentab s i) = file_page i \<and> unat (o_fileid (opentab s i)) mod MAXOPEN = i)"

lemma unat_file_page: "i < MAXOPEN \<Longrightarrow> unat (file_page i) = 0xD0000000 + 4096 * i"
  by (simp add: file_page_def FILEVA_def PGSIZE_def MAXOPEN_def unat_word_ariths unat_of_nat)

lemma file_page_ok:
  assumes "i < MAXOPEN"
  shows "\<not> in_cache (file_page i)" "\<not> bad_va (file_page i)" "PGNUM (file_page i) = 0xD0000 + of_nat i"
proof -
  note u = unat_file_page [OF assms]
  show "\<not> in_cache (file_page i)" using u by (simp add: in_cache_unat)
  have "unat (file_page i mod PGSIZE) = 0" using u by (simp add: unat_mod PGSIZE_def)
  then have "file_page i mod PGSIZE = 0" by (simp only: word_unat_eq_iff unat_0)
  moreover have "\<not> file_page i \<ge> UTOP" using u assms by (simp add: word_le_nat_alt layout_values MAXOPEN_def)
  ultimately show "\<not> bad_va (file_page i)" by (simp add: bad_va_def)
  have "unat (PGNUM (file_page i)) = 0xD0000 + i" using u by (simp add: unat_PGNUM)
  moreover have "unat ((0xD0000 :: u32) + of_nat i) = 0xD0000 + i" using assms by (simp add: unat_word_ariths unat_of_nat MAXOPEN_def)
  ultimately show "PGNUM (file_page i) = 0xD0000 + of_nat i" by (simp only: word_unat_eq_iff)
qed

lemma file_page_inj: "i < MAXOPEN \<Longrightarrow> j < MAXOPEN \<Longrightarrow> PGNUM (file_page i) = PGNUM (file_page j) \<longleftrightarrow> i = j"
  using file_page_ok(3) of_nat_u32_inject [of i j] by (auto simp: MAXOPEN_def)

lemma serve_init_entry:
  assumes "i < MAXOPEN"
  shows "opentab (serve_init s) i = (opentab s i)\<lparr>o_fileid := of_nat i, o_fd := file_page i\<rparr>"
proof -
  have "opentab (fold (\<lambda>i. set_open i (\<lambda>x. x\<lparr>o_fileid := of_nat i, o_fd := FILEVA + of_nat i * PGSIZE\<rparr>)) [0..<n] s) =
    (\<lambda>i. if i < n then (opentab s i)\<lparr>o_fileid := of_nat i, o_fd := file_page i\<rparr> else opentab s i)" for n
    by (induction n) (auto simp: set_open_def file_page_def fun_eq_iff less_Suc_eq)
  then show ?thesis using assms by (simp add: serve_init_def)
qed

lemma serve_init_table: "table_ok (serve_init s)"
  using serve_init_entry by (simp add: table_ok_def unat_of_nat MAXOPEN_def)

lemma serve_init_rest:
  "fs_memory_left (serve_init s) = fs_memory_left s" "pageref a (serve_init s) = pageref a s"
proof -
  have "fs_memory_left (fold (\<lambda>i. set_open i (g i)) is s) = fs_memory_left s \<and> pageref a (fold (\<lambda>i. set_open i (g i)) is s) = pageref a s"
    for g and "is" :: "nat list" by (induction "is" arbitrary: s) (simp_all add: set_open_def pageref_def)
  then show "fs_memory_left (serve_init s) = fs_memory_left s" "pageref a (serve_init s) = pageref a s"
    by (simp_all add: serve_init_def)
qed

text \<open>An entry is taken when no client maps its page.\<close>

definition unused :: "fs \<Rightarrow> nat \<Rightarrow> bool" where
  "unused s i \<longleftrightarrow> pageref (file_page i) s = 0 \<or> pageref (file_page i) s = 1"

definition taken :: "fs \<Rightarrow> nat \<Rightarrow> fs \<Rightarrow> bool" where
  "taken s i t \<longleftrightarrow> table_ok t \<and> o_fileid (opentab t i) = o_fileid (opentab s i) + of_nat MAXOPEN \<and>
     pageref (file_page i) t = 1 \<and> (\<forall>x. PGNUM x = PGNUM (file_page i) \<longrightarrow> fs_mem t x = 0) \<and>
     (\<forall>j<MAXOPEN. j \<noteq> i \<longrightarrow> opentab t j = opentab s j \<and> pageref (file_page j) t = pageref (file_page j) s) \<and>
     (\<forall>x. PGNUM x \<noteq> PGNUM (file_page i) \<longrightarrow> fs_mem t x = fs_mem s x)"

lemma page_bytes:
  assumes "i < MAXOPEN"
  shows "x - file_page i < PGSIZE \<longleftrightarrow> PGNUM x = PGNUM (file_page i)"
proof -
  have "unat (push_bit 12 (PGNUM (file_page i))) = unat (file_page i)"
    using unat_frame [OF PGNUM_less] unat_file_page [OF assms] by (simp add: unat_PGNUM)
  then have "push_bit 12 (PGNUM (file_page i)) = file_page i" by (simp only: word_unat_eq_iff)
  then show ?thesis using page_region_iff [OF PGNUM_less, of x "file_page i"] by (simp add: PGSIZE_def)
qed

lemma alloc_entry:
  assumes s: "table_ok s" "fs_memory_left s = []" and i: "i < MAXOPEN" "unused s i"
  shows "\<exists>t. openfile_alloc_from (i # is) s = Ret (sint (o_fileid (opentab s i) + of_nat MAXOPEN), i) t \<and> taken s i t"
proof -
  let ?p = "file_page i"
  have fd: "o_fd (opentab s i) = ?p" using s(1) i(1) by (simp add: table_ok_def)
  define s1 where "s1 = (if pageref ?p s = 0 then snd (self_page_alloc ?p s) else s)"
  have a: "(if pageref ?p s = 0 then self_page_alloc ?p s else (0, s)) = (0, s1)"
    using s(2) file_page_ok(2) [OF i(1)] by (simp add: s1_def self_page_alloc_def)
  have s1: "opentab s1 = opentab s" "pageref ?p s1 = 1" "\<And>x. PGNUM x \<noteq> PGNUM ?p \<Longrightarrow> fs_mem s1 x = fs_mem s x"
    "\<And>j. j < MAXOPEN \<Longrightarrow> j \<noteq> i \<Longrightarrow> pageref (file_page j) s1 = pageref (file_page j) s"
    using i s(2) file_page_ok(2) [OF i(1)] file_page_inj [OF _ i(1)] page_bytes [OF i(1)]
    by (auto simp: s1_def self_page_alloc_def set_present_def set_written_def pageref_def unused_def mem_set_def split: if_splits)
  define s2 where "s2 = set_open i (\<lambda>x. x\<lparr>o_fileid := o_fileid x + of_nat MAXOPEN\<rparr>) s1"
  define t where "t = set_written (PGNUM ?p) True (s2\<lparr>fs_mem := mem_set (fs_mem s2) ?p 0 PGSIZE\<rparr>)"
  have fd2: "o_fd (opentab s2 i) = ?p" using fd s1(1) by (simp add: s2_def set_open_def)
  have ms: "fs_memset ?p 0 PGSIZE s2 = Ret () t"
    using touch_resident [of s2 ?p] file_page_ok(1) [OF i(1)] by (simp add: fs_memset_def t_def resident_def PGSIZE_def)
  have id: "o_fileid (opentab t i) = o_fileid (opentab s i) + of_nat MAXOPEN"
    using s1(1) by (simp add: t_def s2_def set_open_def set_written_def)
  have "unat (o_fileid (opentab s i) + of_nat MAXOPEN) mod MAXOPEN = unat (o_fileid (opentab s i)) mod MAXOPEN"
    by (simp add: MAXOPEN_def unat_word_ariths mod_mod_cancel)
  then have "table_ok t" using s(1) i(1) s1(1) by (auto simp: table_ok_def t_def s2_def set_open_def set_written_def)
  moreover have "pageref a t = pageref a s1" for a by (simp add: t_def s2_def set_open_def set_written_def pageref_def)
  moreover have "fs_mem t x = (if PGNUM x = PGNUM ?p then 0 else fs_mem s1 x)" for x
    using page_bytes [OF i(1)] by (simp add: t_def s2_def set_open_def set_written_def mem_set_def)
  moreover have "opentab t j = opentab s j" if "j \<noteq> i" for j
    using s1(1) that by (simp add: t_def s2_def set_open_def set_written_def)
  ultimately have "taken s i t" using id s1 by (simp add: taken_def)
  moreover have "openfile_alloc_from (i # is) s = Ret (sint (o_fileid (opentab s i) + of_nat MAXOPEN), i) t"
    using a i(2) fd fd2 ms id by (simp add: Let_def unused_def s2_def [symmetric])
  ultimately show ?thesis by blast
qed

lemma alloc_from_ok:
  assumes s: "table_ok s" "fs_memory_left s = []" and ix: "set is \<subseteq> {..<MAXOPEN}"
  shows "case find (unused s) is of None \<Rightarrow> openfile_alloc_from is s = Ret (- E_MAX_OPEN, 0) s
    | Some i \<Rightarrow> \<exists>t. openfile_alloc_from is s = Ret (sint (o_fileid (opentab s i) + of_nat MAXOPEN), i) t \<and> taken s i t"
  using ix
proof (induction "is")
  case (Cons i "is")
  then have i: "i < MAXOPEN" by simp
  show ?case
  proof (cases "unused s i")
    case True
    then show ?thesis using alloc_entry [OF s i True] by simp
  next
    case False
    moreover have "o_fd (opentab s i) = file_page i" using s(1) i by (simp add: table_ok_def)
    ultimately have "openfile_alloc_from (i # is) s = openfile_alloc_from is s" by (simp add: unused_def Let_def)
    then show ?thesis using Cons False by (simp del: openfile_alloc_from.simps split: option.splits)
  qed
qed simp

lemma openfile_alloc_ok:
  assumes "table_ok s" "fs_memory_left s = []"
  shows "case find (unused s) [0..<MAXOPEN] of None \<Rightarrow> openfile_alloc s = Ret (- E_MAX_OPEN, 0) s
    | Some i \<Rightarrow> \<exists>t. openfile_alloc s = Ret (sint (o_fileid (opentab s i) + of_nat MAXOPEN), i) t \<and> taken s i t"
  unfolding openfile_alloc_def by (rule alloc_from_ok [OF assms]) auto

lemma lookup_ok:
  assumes s: "table_ok s"
  shows "openfile_lookup fileid s =
    (let i = unat fileid mod MAXOPEN in
     if sint (pageref (file_page i) s) \<le> 1 \<or> o_fileid (opentab s i) \<noteq> fileid then (- E_INVAL, 0) else (0, i))"
proof -
  have u: "unat (fileid mod of_nat MAXOPEN) = unat fileid mod MAXOPEN" by (simp add: unat_mod MAXOPEN_def)
  have "unat fileid mod MAXOPEN < MAXOPEN" by (simp add: MAXOPEN_def)
  then have "o_fd (opentab s (unat fileid mod MAXOPEN)) = file_page (unat fileid mod MAXOPEN)" using s by (simp add: table_ok_def)
  then show ?thesis by (simp add: openfile_lookup_def Let_def u)
qed

end
