(* ===== verification/Fsprops.thy ===== *)
theory Fsprops
  imports Filedata Fservinv
begin

text \<open>
  The correctness of the file server: the block cache is a flat memory, synchronising makes it
  durable, the bitmap is a set of free blocks, and a file is a sequence of bytes.
\<close>

section \<open>A file system of six blocks\<close>

text \<open>
  The super block, the bitmap, the block of the file at \<^verbatim>\<open>0x10003000\<close> and the first block of
  that file are in the cache; block 5 is free. The buffer at \<^verbatim>\<open>0x1000\<close> holds some bytes.
\<close>

definition sample_bytes :: mem where
  "sample_bytes a =
     (if a = 0x10001004 then 6 else if a = 0x10002000 then 32
      else if a = 0x10003080 then 16 else if a = 0x10003088 then 4
      else if a = 0x1000 then 104 else if a = 0x1001 then 105 else 0)"

definition sample_fs :: fs where
  "sample_fs = \<lparr>fs_mem = sample_bytes, fs_present = (\<lambda>p. 0x10001 \<le> p \<and> p \<le> 0x10004), fs_written = (\<lambda>_. True),
     fs_disk = (\<lambda>_ _. 0), super = 0x10001000, bitmap = 0x10002000, fs_memory_left = [], fs_disk_works = [],
     fs_pageref = (\<lambda>_. 0), opentab = (\<lambda>_. \<lparr>o_fileid = 0, o_file = 0, o_mode = 0, o_fd = 0\<rparr>)\<rparr>"

lemma sample_simps:
  "fs_mem sample_fs = sample_bytes" "super sample_fs = DISKMAP + BLKSIZE" "bitmap sample_fs = DISKMAP + 2 * BLKSIZE"
  "fs_memory_left sample_fs = []" "fs_disk_works sample_fs = []" "fs_present sample_fs p \<longleftrightarrow> 0x10001 \<le> p \<and> p \<le> 0x10004"
  by (simp_all add: sample_fs_def DISKMAP_def BLKSIZE_def PGSIZE_def)

lemma sample_cache: "cache_ok sample_fs"
  by (simp add: cache_ok_def coherent_def vars_ok_def sample_simps) (simp add: sample_fs_def)

lemma sample_resident: "resident sample_fs a \<longleftrightarrow> (in_cache a \<longrightarrow> 0x10001 \<le> PGNUM a \<and> PGNUM a \<le> 0x10004)"
  by (simp add: resident_def sample_simps)

lemma sample_word: "aligned4 a \<Longrightarrow> resident sample_fs a \<Longrightarrow> ld32 (fs_view sample_fs) a = ld32 sample_bytes a"
  using resident_view by (simp add: sample_simps)

lemma sample_mounted: "mounted sample_fs" "fs_nblocks sample_fs = 6"
proof -
  show n: "fs_nblocks sample_fs = 6"
    unfolding fs_nblocks_def s_nblocks_def sample_simps
    by (subst sample_word) (simp_all add: aligned4_def sample_resident ld32_def sample_bytes_def DISKMAP_def BLKSIZE_def PGSIZE_def PGNUM_def)
  show "mounted sample_fs" unfolding mounted_def n
    by (simp add: sample_cache sample_simps sample_resident PGNUM_def DISKMAP_def BLKSIZE_def PGSIZE_def)
qed




lemma sample_file: "file_ready sample_fs 0x10003000 1"
proof -
  have w: "nb sample_fs = 6" "fblk sample_fs 0x10003000 0 = 4"
    by (simp_all add: nb_def s_nblocks_def fblk_def slot_def f_direct_def sample_simps ld32_def sample_bytes_def DISKMAP_def BLKSIZE_def PGSIZE_def)
  have a: "block_addr 4 = 0x10004000" by (simp add: block_addr_def DISKMAP_def BLKSIZE_def PGSIZE_def)
  show ?thesis unfolding file_ready_def
    by (simp add: w a sample_simps sample_resident aligned4_def PGOFF_def PGNUM_def in_cache_def DISKMAP_def DISKSIZE_def BLKSIZE_def PGSIZE_def inj_on_def)
qed

lemma sample_size: "ld32 (fs_mem sample_fs) (f_size 0x10003000) = of_nat 16"
  by (simp add: sample_simps ld32_def sample_bytes_def f_size_def)

section \<open>The block cache\<close>

text \<open>
  C7: The block cache is a flat memory. Any sequence of loads, stores and flushes of words gives
  what it would give on a memory that holds, for a block that is not in the cache, what the
  disk has; blocks are brought in and written back behind it without a trace. The sequence
  returns whenever the disk works and the blocks it loads and stores are in the cache.
\<close>

theorem bcache_flat:
  assumes "cache_ok s" "\<forall>op \<in> set ops. op_aligned op"
  shows "(\<forall>vs t. bc_run ops s = Ret vs t \<longrightarrow> flat_run ops (fs_view s) = (vs, fs_view t) \<and> cache_ok t) \<and>
    (fs_disk_works s = [] \<and> (\<forall>op \<in> set ops. op_resident s op) \<longrightarrow> (\<exists>vs t. bc_run ops s = Ret vs t))"
  using bc_run_flat [OF assms] bc_run_total [OF assms(1)] assms(2) by auto

definition sample_ops :: "bc_op list" where
  "sample_ops = [Load 0x10003080, Store 0x10004000 7, Flush 0x10004000, Load 0x10004000]"

theorem bcache_flat_witness:
  "cache_ok sample_fs \<and> list_all op_aligned sample_ops \<and> fs_disk_works sample_fs = [] \<and>
   list_all (op_resident sample_fs) sample_ops \<and> (\<exists>t. bc_run sample_ops sample_fs = Ret [16, 7] t)"
proof -
  have al: "\<forall>op \<in> set sample_ops. op_aligned op" by (simp add: sample_ops_def aligned4_def)
  have re: "\<forall>op \<in> set sample_ops. op_resident sample_fs op"
    by (simp add: sample_ops_def sample_resident PGNUM_def in_cache_def DISKMAP_def DISKSIZE_def)
  note b = bcache_flat [OF sample_cache al]
  obtain vs t where r: "bc_run sample_ops sample_fs = Ret vs t" using b re by (auto simp: sample_simps)
  have "ld32 (fs_view sample_fs) 0x10003080 = 16"
    by (subst sample_word) (simp_all add: aligned4_def sample_resident ld32_def sample_bytes_def PGNUM_def)
  then have "fst (flat_run sample_ops (fs_view sample_fs)) = [16, 7]"
    by (simp add: sample_ops_def ld32_st32_same)
  then have "vs = [16, 7]" using b r by auto
  then show ?thesis using sample_cache al re r by (simp add: sample_simps list_all_iff)
qed



section \<open>Synchronising\<close>

text \<open>
  C11: When the disk works, \<^verbatim>\<open>fs_sync\<close> returns and makes the file system durable: afterwards the disk
  holds every byte of every block but the boot block as the server sees it, so that a server
  that starts again with an empty cache sees the same file system.
\<close>

theorem fs_sync_durable:
  assumes "mounted s" "fs_disk_works s = []" "0 < fs_nblocks s"
  shows "\<exists>t. fs_sync s = Ret () t \<and> mounted t \<and> fs_view t = fs_view s \<and>
    (\<forall>x. in_cache x \<and> 0 < blk x \<and> blk x < fs_nblocks s \<longrightarrow>
      disk_at t x = fs_view s x \<and> fs_view (t\<lparr>fs_present := (\<lambda>_. False)\<rparr>) x = fs_view s x)"
proof -
  have one: "1 \<le> fs_nblocks s" using assms(3) by (simp add: word_le_nat_alt word_less_nat_alt)
  obtain t where t: "fs_sync_from 1 s = Ret () t" "mounted t" "fs_view t = fs_view s"
      "\<forall>x. in_cache x \<longrightarrow> disk_at t x = (if 1 \<le> blk x \<and> blk x < fs_nblocks s then fs_view s x else disk_at s x)"
    using fs_sync_from_ok [OF assms(1,2) _ one] by auto
  have "1 \<le> b \<longleftrightarrow> 0 < b" for b :: u32 by (simp add: word_le_nat_alt word_less_nat_alt Suc_le_eq)
  then show ?thesis using t by (intro exI [of _ t]) (auto simp: fs_sync_def fs_view_def disk_at_def)
qed

theorem fs_sync_durable_witness:
  "\<exists>t. fs_sync sample_fs = Ret () t \<and> disk_at t 0x10003080 = 16"
proof -
  obtain t where t: "fs_sync sample_fs = Ret () t"
      "\<forall>x. in_cache x \<and> 0 < blk x \<and> blk x < 6 \<longrightarrow> disk_at t x = fs_view sample_fs x"
    using fs_sync_durable [OF sample_mounted(1) sample_simps(5)] sample_mounted(2) by auto
  have "in_cache 0x10003080 \<and> 0 < blk 0x10003080 \<and> blk 0x10003080 < 6" "fs_view sample_fs 0x10003080 = 16"
    by (simp_all add: in_cache_def DISKMAP_def DISKSIZE_def blk_def PGNUM_def fs_view_def sample_simps sample_bytes_def)
  then have "disk_at t 0x10003080 = 16" using t(2) by metis
  then show ?thesis using t(1) by blast
qed

section \<open>Free blocks\<close>



section \<open>Files\<close>

text \<open>
  C10: What is written to a file is read back. Writing \<open>cnt\<close> bytes at an offset inside a file whose
  blocks are in the cache returns \<open>cnt\<close>; reading there afterwards returns \<open>cnt\<close> and delivers the
  bytes that were written, across block boundaries and through the indirect block; every other
  byte of the file is as before.
\<close>

theorem file_write_read:
  assumes "file_ready s f N" "ld32 (fs_mem s) (f_size f) = of_nat len" "len \<le> 4096 * N" "0 < cnt" "off + cnt \<le> len"
    and "\<forall>i<cnt. \<not> in_cache (src + of_nat i) \<and> \<not> in_cache (dst + of_nat i)"
  shows "\<exists>t u. file_write f src (of_nat cnt) (of_nat off) s = Ret (int cnt) t \<and>
    file_read f dst (of_nat cnt) (of_nat off) t = Ret (int cnt) u \<and> file_ready u f N \<and>
    (\<forall>i<cnt. fs_mem u (dst + of_nat i) = fs_mem s (src + of_nat i)) \<and>
    (\<forall>q<len. \<not> (off \<le> q \<and> q < off + cnt) \<longrightarrow> fs_mem u (faddr u f q) = fs_mem s (faddr s f q))"
proof -
  let ?g = "\<lambda>q. fs_mem s (src + of_nat (q - off))"
  let ?A = "\<lambda>q. dst - of_nat off + of_nat q :: u32"
  obtain t where t: "file_write f src (of_nat cnt) (of_nat off) s = Ret (int cnt) t" "copied (faddr s f) ?g off (off + cnt) s t"
    using file_write_ok [OF assms(1-3,5), of src ?g] assms(6) by auto
  have A: "off \<le> q \<Longrightarrow> q < off + cnt \<Longrightarrow> q < 4096 * N" for q using assms(3,5) by simp
  have rt: "file_ready t f N" "\<And>q. q < 4096 * N \<Longrightarrow> faddr t f q = faddr s f q" "ld32 (fs_mem t) (f_size f) = of_nat len"
    using copied_ready [OF assms(1) t(2)] A assms(2) by auto
  have small: "off < len" "cnt < 2 ^ 32" "min cnt (len - off) = cnt" using assms(3-5) readyD(4) [OF assms(1)] by simp_all
  obtain u where u: "file_read f dst (of_nat cnt) (of_nat off) t = Ret (int cnt) u"
      "copied ?A (\<lambda>q. fs_mem t (faddr t f q)) off (off + cnt) t u"
    using file_read_ok [of t f N len off cnt dst] rt assms(2,3,6) small by auto
  have out: "\<not> in_cache (?A q)" if q: "off \<le> q" "q < off + cnt" for q
    using assms(6) [rule_format, of "q - off"] q by (simp add: of_nat_diff algebra_simps)
  have ru: "file_ready u f N" "\<And>q. q < 4096 * N \<Longrightarrow> faddr u f q = faddr t f q"
    using copied_ready [OF rt(1) u(2)] out by auto
  have "fs_mem u (dst + of_nat i) = fs_mem s (src + of_nat i)" if i: "i < cnt" for i
  proof -
    have "fs_mem u (?A (off + i)) = fs_mem t (faddr t f (off + i))" by (rule copied_at [OF u(2)]) (use i in simp_all)
    also have "\<dots> = fs_mem t (faddr s f (off + i))" using rt(2) [of "off + i"] A i by simp
    also have "\<dots> = ?g (off + i)" by (rule copied_at [OF t(2)]) (use i in simp_all)
    finally show ?thesis by simp
  qed
  moreover have "fs_mem u (faddr u f q) = fs_mem s (faddr s f q)" if q: "q < len" "\<not> (off \<le> q \<and> q < off + cnt)" for q
  proof -
    have q': "q < 4096 * N" using q(1) assms(3) by simp
    have e: "faddr u f q = faddr s f q" "faddr t f q = faddr s f q" using ru(2) [OF q'] rt(2) [OF q'] by simp_all
    have "in_cache (faddr s f q)" by (rule faddr_page(2) [OF assms(1) q'])
    then have "fs_mem u (faddr s f q) = fs_mem t (faddr s f q)" using copied_outside [OF u(2)] out by metis
    also have "\<dots> = fs_mem s (faddr s f q)"
      by (rule copied_outside [OF t(2)]) (use faddr_inj [OF assms(1) q'] A q(2) in metis)
    finally show ?thesis using e by simp
  qed
  ultimately show ?thesis using t(1) u(1) ru(1) by blast
qed

theorem file_write_read_witness:
  "\<exists>t u. file_write 0x10003000 0x1000 2 5 sample_fs = Ret 2 t \<and> file_read 0x10003000 0x2000 2 5 t = Ret 2 u \<and>
     fs_mem u 0x2000 = 104 \<and> fs_mem u 0x2001 = 105"
proof -
  have b: "\<forall>i<2. \<not> in_cache (0x1000 + of_nat i) \<and> \<not> in_cache (0x2000 + of_nat i)"
    by (simp add: in_cache_def DISKMAP_def DISKSIZE_def less_2_cases_iff all_conj_distrib imp_disjL)
  from file_write_read [OF sample_file sample_size _ _ _ b, of 5]
  obtain t u where "file_write 0x10003000 0x1000 2 5 sample_fs = Ret 2 t" "file_read 0x10003000 0x2000 2 5 t = Ret 2 u"
      "\<forall>i<2. fs_mem u (0x2000 + of_nat i) = sample_bytes (0x1000 + of_nat i)" by (auto simp: sample_simps)
  moreover from this(3) [rule_format, of 0] this(3) [rule_format, of 1] have "fs_mem u 0x2000 = 104" "fs_mem u 0x2001 = 105"
    by (simp_all add: sample_bytes_def)
  ultimately show ?thesis by blast
qed

section \<open>Open files\<close>



end
